(* ===== verification/Prelude.thy ===== *)
theory Prelude
  imports Main "HOL-Library.Word" "HOL-Library.AList"
begin

unbundle bit_operations_syntax

text \<open>
  Shared vocabulary of the firmware model: fixed-width integers, byte buffers with the
  effect of \<open>memcpy\<close>, little- and big-endian encodings, the hardened booleans of
  \<open>lib/secutils\<close>, and generic facts on lists and words.  A C \<open>ASSERT\<close> that fails halts
  the device; operations that contain one return an option, with \<open>None\<close> for the halt.
\<close>

section \<open>Machine integers and buffers\<close>

type_synonym u8 = "8 word"
type_synonym u16 = "16 word"
type_synonym u32 = "32 word"
type_synonym u64 = "64 word"
type_synonym bytes = "u8 list"

named_theorems fw_defs \<open>definitions of the component models\<close>

abbreviation UINT8_MAX :: u8 where "UINT8_MAX \<equiv> 255"
abbreviation UINT16_MAX :: u16 where "UINT16_MAX \<equiv> 65535"
abbreviation UINT32_MAX :: u32 where "UINT32_MAX \<equiv> 4294967295"

text \<open>\<open>mem_write buf off bs\<close> is the buffer after \<open>memcpy(&buf[off], bs, length bs)\<close>.\<close>

definition mem_write :: "'a list \<Rightarrow> nat \<Rightarrow> 'a list \<Rightarrow> 'a list" where
  "mem_write buf off bs = take off buf @ bs @ drop (off + length bs) buf"

text \<open>\<open>mem_read off n buf\<close> is the source of \<open>memcpy(dst, &buf[off], n)\<close>.\<close>

definition mem_read :: "nat \<Rightarrow> nat \<Rightarrow> 'a list \<Rightarrow> 'a list" where
  "mem_read off n buf = take n (drop off buf)"

lemma length_mem_write [simp]:
  "off + length bs \<le> length buf \<Longrightarrow> length (mem_write buf off bs) = length buf"
  by (simp add: mem_write_def)

lemma length_mem_read [simp]:
  "off + n \<le> length buf \<Longrightarrow> length (mem_read off n buf) = n"
  by (simp add: mem_read_def)

lemma mem_write_Nil [simp]: "mem_write buf off [] = buf"
  by (simp add: mem_write_def)

lemma mem_read_0 [simp]: "mem_read off 0 buf = []"
  by (simp add: mem_read_def)

lemma mem_read_write [simp]:
  "off + length bs \<le> length buf \<Longrightarrow> mem_read off (length bs) (mem_write buf off bs) = bs"
  by (simp add: mem_read_def mem_write_def)

lemma take_mem_write [simp]:
  "n \<le> off \<Longrightarrow> off \<le> length buf \<Longrightarrow> take n (mem_write buf off bs) = take n buf"
  by (simp add: mem_write_def min_def)

lemma take_mem_write_end:
  "off + length bs \<le> length buf \<Longrightarrow>
   take (off + length bs) (mem_write buf off bs) = take off buf @ bs"
  by (simp add: mem_write_def)

lemma drop_mem_write [simp]:
  "off + length bs \<le> n \<Longrightarrow> off + length bs \<le> length buf \<Longrightarrow>
   drop n (mem_write buf off bs) = drop n buf"
  by (simp add: mem_write_def)

lemma nth_mem_write:
  "off + length bs \<le> length buf \<Longrightarrow> i < length buf \<Longrightarrow>
   mem_write buf off bs ! i =
     (if i < off then buf ! i else if i < off + length bs then bs ! (i - off) else buf ! i)"
  by (auto simp: mem_write_def nth_append min_def)

lemma list_split4:
  assumes "a + b + c \<le> length xs"
  obtains ps qs rs ts where "xs = ps @ qs @ rs @ ts" "length ps = a" "length qs = b" "length rs = c"
proof (rule that)
  show "xs = take a xs @ take b (drop a xs) @ take c (drop (a + b) xs) @ drop (a + b + c) xs"
    by (metis append_take_drop_id drop_drop add.commute)
qed (use assms in simp_all)

lemma mem_read_at: "length pre = off \<Longrightarrow> length x = n \<Longrightarrow> mem_read off n (pre @ x @ post) = x"
  by (simp add: mem_read_def)

lemma mem_write_at:
  "length pre = off \<Longrightarrow> length new = length old \<Longrightarrow>
   mem_write (pre @ old @ post) off new = pre @ new @ post"
  by (simp add: mem_write_def)

lemma mem_write_inside:
  "mem_write (P @ X) (length P + k) Y = P @ take k X @ Y @ drop (k + length Y) X"
  by (simp add: mem_write_def add.assoc)

lemma memmove_if:
  "(if 0 < n then mem_write buf dst (mem_read src n buf) else buf) =
   mem_write buf dst (mem_read src n buf)"
  by (simp add: mem_read_def)

section \<open>Association lists\<close>

lemma map_of_split: "k \<notin> fst ` set xs \<Longrightarrow> map_of (xs @ (k, v) # ys) k = Some v"
  by (induction xs) auto

lemma alist_update_split:
  "k \<notin> fst ` set xs \<Longrightarrow> AList.update k w (xs @ (k, v) # ys) = xs @ (k, w) # ys"
  by (induction xs) auto

lemma alist_delete_absent: "k \<notin> fst ` set ys \<Longrightarrow> AList.delete k ys = ys"
  by (induction ys) auto

lemma alist_delete_split:
  "k \<notin> fst ` set xs \<Longrightarrow> k \<notin> fst ` set ys \<Longrightarrow> AList.delete k (xs @ (k, v) # ys) = xs @ ys"
  by (induction xs) (auto simp: alist_delete_absent)

section \<open>Byte encodings\<close>

definition le16 :: "u16 \<Rightarrow> bytes" where
  "le16 w = [ucast w, ucast (drop_bit 8 w)]"

definition le32 :: "u32 \<Rightarrow> bytes" where
  "le32 w = [ucast w, ucast (drop_bit 8 w), ucast (drop_bit 16 w), ucast (drop_bit 24 w)]"

definition of_le16 :: "bytes \<Rightarrow> u16" where
  "of_le16 bs = ucast (bs ! 0) OR push_bit 8 (ucast (bs ! 1))"

definition of_le32 :: "bytes \<Rightarrow> u32" where
  "of_le32 bs = ucast (bs ! 0) OR push_bit 8 (ucast (bs ! 1)) OR
     push_bit 16 (ucast (bs ! 2)) OR push_bit 24 (ucast (bs ! 3))"

definition be32 :: "u32 \<Rightarrow> bytes" where
  "be32 w = rev (le32 w)"

definition be16 :: "u16 \<Rightarrow> bytes" where
  "be16 w = rev (le16 w)"

lemma length_le16 [simp]: "length (le16 w) = 2"
  by (simp add: le16_def)

lemma length_le32 [simp]: "length (le32 w) = 4"
  by (simp add: le32_def)

lemma length_be32 [simp]: "length (be32 w) = 4"
  by (simp add: be32_def)

lemma of_le16_le16 [simp]: "of_le16 (le16 w) = w"
  by (rule bit_word_eqI)
    (auto simp: of_le16_def le16_def bit_or_iff bit_push_bit_iff bit_drop_bit_eq
       bit_ucast_iff dest: bit_imp_le_length)

lemma of_le32_le32 [simp]: "of_le32 (le32 w) = w"
proof (rule bit_word_eqI)
  fix n assume n: "n < LENGTH(32)"
  consider "n < 8" | "8 \<le> n" "n < 16" | "16 \<le> n" "n < 24" | "24 \<le> n" by linarith
  then show "bit (of_le32 (le32 w)) n = bit w n"
    using n
    by cases (auto simp: of_le32_def le32_def bit_or_iff bit_push_bit_iff bit_drop_bit_eq
        bit_ucast_iff)
qed

lemma of_le16_append [simp]: "2 \<le> length xs \<Longrightarrow> of_le16 (xs @ ys) = of_le16 xs"
  by (cases xs) (auto simp: of_le16_def nth_append)

lemma of_le32_append [simp]: "4 \<le> length xs \<Longrightarrow> of_le32 (xs @ ys) = of_le32 xs"
  by (cases xs) (auto simp: of_le32_def nth_append)

section \<open>Hardened booleans\<close>

text \<open>
  \<open>secure_bool_t\<close> is a 32-bit enumeration whose two values are far apart in Hamming
  distance; a variable can hold neither (a structure cleared by \<open>memset\<close> holds 0), so it
  is modelled by its machine word and compared against the constants.
\<close>

type_synonym secure_bool_t = u32

definition SECURE_FALSE :: secure_bool_t where
  "SECURE_FALSE = 0xacefaecf"

definition SECURE_TRUE :: secure_bool_t where
  "SECURE_TRUE = 0xca38c3e8"

lemma SECURE_TRUE_neq_FALSE [simp]:
  "SECURE_TRUE \<noteq> SECURE_FALSE" "SECURE_FALSE \<noteq> SECURE_TRUE"
  "SECURE_TRUE \<noteq> 0" "SECURE_FALSE \<noteq> 0" "0 \<noteq> SECURE_TRUE" "0 \<noteq> SECURE_FALSE"
  by (simp_all add: SECURE_TRUE_def SECURE_FALSE_def)

section \<open>Facts on words\<close>

lemma unat_plus_no_wrap:
  "unat a + unat b < 2 ^ LENGTH('a::len) \<Longrightarrow> unat ((a :: 'a word) + b) = unat a + unat b"
  by (simp add: unat_word_ariths)

lemma unat_u8_less: "unat (w :: u8) < 256"
  by (rule order_less_le_trans [OF unsigned_less]) simp

lemma unat_u16_less: "unat (w :: u16) < 65536"
  by (rule order_less_le_trans [OF unsigned_less]) simp

lemma unat_u32_less: "unat (w :: u32) < 4294967296"
  by (rule order_less_le_trans [OF unsigned_less]) simp

lemma unat_Suc_no_wrap:
  "unat a < unat (b :: u32) \<Longrightarrow> unat ((a :: u32) + 1) = Suc (unat a)"
  using unat_u32_less [of b] by (simp add: unat_word_ariths)

lemma unat_ucast_u16_u32 [simp]: "unat (ucast (w :: u16) :: u32) = unat w"
  by (simp add: unsigned_ucast_eq unsigned_take_bit_eq take_bit_nat_def
      order_less_trans [OF unat_u16_less])

lemma unat_ucast_u8_u16 [simp]: "unat (ucast (w :: u8) :: u16) = unat w"
  by (simp add: unsigned_ucast_eq unsigned_take_bit_eq take_bit_nat_def
      order_less_trans [OF unat_u8_less])

lemma unat_ucast_u32_u16: "unat (ucast (w :: u32) :: u16) = unat w mod 65536"
  by (simp add: unsigned_ucast_eq unsigned_take_bit_eq take_bit_nat_def)

lemma unat_of_nat_len:
  "n < 2 ^ LENGTH('a::len) \<Longrightarrow> unat (word_of_nat n :: 'a word) = n"
  by (simp add: unat_of_nat)

lemma unat_minus_le: "b \<le> a \<Longrightarrow> unat ((a :: 'a::len word) - b) = unat a - unat b"
  by (rule unat_sub)

end
