(* ===== verification/Fifo_Interface.thy ===== *)
theory Fifo_Interface
  imports Prelude
begin

text \<open>
  The contract between a byte queue and its clients: bytes leave in the order they
  entered, as long as no more than the capacity is ever held.  The ring buffer provides
  it; the event log is a client that stores fixed-size records.
\<close>

locale byte_fifo =
  fixes push :: "'q \<Rightarrow> bytes \<Rightarrow> 'q"
    and pop :: "'q \<Rightarrow> nat \<Rightarrow> bytes \<times> 'q"
    and queue :: "'q \<Rightarrow> bytes"
    and capacity :: "'q \<Rightarrow> nat"
    and wf :: "'q \<Rightarrow> bool"
  assumes push_queue:
      "wf q \<Longrightarrow> length (queue q) + length bs \<le> capacity q \<Longrightarrow> queue (push q bs) = queue q @ bs"
    and push_wf: "wf q \<Longrightarrow> length (queue q) + length bs \<le> capacity q \<Longrightarrow> wf (push q bs)"
    and push_capacity:
      "wf q \<Longrightarrow> length (queue q) + length bs \<le> capacity q \<Longrightarrow> capacity (push q bs) = capacity q"
    and pop_out: "wf q \<Longrightarrow> n \<le> length (queue q) \<Longrightarrow> fst (pop q n) = take n (queue q)"
    and pop_queue: "wf q \<Longrightarrow> n \<le> length (queue q) \<Longrightarrow> queue (snd (pop q n)) = drop n (queue q)"
    and pop_wf: "wf q \<Longrightarrow> n \<le> length (queue q) \<Longrightarrow> wf (snd (pop q n))"
    and pop_capacity:
      "wf q \<Longrightarrow> n \<le> length (queue q) \<Longrightarrow> capacity (snd (pop q n)) = capacity q"
begin

text \<open>A run of pushes appends the records in order.\<close>

lemma foldl_push:
  assumes "wf q" "length (queue q) + length (concat bss) \<le> capacity q"
  shows "queue (foldl push q bss) = queue q @ concat bss \<and> wf (foldl push q bss) \<and>
    capacity (foldl push q bss) = capacity q"
  using assms
proof (induction bss arbitrary: q)
  case (Cons bs bss)
  then have "wf (push q bs)" "queue (push q bs) = queue q @ bs" "capacity (push q bs) = capacity q"
    by (simp_all add: push_queue push_wf push_capacity)
  with Cons show ?case by simp
qed simp

lemma pop_after_push:
  assumes "wf q" "queue q = []" "length bs \<le> capacity q"
  shows "fst (pop (push q bs) (length bs)) = bs"
  using assms by (simp add: pop_out push_queue push_wf)

end

end
