(* ===== verification/Ringbuf.thy ===== *)
theory Ringbuf
  imports Fifo_Interface
begin

text \<open>
  The byte ring buffer of \<open>lib/ringbuf\<close>, with the 32-bit indices of \<open>ringbuf_t\<close> and the
  16-bit truncation of the next head.  The lock and unlock callbacks of the API only
  delimit the critical section of one operation; every operation below is one such
  section.  The \<open>full\<close> flag is maintained by the buffer-wise operations and read by
  \<open>ringbuf_empty\<close>, \<open>ringbuf_size\<close> and \<open>ringbuf_tail_ptr\<close>.
\<close>

section \<open>State and operations\<close>

record ringbuf_t =
  rb_buf :: bytes
  rb_max_size :: u32
  rb_head :: u32
  rb_tail :: u32
  rb_full :: bool

definition ringbuf_init :: "bytes \<Rightarrow> u32 \<Rightarrow> ringbuf_t" where
  "ringbuf_init buf sz =
     \<lparr>rb_buf = buf, rb_max_size = sz, rb_head = 0, rb_tail = 0, rb_full = False\<rparr>"

definition next_head :: "ringbuf_t \<Rightarrow> u32" where
  "next_head b = ucast (ucast ((rb_head b + 1) mod rb_max_size b) :: u16)"

definition ringbuf_push :: "ringbuf_t \<Rightarrow> u8 \<Rightarrow> bool \<times> ringbuf_t" where
  "ringbuf_push b value =
     (if next_head b \<noteq> rb_tail b
      then (True, b\<lparr>rb_buf := (rb_buf b)[unat (rb_head b) := value], rb_head := next_head b\<rparr>)
      else (False, b))"

definition ringbuf_push1 :: "ringbuf_t \<Rightarrow> u8 \<Rightarrow> ringbuf_t" where
  "ringbuf_push1 b value =
     b\<lparr>rb_buf := (rb_buf b)[unat (rb_head b) := value], rb_head := next_head b,
       rb_full := (next_head b = rb_tail b)\<rparr>"

definition ringbuf_size_raw :: "ringbuf_t \<Rightarrow> u32" where
  "ringbuf_size_raw b = (rb_head b - rb_tail b + rb_max_size b) mod rb_max_size b"

definition ringbuf_free :: "ringbuf_t \<Rightarrow> u32" where
  "ringbuf_free b = rb_max_size b - ringbuf_size_raw b"

text \<open>The loop of \<open>ringbuf_push_buf\<close>; \<open>ret\<close> is the index of the last byte written.\<close>

fun push_buf_loop :: "ringbuf_t \<Rightarrow> bytes \<Rightarrow> u32 \<Rightarrow> u32 \<Rightarrow> u32 \<times> ringbuf_t" where
  "push_buf_loop b [] i ret = (ret, b)"
| "push_buf_loop b (x # xs) i ret = push_buf_loop (ringbuf_push1 b x) xs (i + 1) i"

definition ringbuf_push_buf :: "ringbuf_t \<Rightarrow> bytes \<Rightarrow> u32 \<times> ringbuf_t" where
  "ringbuf_push_buf b buf =
     (if ringbuf_free b < word_of_nat (length buf) then (0, b) else push_buf_loop b buf 0 0)"

definition ringbuf_pop1 :: "ringbuf_t \<Rightarrow> u8 \<times> ringbuf_t" where
  "ringbuf_pop1 b =
     (rb_buf b ! unat (rb_tail b),
      b\<lparr>rb_tail := (rb_tail b + 1) mod rb_max_size b, rb_full := False\<rparr>)"

definition ringbuf_pop :: "ringbuf_t \<Rightarrow> u8 option \<times> ringbuf_t" where
  "ringbuf_pop b =
     (if rb_head b = rb_tail b then (None, b)
      else (Some (rb_buf b ! unat (rb_tail b)),
            b\<lparr>rb_tail := (rb_tail b + 1) mod rb_max_size b\<rparr>))"

fun pop_buf_loop :: "ringbuf_t \<Rightarrow> nat \<Rightarrow> u32 \<Rightarrow> u32 \<Rightarrow> bytes \<Rightarrow> u32 \<times> bytes \<times> ringbuf_t" where
  "pop_buf_loop b 0 i ret out = (ret, out, b)"
| "pop_buf_loop b (Suc n) i ret out =
     (case ringbuf_pop1 b of (v, b') \<Rightarrow> pop_buf_loop b' n (i + 1) i (out @ [v]))"

definition ringbuf_pop_buf :: "ringbuf_t \<Rightarrow> u32 \<Rightarrow> u32 \<times> bytes \<times> ringbuf_t" where
  "ringbuf_pop_buf b len = pop_buf_loop b (unat len) 0 0 []"

definition ringbuf_advance :: "ringbuf_t \<Rightarrow> u32 \<Rightarrow> ringbuf_t" where
  "ringbuf_advance b n = b\<lparr>rb_tail := (rb_tail b + n) mod rb_max_size b\<rparr>"

definition ringbuf_peek :: "ringbuf_t \<Rightarrow> u32 \<Rightarrow> u8 option" where
  "ringbuf_peek b idx =
     (if ringbuf_size_raw b \<le> idx then None
      else Some (rb_buf b ! unat ((rb_tail b + idx) mod rb_max_size b)))"

fun copy_loop :: "ringbuf_t \<Rightarrow> u32 \<Rightarrow> nat \<Rightarrow> bytes" where
  "copy_loop b ptr 0 = []"
| "copy_loop b ptr (Suc n) =
     rb_buf b ! unat ptr # copy_loop b ((ptr + 1) mod rb_max_size b) n"

text \<open>
  \<open>int diff = (int32_t)head - (int32_t)len\<close> is a signed subtraction; \<open>None\<close> is the case in
  which the output buffer is left untouched.  The function returns true on every path.
\<close>

definition ringbuf_copy_most_recent :: "ringbuf_t \<Rightarrow> u32 \<Rightarrow> bool \<times> bytes option" where
  "ringbuf_copy_most_recent b len =
     (if rb_max_size b < len then (True, None)
      else
        let diff = sint (rb_head b) - sint len;
            ptr = (if diff < 0 then rb_max_size b - len else word_of_int diff)
        in (True, Some (copy_loop b ptr (unat len))))"

definition ringbuf_clear :: "ringbuf_t \<Rightarrow> ringbuf_t" where
  "ringbuf_clear b = b\<lparr>rb_tail := rb_head b, rb_full := False\<rparr>"

definition ringbuf_size_contiguous :: "ringbuf_t \<Rightarrow> u32" where
  "ringbuf_size_contiguous b =
     (if rb_tail b < rb_head b then rb_head b - rb_tail b else rb_max_size b - rb_tail b)"

definition ringbuf_empty :: "ringbuf_t \<Rightarrow> bool" where
  "ringbuf_empty b = (\<not> rb_full b \<and> rb_head b = rb_tail b)"

text \<open>The pointer returned is the index of the tail byte in the storage, if any.\<close>

definition ringbuf_tail_ptr :: "ringbuf_t \<Rightarrow> u32 option" where
  "ringbuf_tail_ptr b =
     (if rb_head b \<noteq> rb_tail b \<or> rb_full b then Some (rb_tail b) else None)"

definition ringbuf_size :: "ringbuf_t \<Rightarrow> u32" where
  "ringbuf_size b = (if rb_full b then rb_max_size b else ringbuf_size_raw b)"

section \<open>Invariant and abstraction\<close>

definition rb_wf :: "ringbuf_t \<Rightarrow> bool" where
  "rb_wf b \<longleftrightarrow>
     length (rb_buf b) = unat (rb_max_size b) \<and> 0 < rb_max_size b \<and> rb_max_size b \<le> 65536 \<and>
     rb_head b < rb_max_size b \<and> rb_tail b < rb_max_size b \<and>
     (rb_full b \<longrightarrow> rb_head b = rb_tail b)"

text \<open>The queue held by the buffer, oldest byte first.\<close>

definition rb_len :: "ringbuf_t \<Rightarrow> nat" where
  "rb_len b =
     (if rb_full b then unat (rb_max_size b)
      else if rb_tail b \<le> rb_head b then unat (rb_head b) - unat (rb_tail b)
      else unat (rb_head b) + unat (rb_max_size b) - unat (rb_tail b))"

definition contents :: "ringbuf_t \<Rightarrow> bytes" where
  "contents b =
     map (\<lambda>i. rb_buf b ! ((unat (rb_tail b) + i) mod unat (rb_max_size b))) [0..<rb_len b]"

lemma length_contents [simp]: "length (contents b) = rb_len b"
  by (simp add: contents_def)

lemma contents_Nil_iff: "contents b = [] \<longleftrightarrow> rb_len b = 0"
  by (simp add: contents_def)

lemma rb_wf_nat:
  "rb_wf b \<longleftrightarrow>
     length (rb_buf b) = unat (rb_max_size b) \<and> 0 < unat (rb_max_size b) \<and>
     unat (rb_max_size b) \<le> 65536 \<and> unat (rb_head b) < unat (rb_max_size b) \<and>
     unat (rb_tail b) < unat (rb_max_size b) \<and> (rb_full b \<longrightarrow> rb_head b = rb_tail b)"
  by (auto simp: rb_wf_def word_less_nat_alt word_le_nat_alt)

lemma rb_len_le: "rb_wf b \<Longrightarrow> rb_len b \<le> unat (rb_max_size b)"
  by (auto simp: rb_wf_nat rb_len_def word_le_nat_alt)

lemma rb_len_less: "rb_wf b \<Longrightarrow> \<not> rb_full b \<Longrightarrow> rb_len b < unat (rb_max_size b)"
  by (auto simp: rb_wf_nat rb_len_def word_le_nat_alt)

lemma unat_next_head:
  assumes "rb_wf b"
  shows "unat (next_head b) = Suc (unat (rb_head b)) mod unat (rb_max_size b)"
proof -
  have s: "unat (rb_head b + 1) = Suc (unat (rb_head b))"
    using assms by (intro unat_Suc_no_wrap [of _ "rb_max_size b"]) (simp add: rb_wf_nat)
  have "Suc (unat (rb_head b)) mod unat (rb_max_size b) < unat (rb_max_size b)"
    using assms by (simp add: rb_wf_nat)
  also have "\<dots> \<le> 65536" using assms by (simp add: rb_wf_nat)
  finally show ?thesis
    by (simp add: next_head_def unat_ucast_u32_u16 unat_mod s)
qed

lemma unat_tail_step:
  assumes "rb_wf b"
  shows "unat ((rb_tail b + 1) mod rb_max_size b) =
    Suc (unat (rb_tail b)) mod unat (rb_max_size b)"
  using assms unat_Suc_no_wrap [of "rb_tail b" "rb_max_size b"]
  by (simp add: unat_mod rb_wf_nat)

section \<open>The buffer-wise operations refine a byte queue\<close>

lemma unat_size_raw:
  assumes "rb_wf b"
  shows "unat (ringbuf_size_raw b) = (if rb_full b then 0 else rb_len b)"
proof (cases "rb_tail b \<le> rb_head b")
  case True
  then have d: "unat (rb_head b - rb_tail b) = unat (rb_head b) - unat (rb_tail b)"
    by (rule unat_minus_le)
  have "unat (rb_head b - rb_tail b + rb_max_size b) =
      unat (rb_head b) - unat (rb_tail b) + unat (rb_max_size b)"
    using assms by (subst unat_plus_no_wrap) (auto simp: d rb_wf_nat)
  with assms True show ?thesis
    by (auto simp: ringbuf_size_raw_def unat_mod rb_len_def rb_wf_nat)
next
  case False
  have eq: "rb_head b - rb_tail b + rb_max_size b = rb_head b + (rb_max_size b - rb_tail b)"
    by simp
  have "unat (rb_head b + (rb_max_size b - rb_tail b)) =
      unat (rb_head b) + (unat (rb_max_size b) - unat (rb_tail b))"
    using assms
    by (subst unat_plus_no_wrap) (auto simp: unat_minus_le rb_wf_nat word_le_nat_alt)
  with assms False show ?thesis
    by (auto simp: ringbuf_size_raw_def eq unat_mod rb_len_def rb_wf_nat word_le_nat_alt)
qed

lemma ringbuf_size_len: "rb_wf b \<Longrightarrow> unat (ringbuf_size b) = rb_len b"
  by (simp add: ringbuf_size_def unat_size_raw rb_len_def)

lemma ringbuf_empty_iff: "rb_wf b \<Longrightarrow> ringbuf_empty b \<longleftrightarrow> contents b = []"
  by (auto simp: ringbuf_empty_def contents_def rb_len_def rb_wf_nat word_le_nat_alt
      word_unat_eq_iff)

lemma unat_ringbuf_free:
  "rb_wf b \<Longrightarrow>
   unat (ringbuf_free b) = (if rb_full b then unat (rb_max_size b) else unat (rb_max_size b) - rb_len b)"
  using rb_len_le [of b]
  by (auto simp: ringbuf_free_def unat_minus_le unat_size_raw word_le_nat_alt)

text \<open>Position of the head, from the tail and the number of bytes held.\<close>

lemma head_pos:
  assumes "rb_wf b"
  shows "unat (rb_head b) = (unat (rb_tail b) + rb_len b) mod unat (rb_max_size b)"
  using assms
  by (auto simp: rb_wf_nat rb_len_def word_le_nat_alt mod_if)

lemma mod_inj_window:
  assumes "(t + i) mod n = (t + j) mod n" "i < n" "j < n"
  shows "i = (j :: nat)"
proof -
  have "\<And>i j. i \<le> j \<Longrightarrow> j < n \<Longrightarrow> (t + i) mod n = (t + j) mod n \<Longrightarrow> i = j"
  proof -
    fix i j :: nat
    assume "i \<le> j" "j < n" "(t + i) mod n = (t + j) mod n"
    then have "n dvd j - i"
      using mod_eq_dvd_iff_nat [of "t + i" "t + j" n] by simp
    with \<open>j < n\<close> \<open>i \<le> j\<close> show "i = j" by (auto dest: dvd_imp_le)
  qed
  with assms show ?thesis by (metis nat_le_linear)
qed

lemma push1_wf: "rb_wf b \<Longrightarrow> rb_wf (ringbuf_push1 b x)"
  by (auto simp: rb_wf_nat ringbuf_push1_def unat_next_head)

lemma push1_len:
  assumes "rb_wf b"
  shows "rb_len (ringbuf_push1 b x) = (if rb_full b then 1 else Suc (rb_len b))"
  using assms
  by (auto simp: rb_wf_nat ringbuf_push1_def unat_next_head rb_len_def word_le_nat_alt
      word_unat_eq_iff mod_if split: if_splits)

lemma contents_push1:
  assumes wf: "rb_wf b"
  shows "contents (ringbuf_push1 b x) = (if rb_full b then [] else contents b) @ [x]"
proof (rule nth_equalityI)
  show "length (contents (ringbuf_push1 b x)) = length ((if rb_full b then [] else contents b) @ [x])"
    using wf by (simp add: push1_len)
next
  fix i assume "i < length (contents (ringbuf_push1 b x))"
  then have i: "i < (if rb_full b then 1 else Suc (rb_len b))"
    using wf by (simp add: push1_len)
  let ?M = "unat (rb_max_size b)" and ?t = "unat (rb_tail b)"
  have "contents (ringbuf_push1 b x) ! i = (rb_buf b)[unat (rb_head b) := x] ! ((?t + i) mod ?M)"
    using i wf by (simp add: contents_def push1_len) (simp add: ringbuf_push1_def)
  also have "\<dots> = ((if rb_full b then [] else contents b) @ [x]) ! i"
  proof (cases "rb_full b")
    case True
    with i wf show ?thesis by (simp add: rb_wf_nat)
  next
    case False
    have lt: "rb_len b < ?M" using rb_len_less [OF wf False] .
    show ?thesis
    proof (cases "i = rb_len b")
      case True
      with False wf show ?thesis
        using head_pos [OF wf] by (simp add: rb_wf_nat nth_append)
    next
      case neq: False
      with i False have "i < rb_len b" by simp
      then have "(?t + i) mod ?M \<noteq> unat (rb_head b)"
        using head_pos [OF wf] mod_inj_window [of ?t i ?M "rb_len b"] lt by auto
      with \<open>i < rb_len b\<close> False wf show ?thesis
        by (simp add: nth_append contents_def)
    qed
  qed
  finally show "contents (ringbuf_push1 b x) ! i = ((if rb_full b then [] else contents b) @ [x]) ! i" .
qed

lemma push1_full_iff:
  assumes "rb_wf b"
  shows "rb_full (ringbuf_push1 b x) \<longleftrightarrow> rb_len (ringbuf_push1 b x) = unat (rb_max_size b)"
  using rb_len_less [OF push1_wf [OF assms], of x]
  by (auto simp: rb_len_def ringbuf_push1_def)

lemma push1_max_size [simp]: "rb_max_size (ringbuf_push1 b x) = rb_max_size b"
  by (simp add: ringbuf_push1_def)

lemma push_buf_loop_spec:
  assumes "rb_wf b" "\<not> rb_full b" "rb_len b + length xs \<le> unat (rb_max_size b)"
    and "push_buf_loop b xs i ret = (r, b')"
  shows "contents b' = contents b @ xs \<and> rb_wf b' \<and> rb_max_size b' = rb_max_size b \<and>
    r = (if xs = [] then ret else i + word_of_nat (length xs - 1))"
  using assms
proof (induction b xs i ret rule: push_buf_loop.induct)
  case (2 b x xs i ret)
  let ?b = "ringbuf_push1 b x"
  have wf: "rb_wf ?b" and cont: "contents ?b = contents b @ [x]"
    and len: "rb_len ?b = Suc (rb_len b)"
    using "2.prems" by (simp_all add: push1_wf contents_push1 push1_len)
  have loop: "push_buf_loop ?b xs (i + 1) i = (r, b')" using "2.prems" by simp
  show ?case
  proof (cases "xs = []")
    case True
    with loop wf cont show ?thesis by auto
  next
    case False
    then have "\<not> rb_full ?b"
      using push1_full_iff [of b x] "2.prems" len by (cases xs) auto
    with "2.IH" wf len loop "2.prems" cont False show ?thesis
      by (cases xs) (auto simp: add.assoc)
  qed
qed auto

lemma push_buf_loop_full:
  assumes "rb_wf b" "rb_full b" "xs \<noteq> []" "length xs \<le> unat (rb_max_size b)"
    and "push_buf_loop b xs i ret = (r, b')"
  shows "contents b' = xs" "rb_wf b'" "rb_max_size b' = rb_max_size b"
proof -
  obtain y ys where xs: "xs = y # ys" using assms(3) by (cases xs) auto
  have wf: "rb_wf (ringbuf_push1 b y)" using assms by (simp add: push1_wf)
  have len: "rb_len (ringbuf_push1 b y) = 1" using assms by (simp add: push1_len)
  have cont: "contents (ringbuf_push1 b y) = [y]" using assms by (simp add: contents_push1)
  have loop: "push_buf_loop (ringbuf_push1 b y) ys (i + 1) i = (r, b')"
    using assms(5) xs by simp
  have "contents b' = xs \<and> rb_wf b' \<and> rb_max_size b' = rb_max_size b"
  proof (cases "ys = []")
    case True
    with loop wf cont xs show ?thesis by auto
  next
    case False
    then have "\<not> rb_full (ringbuf_push1 b y)"
      using push1_full_iff [OF assms(1), of y] assms(4) len xs by (cases ys) auto
    from push_buf_loop_spec [OF wf this _ loop] len assms(4) xs cont show ?thesis by simp
  qed
  then show "contents b' = xs" "rb_wf b'" "rb_max_size b' = rb_max_size b" by auto
qed

lemma pop1_spec:
  assumes wf: "rb_wf b" and ne: "0 < rb_len b"
  shows "fst (ringbuf_pop1 b) = hd (contents b)"
    "contents (snd (ringbuf_pop1 b)) = tl (contents b)"
    "rb_wf (snd (ringbuf_pop1 b))" "rb_max_size (snd (ringbuf_pop1 b)) = rb_max_size b"
proof -
  let ?M = "unat (rb_max_size b)" and ?t = "unat (rb_tail b)" and ?b = "snd (ringbuf_pop1 b)"
  have M: "0 < ?M" "?t < ?M" using wf by (auto simp: rb_wf_nat)
  have tail: "unat (rb_tail ?b) = Suc ?t mod ?M"
    using unat_tail_step [OF wf] by (simp add: ringbuf_pop1_def)
  show wf': "rb_wf ?b" and "rb_max_size ?b = rb_max_size b"
    using wf unat_tail_step [OF wf] by (auto simp: ringbuf_pop1_def rb_wf_nat)
  have len: "rb_len ?b = rb_len b - 1"
    using wf ne tail
    by (auto simp: ringbuf_pop1_def rb_wf_nat rb_len_def word_le_nat_alt word_unat_eq_iff mod_if
        split: if_splits)
  show "fst (ringbuf_pop1 b) = hd (contents b)"
    using ne M by (simp add: ringbuf_pop1_def contents_def hd_map upt_rec)
  show "contents ?b = tl (contents b)"
  proof (rule nth_equalityI)
    fix i assume "i < length (contents ?b)"
    then have i: "Suc i < rb_len b" using len by simp
    have "contents ?b ! i = rb_buf b ! ((Suc ?t mod ?M + i) mod ?M)"
      using i len tail by (simp add: contents_def) (simp add: ringbuf_pop1_def)
    also have "(Suc ?t mod ?M + i) mod ?M = (?t + Suc i) mod ?M"
      by (metis add_Suc add_Suc_right mod_add_left_eq)
    finally show "contents ?b ! i = tl (contents b) ! i"
      using i by (simp add: contents_def nth_tl)
  qed (use len in simp)
qed

lemma pop_buf_loop_spec:
  assumes "rb_wf b" "n \<le> rb_len b" "pop_buf_loop b n i ret out = (r, out', b')"
  shows "out' = out @ take n (contents b) \<and> contents b' = drop n (contents b) \<and> rb_wf b' \<and>
    rb_max_size b' = rb_max_size b \<and> r = (if n = 0 then ret else i + word_of_nat (n - 1))"
  using assms
proof (induction n arbitrary: b i ret out)
  case (Suc n)
  obtain v b1 where p: "ringbuf_pop1 b = (v, b1)" by (cases "ringbuf_pop1 b")
  have ne: "0 < rb_len b" using Suc.prems by simp
  note P = pop1_spec [OF Suc.prems(1) ne, unfolded p, simplified]
  have len1: "rb_len b1 = rb_len b - 1" using P(2) by (metis length_contents length_tl)
  have cb: "contents b = v # contents b1"
    using P ne by (metis length_contents length_greater_0_conv list.collapse)
  have loop: "pop_buf_loop b1 n (i + 1) i (out @ [v]) = (r, out', b')"
    using Suc.prems(3) p by simp
  show ?case
    using Suc.IH [OF P(3) _ loop] Suc.prems(2) len1 cb P(4) by (cases n) (auto simp: add.assoc)
qed auto

lemma unat_word_of_nat_length:
  "length xs \<le> unat (n :: u32) \<Longrightarrow> unat (word_of_nat (length xs) :: u32) = length xs"
  using unat_u32_less [of n] by (intro unat_of_nat_len) simp

lemma push_buf_room:
  assumes "rb_wf b" "rb_len b + length xs \<le> unat (rb_max_size b)"
  shows "contents (snd (ringbuf_push_buf b xs)) = contents b @ xs \<and>
    rb_wf (snd (ringbuf_push_buf b xs)) \<and>
    rb_max_size (snd (ringbuf_push_buf b xs)) = rb_max_size b \<and>
    unat (fst (ringbuf_push_buf b xs)) = length xs - 1"
proof -
  have len: "unat (word_of_nat (length xs) :: u32) = length xs"
    using assms by (intro unat_word_of_nat_length [of _ "rb_max_size b"]) simp
  have fits: "\<not> ringbuf_free b < word_of_nat (length xs)"
    using assms by (auto simp: word_less_nat_alt len unat_ringbuf_free)
  obtain r b' where loop: "push_buf_loop b xs 0 0 = (r, b')" by (cases "push_buf_loop b xs 0 0")
  show ?thesis
  proof (cases "rb_full b")
    case True
    with assms have "xs = []" by (simp add: rb_len_def)
    with assms show ?thesis by (simp add: ringbuf_push_buf_def)
  next
    case False
    have "unat (word_of_nat (length xs - 1) :: u32) = length xs - 1"
      using assms unat_u32_less [of "rb_max_size b"] by (intro unat_of_nat_len) simp
    with push_buf_loop_spec [OF assms(1) False _ loop] assms fits loop show ?thesis
      by (auto simp: ringbuf_push_buf_def)
  qed
qed

lemma pop_buf_spec:
  assumes "rb_wf b" "unat n \<le> rb_len b" "ringbuf_pop_buf b n = (r, out, b')"
  shows "out = take (unat n) (contents b)" "contents b' = drop (unat n) (contents b)" "rb_wf b'"
    "rb_max_size b' = rb_max_size b"
  using pop_buf_loop_spec [OF assms(1,2), of 0 0 "[]" r out b'] assms(3)
  by (auto simp: ringbuf_pop_buf_def)

definition pop_bytes :: "ringbuf_t \<Rightarrow> nat \<Rightarrow> bytes \<times> ringbuf_t" where
  "pop_bytes b n = (case ringbuf_pop_buf b (word_of_nat n) of (r, out, b') \<Rightarrow> (out, b'))"

lemma pop_bytes_spec:
  assumes "rb_wf b" "n \<le> rb_len b"
  shows "fst (pop_bytes b n) = take n (contents b) \<and> contents (snd (pop_bytes b n)) = drop n (contents b) \<and>
    rb_wf (snd (pop_bytes b n)) \<and> rb_max_size (snd (pop_bytes b n)) = rb_max_size b"
proof -
  have "n < 2 ^ LENGTH(32)"
    using assms rb_len_le [OF assms(1)] unat_u32_less [of "rb_max_size b"] by simp
  then have "unat (word_of_nat n :: u32) = n" by (rule unat_of_nat_len)
  with pop_buf_spec [OF assms(1), of "word_of_nat n"] assms(2) show ?thesis
    by (cases "ringbuf_pop_buf b (word_of_nat n)") (auto simp: pop_bytes_def)
qed

interpretation rb: byte_fifo "\<lambda>b bs. snd (ringbuf_push_buf b bs)" pop_bytes contents
  "\<lambda>b. unat (rb_max_size b)" rb_wf
  by unfold_locales (auto simp: push_buf_room pop_bytes_spec)

section \<open>Properties\<close>

text \<open>C30: While the bytes fit beside those already held, \<open>ringbuf_push_buf\<close> appends them in
  order to the queue, keeps the buffer well formed, and returns the index of the last byte
  written (one less than the count).  When they do not fit in a buffer that is not flagged
  full, nothing is written and 0 is returned.\<close>

theorem ringbuf_push_buf_queue:
  assumes "rb_wf b" "\<not> rb_full b" "length bs < 2 ^ 32"
    and "ringbuf_push_buf b bs = (ret, b')"
  shows "if rb_len b + length bs \<le> unat (rb_max_size b)
    then contents b' = contents b @ bs \<and> rb_wf b' \<and> unat ret = length bs - 1
    else b' = b \<and> ret = 0"
proof (cases "rb_len b + length bs \<le> unat (rb_max_size b)")
  case True
  with push_buf_room [OF assms(1)] assms(4) show ?thesis by force
next
  case False
  have "unat (word_of_nat (length bs) :: u32) = length bs"
    using assms(3) by (intro unat_of_nat_len) simp
  then have "ringbuf_free b < word_of_nat (length bs)"
    using False assms(1,2) rb_len_le [OF assms(1)]
    by (auto simp: word_less_nat_alt unat_ringbuf_free)
  with assms(4) False show ?thesis by (auto simp: ringbuf_push_buf_def)
qed

theorem ringbuf_push_buf_queue_witness:
  "let b = ringbuf_init (replicate 4 0) 4; b' = snd (ringbuf_push_buf b [7, 8, 9])
   in contents b' = [7, 8, 9] \<and> rb_wf b' \<and> fst (ringbuf_push_buf b [7, 8, 9]) = 2"
proof -
  let ?b = "ringbuf_init (replicate 4 0) 4"
  have wf: "rb_wf ?b" "\<not> rb_full ?b" "rb_len ?b = 0" "contents ?b = []"
    by (simp_all add: ringbuf_init_def rb_wf_def rb_len_def contents_def)
  have m: "unat (rb_max_size ?b) = 4" by (simp add: ringbuf_init_def)
  obtain r b' where p: "ringbuf_push_buf ?b [7, 8, 9] = (r, b')"
    by (cases "ringbuf_push_buf ?b [7, 8, 9]")
  from ringbuf_push_buf_queue [OF wf(1,2) _ p] wf m have "contents b' = [7, 8, 9]" "rb_wf b'" "unat r = 2"
    by simp_all
  moreover from this have "r = 2" by (simp add: word_unat_eq_iff)
  ultimately show ?thesis using p by (simp add: Let_def)
qed

text \<open>C31: \<open>ringbuf_pop_buf\<close> of at most as many bytes as are held returns the oldest bytes in
  order and leaves the rest, also when the buffer is completely full.\<close>

theorem ringbuf_pop_buf_queue:
  assumes "rb_wf b" "unat n \<le> rb_len b" "ringbuf_pop_buf b n = (r, out, b')"
  shows "out = take (unat n) (contents b) \<and> contents b' = drop (unat n) (contents b) \<and> rb_wf b'"
  using pop_buf_spec [OF assms] by simp

theorem ringbuf_pop_buf_queue_witness:
  "let b = \<lparr>rb_buf = [7, 8, 9], rb_max_size = 3, rb_head = 1, rb_tail = 1, rb_full = True\<rparr>;
       (r, out, b') = ringbuf_pop_buf b 2
   in out = [8, 9] \<and> contents b' = [7]"
proof -
  let ?b = "\<lparr>rb_buf = [7, 8, 9], rb_max_size = 3, rb_head = 1, rb_tail = 1, rb_full = True\<rparr>"
  obtain r out b' where p: "ringbuf_pop_buf ?b 2 = (r, out, b')"
    by (cases "ringbuf_pop_buf ?b 2") auto
  have c: "contents ?b = [8, 9, 7]" by (simp add: contents_def rb_len_def upt_rec)
  have "rb_wf ?b" "unat (2 :: u32) \<le> rb_len ?b" by (simp_all add: rb_wf_def rb_len_def)
  from ringbuf_pop_buf_queue [OF this p] c p show ?thesis by (simp add: Let_def)
qed

text \<open>C39: On a full buffer \<open>ringbuf_free\<close> reports the whole capacity as free, so pushing any
  non-empty run of bytes that is no longer than the capacity is accepted and discards
  everything the buffer held: only the new bytes remain.\<close>

theorem ringbuf_push_buf_full_discards:
  assumes "rb_wf b" "rb_full b" "bs \<noteq> []" "length bs \<le> unat (rb_max_size b)"
  shows "contents (snd (ringbuf_push_buf b bs)) = bs \<and> ringbuf_free b = rb_max_size b"
proof -
  have len: "unat (word_of_nat (length bs) :: u32) = length bs"
    using assms(4) by (rule unat_word_of_nat_length)
  have free: "unat (ringbuf_free b) = unat (rb_max_size b)"
    using assms by (simp add: unat_ringbuf_free)
  then have "\<not> ringbuf_free b < word_of_nat (length bs)"
    using assms(4) len by (simp add: word_less_nat_alt)
  moreover obtain r b' where loop: "push_buf_loop b bs 0 0 = (r, b')"
    by (cases "push_buf_loop b bs 0 0")
  ultimately show ?thesis
    using push_buf_loop_full [OF assms loop] free
    by (simp add: ringbuf_push_buf_def word_unat_eq_iff)
qed

theorem ringbuf_push_buf_full_discards_witness:
  "let b = snd (ringbuf_push_buf (ringbuf_init [0, 0, 0] 3) [1, 2, 3])
   in contents b = [1, 2, 3] \<and> contents (snd (ringbuf_push_buf b [4])) = [4]"
proof -
  have eq: "snd (ringbuf_push_buf (ringbuf_init [0, 0, 0] 3) [1, 2, 3]) =
      \<lparr>rb_buf = [1, 2, 3], rb_max_size = 3, rb_head = 0, rb_tail = 0, rb_full = True\<rparr>"
    (is "_ = ?b")
    by (simp add: ringbuf_push_buf_def ringbuf_init_def ringbuf_free_def ringbuf_size_raw_def
        ringbuf_push1_def next_head_def)
  have "rb_wf ?b" "rb_full ?b" "contents ?b = [1, 2, 3]"
    by (simp_all add: rb_wf_def contents_def rb_len_def upt_rec)
  then show ?thesis
    using ringbuf_push_buf_full_discards [of ?b "[4]"] by (simp only: eq Let_def) simp
qed

end
