(* ===== verification/Bitlog.thy ===== *)
theory Bitlog
  imports Ringbuf
begin

text \<open>
  The compact event log of \<open>lib/bitlog\<close>: 11-byte packed records kept in a ring buffer of
  512 records.  The timestamp callback, the program counter and the link register are
  inputs of \<open>_bitlog_record_event\<close>.
\<close>

section \<open>Records\<close>

record bitlog_event_t =
  timestamp_delta :: u16
  ev_event :: u16
  ev_status :: u8
  ev_pc :: u32
  ev_lr :: u32

text \<open>The packed layout: \<open>uint24_t\<close> fields occupy three bytes, little endian.\<close>

definition event_bytes :: "bitlog_event_t \<Rightarrow> bytes" where
  "event_bytes e = le16 (timestamp_delta e) @ le16 (ev_event e) @ [ev_status e] @
     take 3 (le32 (ev_pc e)) @ take 3 (le32 (ev_lr e))"

definition sizeof_bitlog_event :: nat where
  "sizeof_bitlog_event = 11"

definition BITLOG_MAX_EVENTS :: nat where
  "BITLOG_MAX_EVENTS = 512"

definition BITLOG_STORAGE_SIZE :: nat where
  "BITLOG_STORAGE_SIZE = BITLOG_MAX_EVENTS * sizeof_bitlog_event"

record bitlog_priv_t =
  prev_timestamp :: u32
  bl_ringbuf :: ringbuf_t

section \<open>Operations\<close>

definition bitlog_timestamp :: "u32 \<Rightarrow> bitlog_priv_t \<Rightarrow> u32 \<times> bitlog_priv_t" where
  "bitlog_timestamp now p = (now - prev_timestamp p, p\<lparr>prev_timestamp := now\<rparr>)"

definition truncate_24 :: "u32 \<Rightarrow> u32" where
  "truncate_24 reg = reg AND 0x00FFFFFF"

definition bitlog_init :: "bitlog_priv_t" where
  "bitlog_init = \<lparr>prev_timestamp = 0,
     bl_ringbuf = ringbuf_init (replicate BITLOG_STORAGE_SIZE 0) (word_of_nat BITLOG_STORAGE_SIZE)\<rparr>"

definition bitlog_event :: "u32 \<Rightarrow> u16 \<Rightarrow> u8 \<Rightarrow> u32 \<Rightarrow> u32 \<Rightarrow> bitlog_event_t" where
  "bitlog_event delta event status pc lr =
     \<lparr>timestamp_delta = ucast delta, ev_event = event, ev_status = status,
      ev_pc = truncate_24 pc, ev_lr = truncate_24 lr\<rparr>"

definition bitlog_record_event ::
  "u32 \<Rightarrow> u16 \<Rightarrow> u8 \<Rightarrow> u32 \<Rightarrow> u32 \<Rightarrow> bitlog_priv_t \<Rightarrow> bitlog_priv_t" where
  "bitlog_record_event now event status pc lr p =
     (case bitlog_timestamp now p of (delta, p1) \<Rightarrow>
        p1\<lparr>bl_ringbuf := snd (ringbuf_push_buf (bl_ringbuf p1)
          (event_bytes (bitlog_event delta event status pc lr)))\<rparr>)"

text \<open>
  The drain loop runs while the buffer is not empty and the 32-bit offset is below the
  length given; \<open>out\<close> collects the bytes stored at \<open>buffer[0]\<close>, \<open>buffer[1]\<close>, \dots
\<close>

partial_function (option) drain_loop ::
  "ringbuf_t \<Rightarrow> u32 \<Rightarrow> u32 \<Rightarrow> bytes \<Rightarrow> (bytes \<times> u32 \<times> ringbuf_t) option" where
  "drain_loop b buffer_length offset out =
     (if \<not> ringbuf_empty b \<and> offset < buffer_length
      then (case ringbuf_pop_buf b 11 of (r, v, b') \<Rightarrow>
              drain_loop b' buffer_length (offset + 11) (out @ v))
      else Some (out, offset, b))"

text \<open>The result: the remaining size, the bytes stored and the value of \<open>*bytes_written\<close>.\<close>

definition bitlog_drain ::
  "u32 \<Rightarrow> bitlog_priv_t \<Rightarrow> (u32 \<times> bytes \<times> u32 \<times> bitlog_priv_t) option" where
  "bitlog_drain buffer_length p =
     (if buffer_length < word_of_nat sizeof_bitlog_event then None
      else case drain_loop (bl_ringbuf p) buffer_length 0 [] of
        None \<Rightarrow> None
      | Some (out, offset, b) \<Rightarrow> Some (ringbuf_size b, out, offset, p\<lparr>bl_ringbuf := b\<rparr>))"

definition bitlog_most_recent_event :: "bitlog_priv_t \<Rightarrow> bool \<times> bytes option" where
  "bitlog_most_recent_event p = ringbuf_copy_most_recent (bl_ringbuf p) 11"

section \<open>Recording and draining\<close>

lemma length_event_bytes [simp]: "length (event_bytes e) = 11"
  by (simp add: event_bytes_def)

definition bl_wf :: "bitlog_priv_t \<Rightarrow> bool" where
  "bl_wf p \<longleftrightarrow> rb_wf (bl_ringbuf p) \<and> unat (rb_max_size (bl_ringbuf p)) = BITLOG_STORAGE_SIZE"

abbreviation log_bytes :: "bitlog_priv_t \<Rightarrow> bytes" where
  "log_bytes p \<equiv> contents (bl_ringbuf p)"

lemma bl_wf_init: "bl_wf bitlog_init" "log_bytes bitlog_init = []"
  by (simp_all add: bl_wf_def bitlog_init_def rb_wf_def ringbuf_init_def BITLOG_STORAGE_SIZE_def
      BITLOG_MAX_EVENTS_def sizeof_bitlog_event_def contents_def rb_len_def)

lemma record_event_log:
  assumes "bl_wf p" "length (log_bytes p) + 11 \<le> BITLOG_STORAGE_SIZE"
  shows "log_bytes (bitlog_record_event now event status pc lr p) =
      log_bytes p @ event_bytes (bitlog_event (now - prev_timestamp p) event status pc lr)"
    "bl_wf (bitlog_record_event now event status pc lr p)"
  using assms rb.push_queue [of "bl_ringbuf p"] rb.push_wf [of "bl_ringbuf p"]
    rb.push_capacity [of "bl_ringbuf p"]
  by (simp_all add: bl_wf_def bitlog_record_event_def bitlog_timestamp_def)

lemma drain_loop_spec:
  assumes "rb_wf b" "length (contents b) = 11 * n" "unat offset + 11 * k = unat len"
  shows "\<exists>b'. drain_loop b len offset out =
      Some (out @ take (11 * k) (contents b), offset + word_of_nat (11 * min k n), b') \<and>
    rb_wf b' \<and> rb_max_size b' = rb_max_size b \<and> contents b' = drop (11 * k) (contents b)"
  using assms
proof (induction k arbitrary: b n offset out)
  case 0
  then have "offset = len" by (simp add: word_unat_eq_iff)
  with 0 show ?case by (subst drain_loop.simps) simp
next
  case (Suc k)
  show ?case
  proof (cases n)
    case 0
    with Suc.prems have "contents b = []" by (metis length_0_conv mult_0_right)
    with Suc.prems 0 show ?thesis
      by (subst drain_loop.simps) (simp add: ringbuf_empty_iff)
  next
    case (Suc m)
    obtain r v b1 where p: "ringbuf_pop_buf b 11 = (r, v, b1)"
      by (cases "ringbuf_pop_buf b 11") auto
    have 11: "unat (11 :: u32) = 11" by simp
    have le: "unat (11 :: u32) \<le> rb_len b" using Suc Suc.prems(2) by simp
    note P = pop_buf_spec [OF Suc.prems(1) le p, unfolded 11]
    have off: "unat (offset + 11) = unat offset + 11"
      using Suc.prems(3) unat_u32_less [of len] by (subst unat_plus_no_wrap) auto
    have cond: "\<not> ringbuf_empty b" "offset < len"
      using Suc.prems Suc by (auto simp: ringbuf_empty_iff contents_Nil_iff word_less_nat_alt)
    obtain b' where b': "drain_loop b1 len (offset + 11) (out @ v) =
        Some ((out @ v) @ take (11 * k) (contents b1), offset + 11 + word_of_nat (11 * min k m), b')"
      "rb_wf b'" "rb_max_size b' = rb_max_size b1" "contents b' = drop (11 * k) (contents b1)"
      using Suc.IH [of b1 m "offset + 11" "out @ v"] P Suc Suc.prems off by auto
    have "v @ take (11 * k) (contents b1) = take (11 * Suc k) (contents b)"
      using P by (simp add: take_add [symmetric] add.commute) 
    with b' P cond p Suc show ?thesis
      by (subst drain_loop.simps) (auto simp: add.commute add.left_commute)
  qed
qed

lemma concat_records:
  "(\<And>x. x \<in> set xs \<Longrightarrow> length (f x) = w) \<Longrightarrow>
   take (w * k) (concat (map f xs)) = concat (map f (take k xs)) \<and>
   drop (w * k) (concat (map f xs)) = concat (map f (drop k xs))"
proof (induction k arbitrary: xs)
  case (Suc k)
  then show ?case by (cases xs) auto
qed simp

lemma length_log:
  assumes "bl_wf p" "log_bytes p = concat (map event_bytes es)"
  shows "length (log_bytes p) = 11 * length es" "11 * length es \<le> BITLOG_STORAGE_SIZE"
proof -
  show "length (log_bytes p) = 11 * length es"
    using assms(2) by (simp add: length_concat o_def sum_list_triv)
  then show "11 * length es \<le> BITLOG_STORAGE_SIZE"
    using rb_len_le [of "bl_ringbuf p"] assms(1) by (simp add: bl_wf_def)
qed

section \<open>Properties\<close>

text \<open>C29: Draining a log that holds the events \<open>es\<close> into a buffer for exactly \<open>k\<close> records
  terminates, stores the \<open>k\<close> oldest events byte for byte and in order (all of them when
  fewer are held), never more bytes than the buffer has, reports the number of bytes
  stored and the number left, and leaves exactly the later events in the log.\<close>

theorem bitlog_drain_fifo:
  assumes "bl_wf p" "log_bytes p = concat (map event_bytes es)" "unat len = 11 * k" "0 < k"
  shows "\<exists>p'. bitlog_drain len p =
      Some (word_of_nat (11 * (length es - k)), concat (map event_bytes (take k es)),
            word_of_nat (11 * min k (length es)), p') \<and>
    bl_wf p' \<and> log_bytes p' = concat (map event_bytes (drop k es))"
proof -
  note L = length_log [OF assms(1,2)]
  have wf: "rb_wf (bl_ringbuf p)" using assms(1) by (simp add: bl_wf_def)
  have split: "take (11 * k) (log_bytes p) = concat (map event_bytes (take k es))"
    "drop (11 * k) (log_bytes p) = concat (map event_bytes (drop k es))"
    using concat_records [of es event_bytes 11 k] assms(2) by auto
  obtain b' where b': "drain_loop (bl_ringbuf p) len 0 [] =
      Some (take (11 * k) (log_bytes p), word_of_nat (11 * min k (length es)), b')"
    "rb_wf b'" "rb_max_size b' = rb_max_size (bl_ringbuf p)" "contents b' = drop (11 * k) (log_bytes p)"
    using drain_loop_spec [OF wf L(1), of 0 k len "[]"] assms(3) by auto
  have enough: "\<not> len < word_of_nat sizeof_bitlog_event"
    using assms(3,4) by (simp add: word_less_nat_alt sizeof_bitlog_event_def)
  have "unat (ringbuf_size b') = length (contents b')"
    using ringbuf_size_len [OF b'(2)] by simp
  also have "\<dots> = 11 * (length es - k)" using b'(4) L(1) by (simp add: diff_mult_distrib2)
  finally have "ringbuf_size b' = word_of_nat (11 * (length es - k))"
    by (metis of_nat_unat ucast_id)
  with b' enough split assms(1) show ?thesis
    by (auto simp: bitlog_drain_def bl_wf_def)
qed

theorem bitlog_drain_fifo_witness:
  "let p = bitlog_record_event 9 2 3 4 5 (bitlog_record_event 7 1 3 4 5 bitlog_init)
   in \<exists>p'. bitlog_drain 11 p = Some (11, event_bytes (bitlog_event 7 1 3 4 5), 11, p') \<and>
        log_bytes p' = event_bytes (bitlog_event 2 2 3 4 5)"
proof -
  let ?p1 = "bitlog_record_event 7 1 3 4 5 bitlog_init"
  let ?p = "bitlog_record_event 9 2 3 4 5 ?p1"
  have c: "11 \<le> BITLOG_STORAGE_SIZE" "22 \<le> BITLOG_STORAGE_SIZE"
    by (simp_all add: BITLOG_STORAGE_SIZE_def BITLOG_MAX_EVENTS_def sizeof_bitlog_event_def)
  have i: "prev_timestamp bitlog_init = 0" "prev_timestamp ?p1 = 7"
    by (simp_all add: bitlog_init_def bitlog_record_event_def bitlog_timestamp_def)
  have e1: "log_bytes ?p1 = event_bytes (bitlog_event 7 1 3 4 5)" "bl_wf ?p1"
    using record_event_log [of bitlog_init 7 1 3 4 5] bl_wf_init c i by simp_all
  have e2: "log_bytes ?p = event_bytes (bitlog_event 7 1 3 4 5) @ event_bytes (bitlog_event 2 2 3 4 5)"
    "bl_wf ?p"
    using record_event_log [OF e1(2), of 9 2 3 4 5] e1 c i by (simp_all del: length_contents)
  have "log_bytes ?p = concat (map event_bytes [bitlog_event 7 1 3 4 5, bitlog_event 2 2 3 4 5])"
    using e2 by simp
  from bitlog_drain_fifo [OF e2(2) this, of 11 1] show ?thesis by (auto simp: Let_def)
qed

end
