(* ===== verification/Store_Interface.thy ===== *)
theory Store_Interface
  imports Main
begin

text \<open>
  The contract of a keyed store: three operations that either take effect on one key or
  report failure and change nothing.  A client that issues any sequence of operations sees a
  finite map.  Interpreted by the TLV buffer.
\<close>

datatype ('k, 'v) store_op = Add 'k 'v | Upd 'k 'v | Del 'k

text \<open>The specification: the effect of an operation on the map, given whether it succeeded.\<close>

fun store_spec :: "('k \<Rightarrow> 'v option) \<Rightarrow> bool \<times> ('k, 'v) store_op \<Rightarrow> ('k \<Rightarrow> 'v option)" where
  "store_spec m (ok, Add k v) = (if ok then m(k \<mapsto> v) else m)"
| "store_spec m (ok, Upd k v) = (if ok then m(k \<mapsto> v) else m)"
| "store_spec m (ok, Del k) = (if ok then m(k := None) else m)"

text \<open>An operation may succeed only in these states of the map.\<close>

fun store_pre :: "('k \<Rightarrow> 'v option) \<Rightarrow> ('k, 'v) store_op \<Rightarrow> bool" where
  "store_pre m (Add k v) = (m k = None)"
| "store_pre m (Upd k v) = (m k \<noteq> None)"
| "store_pre m (Del k) = (m k \<noteq> None)"

fun op_key :: "('k, 'v) store_op \<Rightarrow> 'k" where
  "op_key (Add k v) = k"
| "op_key (Upd k v) = k"
| "op_key (Del k) = k"

text \<open>Run a sequence of operations, collecting the reported outcomes.\<close>

fun store_run :: "('s \<Rightarrow> 'o \<Rightarrow> bool \<times> 's) \<Rightarrow> 's \<Rightarrow> 'o list \<Rightarrow> bool list \<times> 's" where
  "store_run step s [] = ([], s)"
| "store_run step s (op # ops) =
     (case step s op of (ok, s') \<Rightarrow>
        case store_run step s' ops of (oks, s'') \<Rightarrow> (ok # oks, s''))"

locale keyed_store =
  fixes wf :: "'s \<Rightarrow> bool"
    and get :: "'s \<Rightarrow> 'k \<Rightarrow> 'v option"
    and step :: "'s \<Rightarrow> ('k, 'v) store_op \<Rightarrow> bool \<times> 's"
    and legal :: "('k, 'v) store_op \<Rightarrow> bool"
  assumes step_wf: "wf s \<Longrightarrow> legal op \<Longrightarrow> wf (snd (step s op))"
    and step_get: "wf s \<Longrightarrow> legal op \<Longrightarrow>
      get (snd (step s op)) = store_spec (get s) (fst (step s op), op)"
    and step_pre: "wf s \<Longrightarrow> fst (step s op) \<Longrightarrow> store_pre (get s) op"
begin

lemma run_refines:
  assumes "wf s" "list_all legal ops"
  shows "wf (snd (store_run step s ops)) \<and>
     get (snd (store_run step s ops)) =
       foldl store_spec (get s) (zip (fst (store_run step s ops)) ops)"
  using assms
proof (induction ops arbitrary: s)
  case Nil
  then show ?case by simp
next
  case (Cons op ops)
  obtain ok s1 where st: "step s op = (ok, s1)" by fastforce
  obtain oks s2 where rn: "store_run step s1 ops = (oks, s2)" by fastforce
  have "wf s1" "get s1 = store_spec (get s) (ok, op)"
    using Cons.prems step_wf [of s op] step_get [of s op] st by simp_all
  then show ?case using Cons.IH [of s1] Cons.prems st rn by simp
qed

lemma spec_other_key: "k \<noteq> op_key op \<Longrightarrow> store_spec m (ok, op) k = m k"
  by (cases op) auto

lemma run_other_keys:
  assumes "wf s" "list_all legal ops" "k \<notin> op_key ` set ops"
  shows "get (snd (store_run step s ops)) k = get s k"
proof -
  have "foldl store_spec m (zip oks ops) k = m k" if "length oks = length ops" for m oks
    using that assms(3)
  proof (induction oks ops arbitrary: m rule: list_induct2)
    case (Cons ok oks op ops)
    then show ?case by (simp add: spec_other_key)
  qed simp
  moreover have "length (fst (store_run step t ops)) = length ops" for t
    by (induction ops arbitrary: t) (simp_all add: case_prod_beta)
  ultimately show ?thesis using run_refines [OF assms(1,2)] by metis
qed

end

end
