(* ===== verification/Tlv.thy ===== *)
theory Tlv
  imports Prelude Store_Interface
begin

text \<open>
  The tag-length-value store of \<open>lib/tlv\<close>, over the raw buffer: a record is a 4-byte
  little-endian tag, a 2-byte little-endian length and the value.  \<open>size_t\<close> values are
  \<open>nat\<close>; buffers are far below \<open>2^32\<close> bytes, so no sum below wraps.  A value pointer that
  may be NULL is an option, and the length argument is the length of the bytes it points to.
\<close>

section \<open>State and operations\<close>

record tlv_t =
  tlv_buffer :: bytes
  tlv_capacity :: nat
  tlv_size :: nat

datatype tlv_result_t =
  TLV_SUCCESS | TLV_ERR_INVALID_PARAM | TLV_ERR_NOT_FOUND | TLV_ERR_NO_SPACE
| TLV_ERR_DUPLICATE | TLV_ERR_CORRUPTED

abbreviation TLV_TAG_END_SENTINEL :: u32 where "TLV_TAG_END_SENTINEL \<equiv> 0"

text \<open>\<open>sizeof(tlv_tag_t)\<close> and the two fields of the record header at an offset.\<close>

abbreviation sizeof_tlv_tag :: nat where "sizeof_tlv_tag \<equiv> 6"

definition tag_at :: "bytes \<Rightarrow> nat \<Rightarrow> u32" where
  "tag_at buf off = of_le32 (mem_read off 4 buf)"

definition len_at :: "bytes \<Rightarrow> nat \<Rightarrow> nat" where
  "len_at buf off = unat (of_le16 (mem_read (off + 4) 2 buf))"

text \<open>\<open>_tlv_validate\<close>: the size of the data found, or the error.\<close>

function tlv_validate_loop :: "bytes \<Rightarrow> nat \<Rightarrow> nat \<Rightarrow> tlv_result_t + nat" where
  "tlv_validate_loop buf capacity off =
     (if off < capacity then
        if capacity < off + sizeof_tlv_tag then
          if off = 0 then Inr 0 else Inl TLV_ERR_CORRUPTED
        else if tag_at buf off = TLV_TAG_END_SENTINEL then Inr off
        else if capacity < off + (sizeof_tlv_tag + len_at buf off) then Inl TLV_ERR_CORRUPTED
        else tlv_validate_loop buf capacity (off + (sizeof_tlv_tag + len_at buf off))
      else Inr off)"
  by pat_completeness auto
termination
  by (relation "measure (\<lambda>(buf, capacity, off). capacity - off)") auto

declare tlv_validate_loop.simps [simp del]

definition tlv_validate :: "bytes \<Rightarrow> nat \<Rightarrow> tlv_result_t + nat" where
  "tlv_validate buf capacity = tlv_validate_loop buf capacity 0"

text \<open>\<open>_tlv_find_tag\<close>: the offset of the record, \<open>None\<close> for \<open>TLV_TAG_NOT_FOUND\<close>.\<close>

function tlv_find_tag_loop :: "bytes \<Rightarrow> nat \<Rightarrow> u32 \<Rightarrow> nat \<Rightarrow> nat option" where
  "tlv_find_tag_loop buf sz tag off =
     (if off + sizeof_tlv_tag \<le> sz then
        if tag_at buf off = TLV_TAG_END_SENTINEL then None
        else if tag_at buf off = tag then Some off
        else tlv_find_tag_loop buf sz tag (off + (sizeof_tlv_tag + len_at buf off))
      else None)"
  by pat_completeness auto
termination
  by (relation "measure (\<lambda>(buf, sz, tag, off). sz - off)") auto

declare tlv_find_tag_loop.simps [simp del]

definition tlv_find_tag :: "tlv_t \<Rightarrow> u32 \<Rightarrow> nat option" where
  "tlv_find_tag t tag = tlv_find_tag_loop (tlv_buffer t) (tlv_size t) tag 0"

definition tlv_init :: "bytes option \<Rightarrow> nat \<Rightarrow> tlv_result_t \<times> tlv_t option" where
  "tlv_init buffer capacity =
     (case buffer of
        None \<Rightarrow> (TLV_ERR_INVALID_PARAM, None)
      | Some buf \<Rightarrow>
          if capacity = 0 then (TLV_ERR_INVALID_PARAM, None)
          else case tlv_validate buf capacity of
            Inl e \<Rightarrow> (e, Some \<lparr>tlv_buffer = buf, tlv_capacity = capacity, tlv_size = 0\<rparr>)
          | Inr n \<Rightarrow> (TLV_SUCCESS, Some \<lparr>tlv_buffer = buf, tlv_capacity = capacity, tlv_size = n\<rparr>))"

text \<open>A successful lookup gives the length and the value pointer, NULL for length 0.\<close>

definition tlv_lookup :: "tlv_t \<Rightarrow> u32 \<Rightarrow> tlv_result_t + (nat \<times> bytes option)" where
  "tlv_lookup t tag =
     (case tlv_find_tag t tag of
        None \<Rightarrow> Inl TLV_ERR_NOT_FOUND
      | Some off \<Rightarrow>
          let n = len_at (tlv_buffer t) off
          in Inr (n, if 0 < n then Some (mem_read (off + sizeof_tlv_tag) n (tlv_buffer t)) else None))"

definition tlv_add :: "tlv_t \<Rightarrow> u32 \<Rightarrow> bytes option \<Rightarrow> tlv_result_t \<times> tlv_t" where
  "tlv_add t tag value =
     (case value of
        None \<Rightarrow> (TLV_ERR_INVALID_PARAM, t)
      | Some v \<Rightarrow>
          if length v = 0 then (TLV_ERR_INVALID_PARAM, t)
          else if tag = TLV_TAG_END_SENTINEL then (TLV_ERR_INVALID_PARAM, t)
          else if tlv_find_tag t tag \<noteq> None then (TLV_ERR_DUPLICATE, t)
          else let required_space = sizeof_tlv_tag + length v
            in if tlv_capacity t < tlv_size t + required_space then (TLV_ERR_NO_SPACE, t)
               else (TLV_SUCCESS,
                 t\<lparr>tlv_buffer := mem_write (mem_write (mem_write (tlv_buffer t)
                       (tlv_size t) (le32 tag))
                       (tlv_size t + 4) (le16 (word_of_nat (length v))))
                       (tlv_size t + sizeof_tlv_tag) v,
                   tlv_size := tlv_size t + required_space\<rparr>))"

definition tlv_update :: "tlv_t \<Rightarrow> u32 \<Rightarrow> bytes option \<Rightarrow> tlv_result_t \<times> tlv_t" where
  "tlv_update t tag value =
     (case value of
        None \<Rightarrow> (TLV_ERR_INVALID_PARAM, t)
      | Some v \<Rightarrow>
          if length v = 0 then (TLV_ERR_INVALID_PARAM, t)
          else case tlv_find_tag t tag of
            None \<Rightarrow> (TLV_ERR_NOT_FOUND, t)
          | Some off \<Rightarrow>
              let buf = tlv_buffer t;
                  old_length = len_at buf off;
                  old_entry_size = sizeof_tlv_tag + old_length;
                  new_entry_size = sizeof_tlv_tag + length v;
                  bytes_after = tlv_size t - (off + old_entry_size)
              in if old_length = length v then
                   (TLV_SUCCESS, t\<lparr>tlv_buffer := mem_write buf (off + sizeof_tlv_tag) v\<rparr>)
                 else if length v < old_length then
                   let buf1 = mem_write buf (off + 4) (le16 (word_of_nat (length v)));
                       buf2 = mem_write buf1 (off + sizeof_tlv_tag) v;
                       buf3 = (if 0 < bytes_after
                               then mem_write buf2 (off + new_entry_size)
                                      (mem_read (off + old_entry_size) bytes_after buf2)
                               else buf2)
                   in (TLV_SUCCESS, t\<lparr>tlv_buffer := buf3,
                         tlv_size := tlv_size t - (old_entry_size - new_entry_size)\<rparr>)
                 else
                   let additional_space = new_entry_size - old_entry_size
                   in if tlv_capacity t < tlv_size t + additional_space then (TLV_ERR_NO_SPACE, t)
                      else
                        let buf1 = (if 0 < bytes_after
                                    then mem_write buf (off + new_entry_size)
                                           (mem_read (off + old_entry_size) bytes_after buf)
                                    else buf);
                            buf2 = mem_write buf1 (off + 4) (le16 (word_of_nat (length v)));
                            buf3 = mem_write buf2 (off + sizeof_tlv_tag) v
                        in (TLV_SUCCESS, t\<lparr>tlv_buffer := buf3,
                              tlv_size := tlv_size t + additional_space\<rparr>))"

definition tlv_get_size :: "tlv_t \<Rightarrow> nat" where
  "tlv_get_size t = tlv_size t"

definition tlv_get_remaining_capacity :: "tlv_t \<Rightarrow> nat" where
  "tlv_get_remaining_capacity t = tlv_capacity t - tlv_size t"

definition tlv_delete :: "tlv_t \<Rightarrow> u32 \<Rightarrow> tlv_result_t \<times> tlv_t" where
  "tlv_delete t tag =
     (case tlv_find_tag t tag of
        None \<Rightarrow> (TLV_ERR_NOT_FOUND, t)
      | Some off \<Rightarrow>
          let buf = tlv_buffer t;
              entry_size = sizeof_tlv_tag + len_at buf off;
              bytes_after = tlv_size t - (off + entry_size);
              buf1 = (if 0 < bytes_after
                      then mem_write buf off (mem_read (off + entry_size) bytes_after buf)
                      else buf)
          in (TLV_SUCCESS, t\<lparr>tlv_buffer := buf1, tlv_size := tlv_size t - entry_size\<rparr>))"

section \<open>Record layout\<close>

text \<open>The bytes of a list of records, and the invariant relating the buffer to the list.\<close>

definition enc_entry :: "u32 \<times> bytes \<Rightarrow> bytes" where
  "enc_entry e = le32 (fst e) @ le16 (word_of_nat (length (snd e))) @ snd e"

definition enc_entries :: "(u32 \<times> bytes) list \<Rightarrow> bytes" where
  "enc_entries es = concat (map enc_entry es)"

definition entry_ok :: "u32 \<times> bytes \<Rightarrow> bool" where
  "entry_ok e = (fst e \<noteq> TLV_TAG_END_SENTINEL \<and> length (snd e) < 65536)"

definition tlv_entries :: "tlv_t \<Rightarrow> (u32 \<times> bytes) list \<Rightarrow> bool" where
  "tlv_entries t es =
     (tlv_capacity t = length (tlv_buffer t) \<and> tlv_size t \<le> tlv_capacity t \<and>
      take (tlv_size t) (tlv_buffer t) = enc_entries es \<and>
      list_all entry_ok es \<and> distinct (map fst es))"

lemma length_enc_entry [simp]: "length (enc_entry e) = 6 + length (snd e)"
  by (simp add: enc_entry_def)

lemma enc_entries_simps [simp]:
  "enc_entries [] = []"
  "enc_entries (e # es) = enc_entry e @ enc_entries es"
  "enc_entries (es @ fs) = enc_entries es @ enc_entries fs"
  by (simp_all add: enc_entries_def)

lemma tag_at_enc [simp]:
  "tag_at (pre @ enc_entry e @ post) (length pre) = fst e"
  using mem_read_at [of pre "length pre" "le32 (fst e)" 4
      "le16 (word_of_nat (length (snd e))) @ snd e @ post"]
  by (simp add: tag_at_def enc_entry_def)

lemma len_at_enc [simp]:
  "entry_ok e \<Longrightarrow> len_at (pre @ enc_entry e @ post) (length pre) = length (snd e)"
  using mem_read_at [of "pre @ le32 (fst e)" "length pre + 4"
      "le16 (word_of_nat (length (snd e)))" 2 "snd e @ post"]
  by (simp add: len_at_def enc_entry_def entry_ok_def unat_of_nat_len)

lemma find_tag_loop_enc:
  assumes "list_all entry_ok es"
  shows "tlv_find_tag_loop (pre @ enc_entries es @ post) (length pre + length (enc_entries es))
           tag (length pre) =
         (if tag \<in> fst ` set es
          then Some (length pre + length (enc_entries (takeWhile (\<lambda>e. fst e \<noteq> tag) es)))
          else None)"
  using assms
proof (induction es arbitrary: pre)
  case Nil
  then show ?case by (subst tlv_find_tag_loop.simps) simp
next
  case (Cons e es)
  note IH = Cons.IH [of "pre @ enc_entry e"]
  have "fst e \<noteq> TLV_TAG_END_SENTINEL" using Cons.prems by (simp add: entry_ok_def)
  then show ?case
    using Cons.prems IH by (subst tlv_find_tag_loop.simps) (auto simp: add.assoc)
qed

lemma validate_loop_enc:
  assumes "list_all entry_ok es"
    and "rest = [] \<or> 6 \<le> length rest \<and> of_le32 rest = TLV_TAG_END_SENTINEL"
  shows "tlv_validate_loop (pre @ enc_entries es @ rest) (length (pre @ enc_entries es @ rest))
           (length pre) = Inr (length pre + length (enc_entries es))"
  using assms
proof (induction es arbitrary: pre)
  case Nil
  have "6 \<le> length rest \<Longrightarrow> tag_at (pre @ rest) (length pre) = of_le32 rest"
    using of_le32_append [of "take 4 rest" "drop 4 rest"] by (simp add: tag_at_def mem_read_def)
  with Nil show ?case by (subst tlv_validate_loop.simps) auto
next
  case (Cons e es)
  note IH = Cons.IH [of "pre @ enc_entry e"]
  have "fst e \<noteq> TLV_TAG_END_SENTINEL" using Cons.prems by (simp add: entry_ok_def)
  then show ?case
    using Cons.prems IH by (subst tlv_validate_loop.simps) (auto simp: add.assoc)
qed

section \<open>Operations on the list of records\<close>

lemma tlv_entries_buffer:
  assumes "tlv_entries t es"
  obtains rest where "tlv_buffer t = enc_entries es @ rest"
    and "tlv_size t = length (enc_entries es)"
    and "tlv_capacity t = length (enc_entries es) + length rest"
proof
  show "tlv_buffer t = enc_entries es @ drop (tlv_size t) (tlv_buffer t)"
    using assms append_take_drop_id [of "tlv_size t" "tlv_buffer t"]
    by (simp add: tlv_entries_def)
  show sz: "tlv_size t = length (enc_entries es)"
    using assms length_take [of "tlv_size t" "tlv_buffer t"] by (simp add: tlv_entries_def)
  show "tlv_capacity t = length (enc_entries es) + length (drop (tlv_size t) (tlv_buffer t))"
    using assms sz by (simp add: tlv_entries_def)
qed

lemma tlv_find_tag_None:
  assumes "tlv_entries t es"
  shows "tlv_find_tag t tag = None \<longleftrightarrow> tag \<notin> fst ` set es"
proof -
  have ok: "list_all entry_ok es" using assms by (simp add: tlv_entries_def)
  obtain rest where b: "tlv_buffer t = enc_entries es @ rest"
    "tlv_size t = length (enc_entries es)"
    using assms by (rule tlv_entries_buffer)
  then show ?thesis
    using find_tag_loop_enc [OF ok, of "[]" rest tag] by (simp add: tlv_find_tag_def)
qed

lemma tlv_find_tag_split:
  assumes t: "tlv_entries t es" and tag: "tag \<in> fst ` set es"
  obtains es1 v es2 rest where "es = es1 @ (tag, v) # es2" "tag \<notin> fst ` set es1"
    and "tlv_buffer t = enc_entries es1 @ enc_entry (tag, v) @ enc_entries es2 @ rest"
    and "tlv_size t = length (enc_entries es1) + 6 + length v + length (enc_entries es2)"
    and "tlv_capacity t = tlv_size t + length rest"
    and "tlv_find_tag t tag = Some (length (enc_entries es1))"
    and "entry_ok (tag, v)"
proof -
  define es1 where "es1 = takeWhile (\<lambda>e. fst e \<noteq> tag) es"
  obtain e es2 where es: "es = es1 @ e # es2" and e: "fst e = tag"
    using tag unfolding es1_def
    by (metis (mono_tags, lifting) dropWhile_eq_Cons_conv dropWhile_eq_Nil_conv image_iff
        list.exhaust takeWhile_dropWhile_id)
  obtain v where ev: "e = (tag, v)" using e by (cases e) auto
  obtain rest where b: "tlv_buffer t = enc_entries es @ rest"
    "tlv_size t = length (enc_entries es)" "tlv_capacity t = length (enc_entries es) + length rest"
    using t by (rule tlv_entries_buffer)
  have "tag \<notin> fst ` set es1" unfolding es1_def by (auto dest: set_takeWhileD)
  moreover have "tlv_find_tag t tag = Some (length (enc_entries es1))"
    using t tag b find_tag_loop_enc [of es "[]" rest tag]
    by (simp add: tlv_find_tag_def tlv_entries_def es1_def)
  moreover have "entry_ok (tag, v)" using t by (simp add: tlv_entries_def es ev)
  ultimately show ?thesis using that [of es1 v es2 rest] b by (simp add: es ev)
qed

lemma len_at_entry:
  "entry_ok (tag, v) \<Longrightarrow>
   len_at (enc_entries es1 @ enc_entry (tag, v) @ rest) (length (enc_entries es1)) = length v"
  by simp

lemma tlv_lookup_entries:
  assumes "tlv_entries t es"
  shows "tlv_lookup t tag =
     (case map_of es tag of
        None \<Rightarrow> Inl TLV_ERR_NOT_FOUND
      | Some v \<Rightarrow> Inr (length v, if v = [] then None else Some v))"
proof (cases "tag \<in> fst ` set es")
  case False
  then have "map_of es tag = None" by (simp add: map_of_eq_None_iff)
  moreover have "tlv_find_tag t tag = None" using False assms by (simp add: tlv_find_tag_None)
  ultimately show ?thesis by (simp add: tlv_lookup_def)
next
  case True
  with assms show ?thesis
  proof (rule tlv_find_tag_split)
    fix es1 v es2 rest
    assume s: "es = es1 @ (tag, v) # es2" "tag \<notin> fst ` set es1"
      "tlv_buffer t = enc_entries es1 @ enc_entry (tag, v) @ enc_entries es2 @ rest"
      "tlv_find_tag t tag = Some (length (enc_entries es1))" "entry_ok (tag, v)"
    have "map_of es tag = Some v"
      unfolding s(1) by (rule map_of_split) (rule s(2))
    moreover have "mem_read (length (enc_entries es1) + 6) (length v) (tlv_buffer t) = v"
      unfolding s using mem_read_at [of "enc_entries es1 @ le32 tag @ le16 (word_of_nat (length v))"]
      by (simp add: enc_entry_def)
    ultimately show ?thesis using s by (simp add: tlv_lookup_def len_at_entry)
  qed
qed

lemma tlv_entriesI:
  assumes "tlv_buffer t = enc_entries es @ rest" "tlv_size t = length (enc_entries es)"
    and "tlv_capacity t = length (enc_entries es) + length rest"
    and "list_all entry_ok es" "distinct (map fst es)"
  shows "tlv_entries t es"
  using assms by (simp add: tlv_entries_def)

lemma tlv_add_entries:
  assumes t: "tlv_entries t es" and v: "v \<noteq> []" "length v < 65536"
    and tag: "tag \<noteq> TLV_TAG_END_SENTINEL" "tag \<notin> fst ` set es"
    and space: "tlv_size t + 6 + length v \<le> tlv_capacity t"
  shows "fst (tlv_add t tag (Some v)) = TLV_SUCCESS \<and>
         tlv_entries (snd (tlv_add t tag (Some v))) (es @ [(tag, v)])"
proof -
  obtain rest where b: "tlv_buffer t = enc_entries es @ rest"
    "tlv_size t = length (enc_entries es)" "tlv_capacity t = length (enc_entries es) + length rest"
    using t by (rule tlv_entries_buffer)
  let ?n = "length v" and ?E = "enc_entries es"
  let ?L = "le16 (word_of_nat (length v))"
  have nf: "tlv_find_tag t tag = None" using t tag by (simp add: tlv_find_tag_None)
  have "4 + 2 + ?n \<le> length rest" using space b by simp
  then obtain r1 r2 r3 r4 where r: "rest = r1 @ r2 @ r3 @ r4" "length r1 = 4" "length r2 = 2"
    "length r3 = ?n"
    by (rule list_split4)
  have "mem_write (?E @ rest) (length ?E) (le32 tag) = ?E @ le32 tag @ r2 @ r3 @ r4"
    unfolding r(1) by (rule mem_write_at) (simp_all add: r(2))
  moreover have "mem_write (?E @ le32 tag @ r2 @ r3 @ r4) (length ?E + 4) ?L =
      ?E @ le32 tag @ ?L @ r3 @ r4"
    using mem_write_at [of "?E @ le32 tag" _ ?L r2 "r3 @ r4"] by (simp add: r(3))
  moreover have "mem_write (?E @ le32 tag @ ?L @ r3 @ r4) (length ?E + 6) v =
      enc_entries (es @ [(tag, v)]) @ r4"
    using mem_write_at [of "?E @ le32 tag @ ?L" "length ?E + 6", OF _ r(4) [symmetric], of r4]
    by (simp add: enc_entry_def)
  ultimately have "mem_write (mem_write (mem_write (?E @ rest) (length ?E) (le32 tag))
      (length ?E + 4) ?L) (length ?E + 6) v = enc_entries (es @ [(tag, v)]) @ r4"
    by (simp only:)
  then have "tlv_add t tag (Some v) = (TLV_SUCCESS,
      t\<lparr>tlv_buffer := enc_entries (es @ [(tag, v)]) @ r4,
        tlv_size := length (enc_entries (es @ [(tag, v)]))\<rparr>)"
    using assms(2-4) space b nf by (simp add: tlv_add_def Let_def)
  moreover have "tlv_capacity t = length (enc_entries (es @ [(tag, v)])) + length r4"
    using b r by simp
  moreover have "list_all entry_ok (es @ [(tag, v)])" "distinct (map fst (es @ [(tag, v)]))"
    using t v(2) tag by (simp_all add: tlv_entries_def entry_ok_def)
  ultimately show ?thesis by (auto intro!: tlv_entriesI)
qed

lemma tlv_delete_entries:
  assumes t: "tlv_entries t es" and tag: "tag \<in> fst ` set es"
  shows "fst (tlv_delete t tag) = TLV_SUCCESS \<and>
         tlv_entries (snd (tlv_delete t tag)) (AList.delete tag es)"
  using t tag
proof (rule tlv_find_tag_split)
  fix es1 v es2 rest
  assume s: "es = es1 @ (tag, v) # es2" "tag \<notin> fst ` set es1"
    "tlv_buffer t = enc_entries es1 @ enc_entry (tag, v) @ enc_entries es2 @ rest"
    "tlv_size t = length (enc_entries es1) + 6 + length v + length (enc_entries es2)"
    "tlv_capacity t = tlv_size t + length rest"
    "tlv_find_tag t tag = Some (length (enc_entries es1))" "entry_ok (tag, v)"
  have wf: "list_all entry_ok es" "distinct (map fst es)" using t by (simp_all add: tlv_entries_def)
  then have del: "AList.delete tag es = es1 @ es2"
    using s by (simp add: alist_delete_split)
  define rest' where "rest' = drop (length (enc_entries es2)) (enc_entry (tag, v) @ enc_entries es2) @ rest"
  have read: "mem_read (length (enc_entries es1) + (6 + length v)) (length (enc_entries es2))
                (tlv_buffer t) = enc_entries es2"
    using s mem_read_at [of "enc_entries es1 @ enc_entry (tag, v)"] by simp
  have "mem_write (tlv_buffer t) (length (enc_entries es1)) (enc_entries es2) =
        enc_entries es1 @ enc_entries es2 @ rest'"
    unfolding s mem_write_def rest'_def by (simp add: drop_append)
  then have "tlv_delete t tag = (TLV_SUCCESS,
      t\<lparr>tlv_buffer := enc_entries (es1 @ es2) @ rest', tlv_size := length (enc_entries (es1 @ es2))\<rparr>)"
    using s read by (simp add: tlv_delete_def len_at_entry memmove_if Let_def)
  moreover have "length rest' = 6 + length v + length rest" by (simp add: rest'_def)
  ultimately show ?thesis
    using s wf unfolding del by (auto intro!: tlv_entriesI)
qed

text \<open>The three buffer movements of \<open>tlv_update\<close>: \<open>H\<close> is what precedes the length field.\<close>

lemma update_shrink:
  fixes L L' v w es2 rest :: bytes
  assumes "length L = 2" "length L' = 2" "length w < length v"
  shows "\<exists>rest'. length rest' + length w = length rest + length v \<and>
     (let buf2 = mem_write (mem_write (H @ L @ v @ es2 @ rest) (length H) L') (length H + 2) w
      in mem_write buf2 (length H + 2 + length w)
           (mem_read (length H + 2 + length v) (length es2) buf2)) = H @ L' @ w @ es2 @ rest'"
proof -
  define rest' where "rest' = drop (length es2) (drop (length w) v @ es2 @ rest)"
  have 1: "mem_write (H @ L @ v @ es2 @ rest) (length H) L' = H @ L' @ v @ es2 @ rest"
    using assms by (intro mem_write_at) simp_all
  have 2: "mem_write (H @ L' @ v @ es2 @ rest) (length H + 2) w =
      H @ L' @ w @ drop (length w) v @ es2 @ rest"
    using assms mem_write_inside [of "H @ L'" "v @ es2 @ rest" 0 w] by simp
  have 3: "mem_read (length H + 2 + length v) (length es2)
      (H @ L' @ w @ drop (length w) v @ es2 @ rest) = es2"
    using assms mem_read_at [of "H @ L' @ w @ drop (length w) v" _ es2 _ rest] by simp
  have 4: "mem_write (H @ L' @ w @ drop (length w) v @ es2 @ rest) (length H + 2 + length w) es2 =
      H @ L' @ w @ es2 @ rest'"
    using assms mem_write_inside [of "H @ L' @ w" "drop (length w) v @ es2 @ rest" 0 es2]
    by (simp add: rest'_def)
  have "length rest' + length w = length rest + length v"
    using assms by (simp add: rest'_def)
  then show ?thesis unfolding 1 2 Let_def 3 4 by blast
qed

lemma update_grow:
  fixes L L' v w es2 rest :: bytes
  assumes "length L = 2" "length L' = 2" "length v < length w" "length w \<le> length v + length rest"
  shows "\<exists>rest'. length rest' + length w = length rest + length v \<and>
     mem_write (mem_write (mem_write (H @ L @ v @ es2 @ rest) (length H + 2 + length w)
        (mem_read (length H + 2 + length v) (length es2) (H @ L @ v @ es2 @ rest)))
        (length H) L') (length H + 2) w = H @ L' @ w @ es2 @ rest'"
proof -
  define old where "old = take (length w) (v @ es2 @ rest)"
  define rest' where "rest' = drop (length w + length es2) (v @ es2 @ rest)"
  have old: "length old = length w" using assms by (simp add: old_def)
  have 1: "mem_read (length H + 2 + length v) (length es2) (H @ L @ v @ es2 @ rest) = es2"
    using assms mem_read_at [of "H @ L @ v" _ es2 _ rest] by simp
  have 2: "mem_write (H @ L @ v @ es2 @ rest) (length H + 2 + length w) es2 =
      H @ L @ old @ es2 @ rest'"
    using assms mem_write_inside [of "H @ L" "v @ es2 @ rest" "length w" es2]
    by (simp add: rest'_def old_def)
  have 3: "mem_write (H @ L @ old @ es2 @ rest') (length H) L' = H @ L' @ old @ es2 @ rest'"
    using assms by (intro mem_write_at) simp_all
  have 4: "mem_write (H @ L' @ old @ es2 @ rest') (length H + 2) w = H @ L' @ w @ es2 @ rest'"
    using assms old mem_write_at [of "H @ L'" "length H + 2" w old "es2 @ rest'"] by simp
  have "length rest' + length w = length rest + length v"
    using assms by (simp add: rest'_def)
  then show ?thesis unfolding 1 2 3 4 by blast
qed

lemma tlv_update_shape:
  assumes buf: "tlv_buffer t = enc_entries es1 @ enc_entry (tag, v) @ enc_entries es2 @ rest"
    and sz: "tlv_size t = length (enc_entries es1) + 6 + length v + length (enc_entries es2)"
    and cap: "tlv_capacity t = tlv_size t + length rest"
    and find: "tlv_find_tag t tag = Some (length (enc_entries es1))"
    and ok: "entry_ok (tag, v)" and w: "w \<noteq> []" "length w \<le> length v + length rest"
  shows "\<exists>rest'. length rest' + length w = length rest + length v \<and>
     tlv_update t tag (Some w) = (TLV_SUCCESS,
       t\<lparr>tlv_buffer := enc_entries es1 @ enc_entry (tag, w) @ enc_entries es2 @ rest',
         tlv_size := length (enc_entries es1) + 6 + length w + length (enc_entries es2)\<rparr>)"
proof -
  define H where "H = enc_entries es1 @ le32 tag"
  let ?L = "\<lambda>u :: bytes. le16 (word_of_nat (length u))"
  have H: "length H = length (enc_entries es1) + 4" by (simp add: H_def)
  have enc: "enc_entries es1 @ enc_entry (tag, u) @ zs = H @ ?L u @ u @ zs" for u zs
    by (simp add: H_def enc_entry_def)
  have len: "len_at (tlv_buffer t) (length (enc_entries es1)) = length v"
    unfolding buf using ok by simp
  have bufH: "tlv_buffer t = H @ ?L v @ v @ enc_entries es2 @ rest"
    unfolding buf enc ..
  have after: "tlv_size t - (length (enc_entries es1) + (6 + length v)) = length (enc_entries es2)"
    using sz by simp
  consider "length w = length v" | "length w < length v" | "length v < length w" by linarith
  then show ?thesis
  proof cases
    case 1
    have "mem_write (tlv_buffer t) (length (enc_entries es1) + 6) w =
        H @ ?L w @ w @ enc_entries es2 @ rest"
      using 1 mem_write_at [of "H @ ?L v" "length H + 2" w v "enc_entries es2 @ rest"]
      by (simp add: bufH H add.commute)
    moreover have "t\<lparr>tlv_buffer := b, tlv_size := tlv_size t\<rparr> = t\<lparr>tlv_buffer := b\<rparr>" for b
      by simp
    moreover have "v \<noteq> []" using 1 w(1) by auto
    ultimately show ?thesis
      using 1 w find len sz unfolding enc
      by (intro exI [of _ rest]) (simp add: tlv_update_def)
  next
    case 2
    from update_shrink [OF length_le16 [of "word_of_nat (length v)"]
        length_le16 [of "word_of_nat (length w)"] this, of rest H "enc_entries es2"]
    obtain rest' where r: "length rest' + length w = length rest + length v"
      "(let buf2 = mem_write (mem_write (tlv_buffer t) (length H) (?L w)) (length H + 2) w
        in mem_write buf2 (length H + 2 + length w)
           (mem_read (length H + 2 + length v) (length (enc_entries es2)) buf2)) =
       H @ ?L w @ w @ enc_entries es2 @ rest'"
      unfolding bufH by blast
    with 2 w find len sz show ?thesis
      unfolding enc
      by (intro exI [of _ rest']) (auto simp: tlv_update_def H Let_def after ac_simps)
  next
    case 3
    from update_grow [OF length_le16 [of "word_of_nat (length v)"]
        length_le16 [of "word_of_nat (length w)"] this w(2), of H "enc_entries es2"]
    obtain rest' where r: "length rest' + length w = length rest + length v"
      "mem_write (mem_write (mem_write (tlv_buffer t) (length H + 2 + length w)
        (mem_read (length H + 2 + length v) (length (enc_entries es2)) (tlv_buffer t)))
        (length H) (?L w)) (length H + 2) w = H @ ?L w @ w @ enc_entries es2 @ rest'"
      unfolding bufH by blast
    with 3 w find len sz cap show ?thesis
      unfolding enc
      by (intro exI [of _ rest']) (auto simp: tlv_update_def H Let_def after ac_simps)
  qed
qed

lemma tlv_update_entries:
  assumes t: "tlv_entries t es" and tag: "tag \<in> fst ` set es"
    and w: "w \<noteq> []" "length w < 65536"
    and space: "tlv_size t + length w \<le> tlv_capacity t + length (the (map_of es tag))"
  shows "fst (tlv_update t tag (Some w)) = TLV_SUCCESS \<and>
         tlv_entries (snd (tlv_update t tag (Some w))) (AList.update tag w es)"
  using t tag
proof (rule tlv_find_tag_split)
  fix es1 v es2 rest
  assume s: "es = es1 @ (tag, v) # es2" "tag \<notin> fst ` set es1"
    "tlv_buffer t = enc_entries es1 @ enc_entry (tag, v) @ enc_entries es2 @ rest"
    "tlv_size t = length (enc_entries es1) + 6 + length v + length (enc_entries es2)"
    "tlv_capacity t = tlv_size t + length rest"
    "tlv_find_tag t tag = Some (length (enc_entries es1))" "entry_ok (tag, v)"
  have wf: "list_all entry_ok es" "distinct (map fst es)" using t by (simp_all add: tlv_entries_def)
  have upd: "AList.update tag w es = es1 @ (tag, w) # es2"
    unfolding s(1) by (rule alist_update_split) (rule s(2))
  have "map_of es tag = Some v" unfolding s(1) by (rule map_of_split) (rule s(2))
  then have "length w \<le> length v + length rest" using space s(5) by simp
  from tlv_update_shape [OF s(3-7) w(1) this] obtain rest' where
    r: "length rest' + length w = length rest + length v"
    "tlv_update t tag (Some w) = (TLV_SUCCESS,
       t\<lparr>tlv_buffer := enc_entries es1 @ enc_entry (tag, w) @ enc_entries es2 @ rest',
         tlv_size := length (enc_entries es1) + 6 + length w + length (enc_entries es2)\<rparr>)"
    by blast
  have "tlv_entries (snd (tlv_update t tag (Some w))) (es1 @ (tag, w) # es2)"
    by (rule tlv_entriesI [of _ _ rest'])
      (use r s(4,5) wf w(2) in \<open>simp_all add: s(1) entry_ok_def\<close>)
  then show ?thesis unfolding upd by (simp add: r)
qed

text \<open>Every other outcome is an error that leaves the store as it was.\<close>

lemma tlv_errors_unchanged:
  "fst (tlv_add t tag value) \<noteq> TLV_SUCCESS \<Longrightarrow> snd (tlv_add t tag value) = t"
  "fst (tlv_update t tag value) \<noteq> TLV_SUCCESS \<Longrightarrow> snd (tlv_update t tag value) = t"
  "fst (tlv_delete t tag) \<noteq> TLV_SUCCESS \<Longrightarrow> snd (tlv_delete t tag) = t"
  by (auto simp: tlv_add_def tlv_update_def tlv_delete_def Let_def
      split: option.splits if_splits)

lemma tlv_add_success_iff:
  assumes "tlv_entries t es"
  shows "fst (tlv_add t tag (Some v)) = TLV_SUCCESS \<longleftrightarrow>
     v \<noteq> [] \<and> tag \<noteq> TLV_TAG_END_SENTINEL \<and> tag \<notin> fst ` set es \<and>
     tlv_size t + 6 + length v \<le> tlv_capacity t"
  using tlv_find_tag_None [OF assms, of tag] by (auto simp: tlv_add_def Let_def)

lemma tlv_update_success_iff:
  assumes "tlv_entries t es"
  shows "fst (tlv_update t tag (Some w)) = TLV_SUCCESS \<longleftrightarrow>
     w \<noteq> [] \<and> tag \<in> fst ` set es \<and>
     tlv_size t + length w \<le> tlv_capacity t + length (the (map_of es tag))"
proof (cases "tag \<in> fst ` set es")
  case False
  then have "tlv_find_tag t tag = None" using assms by (simp add: tlv_find_tag_None)
  with False show ?thesis by (auto simp: tlv_update_def)
next
  case True
  with assms show ?thesis
  proof (rule tlv_find_tag_split)
    fix es1 v es2 rest
    assume s: "es = es1 @ (tag, v) # es2" "tag \<notin> fst ` set es1"
      "tlv_buffer t = enc_entries es1 @ enc_entry (tag, v) @ enc_entries es2 @ rest"
      "tlv_size t = length (enc_entries es1) + 6 + length v + length (enc_entries es2)"
      "tlv_capacity t = tlv_size t + length rest"
      "tlv_find_tag t tag = Some (length (enc_entries es1))" "entry_ok (tag, v)"
    have "map_of es tag = Some v" unfolding s(1) by (rule map_of_split) (rule s(2))
    then show ?thesis
      using s(3-7) True by (auto simp: tlv_update_def Let_def len_at_entry)
  qed
qed

lemma tlv_delete_success_iff:
  assumes "tlv_entries t es"
  shows "fst (tlv_delete t tag) = TLV_SUCCESS \<longleftrightarrow> tag \<in> fst ` set es"
  using tlv_find_tag_None [OF assms, of tag] by (auto simp: tlv_delete_def Let_def split: option.splits)

section \<open>The store as a finite map\<close>

definition tlv_wf :: "tlv_t \<Rightarrow> bool" where
  "tlv_wf t = (\<exists>es. tlv_entries t es)"

definition tlv_get :: "tlv_t \<Rightarrow> u32 \<Rightarrow> bytes option" where
  "tlv_get t tag =
     (case tlv_lookup t tag of
        Inl _ \<Rightarrow> None
      | Inr (n, value) \<Rightarrow> Some (case value of None \<Rightarrow> [] | Some v \<Rightarrow> v))"

fun tlv_step :: "tlv_t \<Rightarrow> (u32, bytes) store_op \<Rightarrow> bool \<times> tlv_t" where
  "tlv_step t (Add tag v) = apfst (\<lambda>r. r = TLV_SUCCESS) (tlv_add t tag (Some v))"
| "tlv_step t (Upd tag v) = apfst (\<lambda>r. r = TLV_SUCCESS) (tlv_update t tag (Some v))"
| "tlv_step t (Del tag) = apfst (\<lambda>r. r = TLV_SUCCESS) (tlv_delete t tag)"

text \<open>The length argument is a \<open>uint16_t\<close>.\<close>

fun tlv_legal :: "(u32, bytes) store_op \<Rightarrow> bool" where
  "tlv_legal (Add tag v) = (length v < 65536)"
| "tlv_legal (Upd tag v) = (length v < 65536)"
| "tlv_legal (Del tag) = True"

lemma tlv_get_entries: "tlv_entries t es \<Longrightarrow> tlv_get t = map_of es"
  by (rule ext) (auto simp: tlv_get_def tlv_lookup_entries split: option.split)

lemma map_add_new:
  assumes "k \<notin> fst ` set es"
  shows "[k \<mapsto> v] ++ map_of es = (map_of es)(k \<mapsto> v)"
proof -
  have "map_of es k = None" using assms by (simp add: map_of_eq_None_iff)
  then show ?thesis by (intro ext) (auto simp: map_add_def split: option.split)
qed

lemma tlv_step_refines:
  assumes t: "tlv_entries t es" and leg: "tlv_legal op"
  shows "\<exists>es'. tlv_entries (snd (tlv_step t op)) es' \<and>
     map_of es' = store_spec (map_of es) (fst (tlv_step t op), op)"
proof (cases "fst (tlv_step t op)")
  case False
  then have "snd (tlv_step t op) = t" by (cases op) (simp_all add: tlv_errors_unchanged)
  with False t show ?thesis by (cases op) auto
next
  case True
  show ?thesis
  proof (cases op)
    case (Add tag v)
    with True leg tlv_add_entries [OF t] tlv_add_success_iff [OF t, of tag v]
    show ?thesis by (auto simp: map_add_new intro!: exI [of _ "es @ [(tag, v)]"])
  next
    case (Upd tag v)
    with True leg tlv_update_entries [OF t] tlv_update_success_iff [OF t, of tag v]
    show ?thesis by (auto simp: AList.update_conv' intro!: exI [of _ "AList.update tag v es"])
  next
    case (Del tag)
    with True tlv_delete_entries [OF t] tlv_delete_success_iff [OF t, of tag]
    show ?thesis by (auto simp: AList.delete_conv' intro!: exI [of _ "AList.delete tag es"])
  qed
qed

interpretation tlv: keyed_store tlv_wf tlv_get tlv_step tlv_legal
proof
  fix s op
  assume "tlv_wf s" and leg: "tlv_legal op"
  then obtain es where es: "tlv_entries s es" by (auto simp: tlv_wf_def)
  from tlv_step_refines [OF es leg] obtain es' where
    es': "tlv_entries (snd (tlv_step s op)) es'"
      "map_of es' = store_spec (map_of es) (fst (tlv_step s op), op)" by blast
  then show "tlv_wf (snd (tlv_step s op))" by (auto simp: tlv_wf_def)
  show "tlv_get (snd (tlv_step s op)) = store_spec (tlv_get s) (fst (tlv_step s op), op)"
    using es es' by (simp add: tlv_get_entries)
next
  fix s op
  assume "tlv_wf s" and ok: "fst (tlv_step s op)"
  then obtain es where es: "tlv_entries s es" by (auto simp: tlv_wf_def)
  show "store_pre (tlv_get s) op"
    using ok tlv_add_success_iff [OF es] tlv_update_success_iff [OF es]
      tlv_delete_success_iff [OF es]
    by (cases op) (auto simp: tlv_get_entries [OF es] map_of_eq_None_iff)
qed

section \<open>Properties\<close>

definition tlv_empty :: "nat \<Rightarrow> tlv_t" where
  "tlv_empty capacity =
     \<lparr>tlv_buffer = replicate capacity 0, tlv_capacity = capacity, tlv_size = 0\<rparr>"

lemma tlv_wf_empty: "tlv_wf (tlv_empty n)"
  unfolding tlv_wf_def by (rule exI [of _ "[]"]) (simp add: tlv_entries_def tlv_empty_def)

lemma tlv_init_entries:
  assumes "list_all entry_ok es" "distinct (map fst es)"
    and "rest = [] \<and> es \<noteq> [] \<or> 6 \<le> length rest \<and> of_le32 rest = TLV_TAG_END_SENTINEL"
  shows "\<exists>t. tlv_init (Some (enc_entries es @ rest)) (length (enc_entries es @ rest)) =
           (TLV_SUCCESS, Some t) \<and> tlv_entries t es"
proof -
  have "enc_entries es @ rest \<noteq> []" using assms(3) by (cases es) (auto simp: enc_entry_def le32_def)
  then show ?thesis
    using validate_loop_enc [of es rest "[]"] assms
    by (auto simp: tlv_init_def tlv_validate_def tlv_entries_def)
qed

text \<open>C12: Any sequence of add, update and delete calls on a well-formed store, with the
  outcome of each call as the code reports it, leaves a well-formed store whose lookups are
  those of the finite map obtained by applying the successful calls in order.\<close>

theorem tlv_run_refines_map:
  assumes "tlv_wf t" "list_all tlv_legal ops"
  shows "tlv_wf (snd (store_run tlv_step t ops)) \<and>
     tlv_get (snd (store_run tlv_step t ops)) =
       foldl store_spec (tlv_get t) (zip (fst (store_run tlv_step t ops)) ops)"
  using assms by (rule tlv.run_refines)

theorem tlv_run_refines_map_witness:
  "tlv_get (snd (store_run tlv_step (tlv_empty 32) [Add 1 [10], Add 2 [20, 21], Upd 1 [11, 12], Del 2])) =
     foldl store_spec (tlv_get (tlv_empty 32))
       (zip (fst (store_run tlv_step (tlv_empty 32)
          [Add 1 [10], Add 2 [20, 21], Upd 1 [11, 12], Del 2]))
        [Add 1 [10], Add 2 [20, 21], Upd 1 [11, 12], Del 2])"
  using tlv_run_refines_map [of "tlv_empty 32" "[Add 1 [10], Add 2 [20, 21], Upd 1 [11, 12], Del 2]"]
    tlv_wf_empty [of 32]
  by simp

text \<open>C33: On a store holding records \<open>es\<close>, an update succeeds exactly when the tag is
  present, the new value is not empty and the resized record fits; it then replaces that
  record in place and keeps every other record and their order, whether the value keeps its
  size, shrinks or grows.\<close>

theorem tlv_update_in_place:
  assumes "tlv_entries t es" "length w < 65536"
  shows "if w \<noteq> [] \<and> tag \<in> fst ` set es \<and>
            tlv_size t + length w \<le> tlv_capacity t + length (the (map_of es tag))
         then fst (tlv_update t tag (Some w)) = TLV_SUCCESS \<and>
              tlv_entries (snd (tlv_update t tag (Some w))) (AList.update tag w es)
         else fst (tlv_update t tag (Some w)) \<noteq> TLV_SUCCESS \<and>
              snd (tlv_update t tag (Some w)) = t"
  using assms tlv_update_entries [OF assms(1)] tlv_update_success_iff [OF assms(1)]
    tlv_errors_unchanged(2) by auto

theorem tlv_update_in_place_witness:
  "tlv_entries (snd (tlv_update
     \<lparr>tlv_buffer = [1, 0, 0, 0, 1, 0, 10, 2, 0, 0, 0, 1, 0, 20, 0, 0],
      tlv_capacity = 16, tlv_size = 14\<rparr> 1 (Some [8, 9]))) [(1, [8, 9]), (2, [20])]"
proof -
  have "tlv_entries \<lparr>tlv_buffer = [1, 0, 0, 0, 1, 0, 10, 2, 0, 0, 0, 1, 0, 20, 0, 0],
      tlv_capacity = 16, tlv_size = 14\<rparr> [(1, [10]), (2, [20])]"
    by (simp add: tlv_entries_def enc_entries_def enc_entry_def le32_def le16_def entry_ok_def)
  from tlv_update_in_place [OF this, of "[8, 9]" 1] show ?thesis by simp
qed

text \<open>C32: Initialising a store on a buffer that holds the records \<open>es\<close>, followed by nothing
  or by an end-sentinel header, succeeds and finds exactly these records.\<close>

theorem tlv_init_roundtrip:
  assumes "list_all entry_ok es" "distinct (map fst es)"
    and "rest = [] \<and> es \<noteq> [] \<or> 6 \<le> length rest \<and> of_le32 rest = TLV_TAG_END_SENTINEL"
  shows "\<exists>t. tlv_init (Some (enc_entries es @ rest)) (length (enc_entries es @ rest)) =
           (TLV_SUCCESS, Some t) \<and> tlv_entries t es"
  using assms by (rule tlv_init_entries)

theorem tlv_init_roundtrip_witness:
  "\<exists>t. tlv_init (Some (enc_entries [(7, [1, 2])] @ [0, 0, 0, 0, 0, 0]))
         (length (enc_entries [(7, [1, 2])] @ [0, 0, 0, 0, 0, 0])) = (TLV_SUCCESS, Some t) \<and>
       tlv_entries t [(7, [1, 2])]"
  by (rule tlv_init_roundtrip)
    (simp_all add: entry_ok_def of_le32_def)

lemma find_tag_loop_within:
  assumes "list_all entry_ok es" "tag \<in> fst ` set es" "length pre + length (enc_entries es) \<le> n"
  shows "tlv_find_tag_loop (pre @ enc_entries es @ post) n tag (length pre) =
         Some (length pre + length (enc_entries (takeWhile (\<lambda>e. fst e \<noteq> tag) es)))"
  using assms
proof (induction es arbitrary: pre)
  case (Cons e es)
  have "fst e \<noteq> TLV_TAG_END_SENTINEL" using Cons.prems by (simp add: entry_ok_def)
  then show ?case
    using Cons.prems Cons.IH [of "pre @ enc_entry e"]
    by (subst tlv_find_tag_loop.simps) (auto simp: add.assoc)
qed simp

lemma validate_loop_past:
  assumes "list_all entry_ok es"
    and "tlv_validate_loop (pre @ enc_entries es @ rest) (length (pre @ enc_entries es @ rest))
           (length pre) = Inr n"
  shows "length pre + length (enc_entries es) \<le> n"
  using assms
proof (induction es arbitrary: pre)
  case Nil
  have "tlv_validate_loop buf c off = Inr n \<Longrightarrow> off \<le> n" for buf c off
    by (induction buf c off rule: tlv_validate_loop.induct)
      (subst (asm) tlv_validate_loop.simps, auto split: if_splits)
  then show ?case using Nil by auto
next
  case (Cons e es)
  have "fst e \<noteq> TLV_TAG_END_SENTINEL" using Cons.prems by (simp add: entry_ok_def)
  then show ?case
    using Cons.prems Cons.IH [of "pre @ enc_entry e"]
    by (subst (asm) tlv_validate_loop.simps) (auto simp: add.assoc)
qed

lemma validate_loop_error: "tlv_validate_loop buf c off \<noteq> Inl TLV_SUCCESS"
  by (induction buf c off rule: tlv_validate_loop.induct) (subst tlv_validate_loop.simps, auto)

lemma tlv_init_finds:
  assumes t: "tlv_entries t (es @ [(tag, v)])"
    and i: "tlv_init (Some (tlv_buffer t)) (tlv_capacity t) = (TLV_SUCCESS, Some t')"
  shows "tlv_get t' tag = Some v"
proof -
  let ?es = "es @ [(tag, v)]"
  have d: "list_all entry_ok ?es" "distinct (map fst ?es)" using t by (simp_all add: tlv_entries_def)
  have tw: "takeWhile (\<lambda>e. fst e \<noteq> tag) ?es = es" using d(2) by (subst takeWhile_append2) auto
  obtain rest where b: "tlv_buffer t = enc_entries ?es @ rest"
    "tlv_capacity t = length (enc_entries ?es @ rest)"
    using t by (rule tlv_entries_buffer) simp
  have v: "tlv_validate (tlv_buffer t) (tlv_capacity t) = Inr (tlv_size t')" "tlv_buffer t' = tlv_buffer t"
    using i by (auto simp: tlv_init_def tlv_validate_def validate_loop_error split: if_splits sum.splits)
  have "length (enc_entries ?es) \<le> tlv_size t'"
    using validate_loop_past [OF d(1), of "[]" rest] v(1) by (simp add: tlv_validate_def b)
  then have f: "tlv_find_tag t' tag = Some (length (enc_entries es))"
    using find_tag_loop_within [OF d(1), of tag "[]" _ rest] unfolding tlv_find_tag_def v(2) b(1) tw by simp
  have l: "len_at (tlv_buffer t') (length (enc_entries es)) = length v"
    using len_at_entry [of tag v es rest] d(1) by (simp add: v(2) b(1))
  have "mem_read (length (enc_entries es) + 6) (length v) (tlv_buffer t') = v"
    unfolding v(2) b(1) using mem_read_at [of "enc_entries es @ le32 tag @ le16 (word_of_nat (length v))"]
    by (simp add: enc_entry_def)
  then show ?thesis using f l by (auto simp: tlv_get_def tlv_lookup_def Let_def)
qed

text \<open>C40: Deleting the last record shrinks the size but leaves every byte of the buffer as it was and
  writes no end sentinel: the record is no longer found in the store, but \<open>tlv_init\<close> on the buffer
  does exactly what it did before the deletion, and whenever it succeeds the deleted record is found
  again.  It does succeed if the data fill the buffer or an end-sentinel header follows them.\<close>

theorem tlv_delete_last_resurrected:
  assumes t: "tlv_entries t (es @ [(tag, v)])"
  shows "tlv_get (snd (tlv_delete t tag)) tag = None \<and>
     tlv_buffer (snd (tlv_delete t tag)) = tlv_buffer t \<and>
     (\<forall>t'. tlv_init (Some (tlv_buffer (snd (tlv_delete t tag)))) (tlv_capacity t) = (TLV_SUCCESS, Some t') \<longrightarrow>
        tlv_get t' tag = Some v) \<and>
     (drop (tlv_size t) (tlv_buffer t) = [] \<or> 6 \<le> length (drop (tlv_size t) (tlv_buffer t)) \<and>
        of_le32 (drop (tlv_size t) (tlv_buffer t)) = TLV_TAG_END_SENTINEL \<longrightarrow>
      (\<exists>t'. tlv_init (Some (tlv_buffer (snd (tlv_delete t tag)))) (tlv_capacity t) = (TLV_SUCCESS, Some t')))"
proof -
  let ?es = "es @ [(tag, v)]"
  have d: "distinct (map fst ?es)" "list_all entry_ok ?es" using t by (simp_all add: tlv_entries_def)
  have tw: "takeWhile (\<lambda>e. fst e \<noteq> tag) ?es = es"
    using d(1) by (subst takeWhile_append2) auto
  obtain rest where b: "tlv_buffer t = enc_entries ?es @ rest"
    "tlv_size t = length (enc_entries ?es)" "tlv_capacity t = length (enc_entries ?es @ rest)"
    using t by (rule tlv_entries_buffer) simp
  have find: "tlv_find_tag t tag = Some (length (enc_entries es))"
    unfolding tlv_find_tag_def b(1,2)
    using find_tag_loop_enc [OF d(2), of "[]" rest tag, unfolded tw] by simp
  have "len_at (tlv_buffer t) (length (enc_entries es)) = length v"
    using len_at_entry [of tag v es rest] d(2) by (simp add: b(1))
  then have del: "tlv_buffer (snd (tlv_delete t tag)) = tlv_buffer t"
    using find b(2) by (simp add: tlv_delete_def Let_def)
  have get: "tlv_get (snd (tlv_delete t tag)) tag = None"
    using tlv_get_entries [OF conjunct2 [OF tlv_delete_entries [OF t, of tag]]]
    by (simp add: AList.delete_conv')
  have "drop (tlv_size t) (tlv_buffer t) = rest" using b by simp
  then show ?thesis
    using get tlv_init_finds [OF t] tlv_init_entries [OF d(2,1), of rest] unfolding del b(1,3) by auto
qed

theorem tlv_delete_last_resurrected_witness:
  "\<exists>t'. tlv_init (Some (tlv_buffer (snd (tlv_delete
        \<lparr>tlv_buffer = enc_entries [(1, [9])] @ replicate 8 0, tlv_capacity = 15, tlv_size = 7\<rparr> 1)))) 15 =
      (TLV_SUCCESS, Some t') \<and> tlv_get t' 1 = Some [9]"
proof -
  let ?t = "\<lparr>tlv_buffer = enc_entries [(1, [9])] @ replicate 8 0, tlv_capacity = 15, tlv_size = 7\<rparr>"
  have e: "tlv_entries ?t ([] @ [(1, [9])])" by (simp add: tlv_entries_def entry_ok_def)
  have "drop 7 (tlv_buffer ?t) = replicate 8 0" by simp
  moreover have "of_le32 (replicate 8 0) = TLV_TAG_END_SENTINEL" by (simp add: of_le32_def)
  ultimately show ?thesis using tlv_delete_last_resurrected [OF e] by auto
qed

end
