(* ===== verification/Langpack.thy ===== *)
theory Langpack
  imports Tlv
begin

text \<open>
  The string table of \<open>lib/langpack\<close>, a client of the TLV store: a language pack is a
  3-byte header followed by TLV records whose tags are string identifiers.  A failed
  \<open>ASSERT\<close> is \<open>None\<close>; a returned C string is the list of bytes at the returned pointer.
\<close>

record langpack_priv_t =
  db :: tlv_t

record langpack_hdr_v1_t =
  hdr_version :: u8
  hdr_len :: u8
  hdr_type :: u8

abbreviation LANGPACK_TYPE_ASCII :: u8 where "LANGPACK_TYPE_ASCII \<equiv> 1"
abbreviation sizeof_langpack_hdr :: nat where "sizeof_langpack_hdr \<equiv> 3"

definition langpack_hdr :: "bytes \<Rightarrow> langpack_hdr_v1_t" where
  "langpack_hdr mem = \<lparr>hdr_version = mem ! 0, hdr_len = mem ! 1, hdr_type = mem ! 2\<rparr>"

definition langpack_load :: "langpack_priv_t \<Rightarrow> bytes option \<Rightarrow> langpack_priv_t option" where
  "langpack_load priv langpack_mem =
     (case langpack_mem of
        None \<Rightarrow> None
      | Some mem \<Rightarrow>
          let langpack_size = length mem
          in if langpack_size < sizeof_langpack_hdr then None
             else let hdr = langpack_hdr mem
               in if hdr_version hdr \<noteq> 1 then None
                  else if langpack_size < unat (hdr_len hdr) then None
                  else if hdr_type hdr \<noteq> LANGPACK_TYPE_ASCII then None
                  else let data = drop (unat (hdr_len hdr)) mem;
                           data_size = langpack_size - unat (hdr_len hdr)
                    in case tlv_init (Some data) data_size of
                         (TLV_SUCCESS, Some t) \<Rightarrow> Some (priv\<lparr>db := t\<rparr>)
                       | _ \<Rightarrow> None)"

definition langpack_get_string :: "bool \<Rightarrow> langpack_priv_t \<Rightarrow> u32 \<Rightarrow> bytes option" where
  "langpack_get_string CONFIG_PROD priv ident =
     (case tlv_lookup (db priv) ident of
        Inr (string_len, string) \<Rightarrow>
          if string_len = 0 then if CONFIG_PROD then Some [] else None
          else string
      | Inl _ \<Rightarrow> if CONFIG_PROD then Some [] else None)"

lemma langpack_load_pack:
  assumes "list_all entry_ok es" "distinct (map fst es)"
    and "rest = [] \<and> es \<noteq> [] \<or> 6 \<le> length rest \<and> of_le32 rest = TLV_TAG_END_SENTINEL"
  obtains t where "langpack_load priv (Some ([1, 3, LANGPACK_TYPE_ASCII] @ enc_entries es @ rest)) =
      Some (priv\<lparr>db := t\<rparr>)" and "tlv_entries t es"
  using tlv_init_entries [OF assms]
  by (auto simp: langpack_load_def langpack_hdr_def Let_def)

text \<open>C34: A pack with a valid header and well-formed records loads, and every string of the
  pack is then returned by its identifier; an identifier that is not in the pack gives the
  empty string in production builds and halts in others.\<close>

theorem langpack_strings:
  assumes "list_all entry_ok es" "distinct (map fst es)"
    and "rest = [] \<and> es \<noteq> [] \<or> 6 \<le> length rest \<and> of_le32 rest = TLV_TAG_END_SENTINEL"
  shows "\<exists>priv'. langpack_load priv (Some ([1, 3, LANGPACK_TYPE_ASCII] @ enc_entries es @ rest)) =
           Some priv' \<and>
         (\<forall>ident. langpack_get_string is_prod priv' ident =
            (case map_of es ident of
               Some (c # cs) \<Rightarrow> Some (c # cs)
             | _ \<Rightarrow> if is_prod then Some [] else None))"
proof -
  obtain t where t: "langpack_load priv (Some ([1, 3, LANGPACK_TYPE_ASCII] @ enc_entries es @ rest)) =
      Some (priv\<lparr>db := t\<rparr>)" "tlv_entries t es"
    using assms by (rule langpack_load_pack)
  have "langpack_get_string is_prod (priv\<lparr>db := t\<rparr>) ident =
      (case map_of es ident of
         Some (c # cs) \<Rightarrow> Some (c # cs) | _ \<Rightarrow> if is_prod then Some [] else None)" for ident
    using t(2)
    by (simp add: langpack_get_string_def tlv_lookup_entries split: option.split list.split)
  with t(1) show ?thesis by blast
qed

theorem langpack_strings_witness:
  "\<exists>priv'. langpack_load \<lparr>db = tlv_empty 0\<rparr>
       (Some ([1, 3, LANGPACK_TYPE_ASCII] @ enc_entries [(5, [72, 105, 0])] @ [])) = Some priv' \<and>
     langpack_get_string True priv' 5 = Some [72, 105, 0] \<and>
     langpack_get_string True priv' 6 = Some []"
proof -
  obtain priv' where
    "langpack_load \<lparr>db = tlv_empty 0\<rparr>
       (Some ([1, 3, LANGPACK_TYPE_ASCII] @ enc_entries [(5, [72, 105, 0])] @ [])) = Some priv'"
    and get: "\<forall>ident. langpack_get_string True priv' ident =
       (case map_of [(5, [72, 105, 0])] ident of
          Some (c # cs) \<Rightarrow> Some (c # cs) | _ \<Rightarrow> if True then Some [] else None)"
    using langpack_strings [of "[(5, [72, 105, 0])]" "[]" "\<lparr>db = tlv_empty 0\<rparr>" True]
    by (auto simp: entry_ok_def)
  moreover from get have "langpack_get_string True priv' 5 = Some [72, 105, 0]"
    "langpack_get_string True priv' 6 = Some []" by simp_all
  ultimately show ?thesis by blast
qed

end
