(* ===== verification/Filesystem.thy ===== *)
theory Filesystem
  imports Prelude
begin

text \<open>
  The file system layer \<open>lib/filesystem\<close>: \<open>filesystem.c\<close> wraps littlefs with a mutex and
  shares one file object, guarded by a semaphore, among all tasks; \<open>filesystem_util.c\<close>
  reads and writes whole files through it.  littlefs is third-party code: its functions are
  the fields of \<open>lfs_ops\<close>, an argument \<open>L\<close> of every operation, over an abstract medium
  \<open>'m\<close> (the mounted \<open>lfs_t\<close> with the storage and the open handles).  A file handle is the
  address of its \<open>fs_file_t\<close>.  Performance counters and log output have no effect here.
\<close>

section \<open>State\<close>

type_synonym file_addr = nat

datatype lfs_type = LFS_TYPE_REG | LFS_TYPE_DIR

datatype fs_filetype_t = FS_FILE_TYPE_ERR | FS_FILE_TYPE_REG | FS_FILE_TYPE_DIR

record lfs_info =
  info_type :: lfs_type
  info_size :: u32
  info_name :: string

record fs_dir_info_t =
  dir_type :: fs_filetype_t
  dir_size :: u32
  dir_name :: string

record 'm lfs_ops =
  lfs_file_opencfg :: "'m \<Rightarrow> file_addr \<Rightarrow> string \<Rightarrow> u32 \<Rightarrow> int \<times> 'm"
  lfs_file_close :: "'m \<Rightarrow> file_addr \<Rightarrow> int \<times> 'm"
  lfs_file_sync :: "'m \<Rightarrow> file_addr \<Rightarrow> int \<times> 'm"
  lfs_file_read :: "'m \<Rightarrow> file_addr \<Rightarrow> nat \<Rightarrow> int \<times> bytes \<times> 'm"
  lfs_file_write :: "'m \<Rightarrow> file_addr \<Rightarrow> bytes \<Rightarrow> int \<times> 'm"
  lfs_file_seek :: "'m \<Rightarrow> file_addr \<Rightarrow> int \<Rightarrow> nat \<Rightarrow> int \<times> 'm"
  lfs_file_truncate :: "'m \<Rightarrow> file_addr \<Rightarrow> u32 \<Rightarrow> int \<times> 'm"
  lfs_file_tell :: "'m \<Rightarrow> file_addr \<Rightarrow> int \<times> 'm"
  lfs_file_rewind :: "'m \<Rightarrow> file_addr \<Rightarrow> int \<times> 'm"
  lfs_file_size :: "'m \<Rightarrow> file_addr \<Rightarrow> int \<times> 'm"
  lfs_remove :: "'m \<Rightarrow> string \<Rightarrow> int \<times> 'm"
  lfs_rename :: "'m \<Rightarrow> string \<Rightarrow> string \<Rightarrow> int \<times> 'm"
  lfs_stat :: "'m \<Rightarrow> string \<Rightarrow> int \<times> lfs_info \<times> 'm"
  lfs_mkdir :: "'m \<Rightarrow> string \<Rightarrow> int \<times> 'm"
  lfs_fs_size :: "'m \<Rightarrow> int \<times> 'm"
  lfs_dir_open :: "'m \<Rightarrow> file_addr \<Rightarrow> string \<Rightarrow> int \<times> 'm"
  lfs_dir_close :: "'m \<Rightarrow> file_addr \<Rightarrow> int \<times> 'm"
  lfs_dir_read :: "'m \<Rightarrow> file_addr \<Rightarrow> int \<times> lfs_info \<times> 'm"
  lfs_dir_seek :: "'m \<Rightarrow> file_addr \<Rightarrow> u32 \<Rightarrow> int \<times> 'm"
  lfs_dir_tell :: "'m \<Rightarrow> file_addr \<Rightarrow> int \<times> 'm"
  lfs_dir_rewind :: "'m \<Rightarrow> file_addr \<Rightarrow> int \<times> 'm"
  LFS_ERR_EXIST :: int

text \<open>
  The static variables of \<open>filesystem.c\<close>.  Whether a given acquisition of the mutex
  succeeds is decided by the environment: the \<open>n\<close>-th attempt yields \<open>fs_lock_outcome n\<close>.
  \<open>g_file_access_lock\<close> is true while the semaphore can be taken.
\<close>

record 'm fs_state =
  fs_lfs :: "'m option"
  is_fs_ready :: bool
  is_mounted :: bool
  g_file_access_lock :: bool
  fs_in_isr :: bool
  fs_lock_outcome :: "nat \<Rightarrow> bool"
  fs_lock_count :: nat

abbreviation FS_O_RDONLY :: u32 where "FS_O_RDONLY \<equiv> 1"
abbreviation FS_O_WRONLY :: u32 where "FS_O_WRONLY \<equiv> 2"
abbreviation FS_O_RDWR :: u32 where "FS_O_RDWR \<equiv> 3"
abbreviation FS_O_CREAT :: u32 where "FS_O_CREAT \<equiv> 0x100"
abbreviation FS_O_TRUNC :: u32 where "FS_O_TRUNC \<equiv> 0x400"
abbreviation FS_O_APPEND :: u32 where "FS_O_APPEND \<equiv> 0x800"

abbreviation FS_SEEK_SET :: nat where "FS_SEEK_SET \<equiv> 0"
abbreviation FS_SEEK_CUR :: nat where "FS_SEEK_CUR \<equiv> 1"
abbreviation FS_SEEK_END :: nat where "FS_SEEK_END \<equiv> 2"

abbreviation FS_FILE_NAME_MAX_LEN :: nat where "FS_FILE_NAME_MAX_LEN \<equiv> 255"

text \<open>The addresses of the two static file objects, \<open>g_file\<close> and \<open>touch_file\<close>.\<close>

definition g_file :: file_addr where
  "g_file = 0"

definition touch_file :: file_addr where
  "touch_file = 1"

lemma g_file_neq_touch_file [simp]: "g_file \<noteq> touch_file" "touch_file \<noteq> g_file"
  by (simp_all add: g_file_def touch_file_def)

section \<open>Mounting and locking\<close>

definition fs_mount_task :: "'m option \<Rightarrow> 'm fs_state \<Rightarrow> 'm fs_state" where
  "fs_mount_task bd_mount s =
     (let s = s\<lparr>g_file_access_lock := True, fs_lfs := bd_mount\<rparr>
      in if bd_mount \<noteq> None then s\<lparr>is_mounted := True, is_fs_ready := True\<rparr> else s)"

definition fs_lock :: "'m fs_state \<Rightarrow> bool \<times> 'm fs_state" where
  "fs_lock s = (fs_lock_outcome s (fs_lock_count s), s\<lparr>fs_lock_count := Suc (fs_lock_count s)\<rparr>)"

text \<open>The macro \<open>LOCK_UNLOCK\<close>; \<open>dflt\<close> is what an output argument holds if nothing ran.\<close>

definition LOCK_UNLOCK ::
  "'o \<Rightarrow> ('m \<Rightarrow> int \<times> 'o \<times> 'm) \<Rightarrow> 'm \<Rightarrow> 'm fs_state \<Rightarrow> int \<times> 'o \<times> 'm fs_state" where
  "LOCK_UNLOCK dflt f m s =
     (case fs_lock s of (locked, s) \<Rightarrow>
        if locked then (case f m of (r, out, m') \<Rightarrow> (r, out, s\<lparr>fs_lfs := Some m'\<rparr>))
        else (-1, dflt, s))"

text \<open>A call that fails with -1 when nothing is mounted, and else runs under the lock.\<close>

definition fs_call ::
  "'o \<Rightarrow> ('m \<Rightarrow> int \<times> 'o \<times> 'm) \<Rightarrow> 'm fs_state \<Rightarrow> int \<times> 'o \<times> 'm fs_state" where
  "fs_call dflt f s =
     (case fs_lfs s of None \<Rightarrow> (-1, dflt, s) | Some m \<Rightarrow> LOCK_UNLOCK dflt f m s)"

text \<open>The same for the calls allowed in interrupt context, where the lock is not taken.\<close>

definition fs_call_isr ::
  "('m \<Rightarrow> int \<times> 'm) \<Rightarrow> 'm fs_state \<Rightarrow> int \<times> 'm fs_state" where
  "fs_call_isr f s =
     (case fs_lfs s of
        None \<Rightarrow> (-1, s)
      | Some m \<Rightarrow>
          if fs_in_isr s then (case f m of (r, m') \<Rightarrow> (r, s\<lparr>fs_lfs := Some m'\<rparr>))
          else (case LOCK_UNLOCK () (\<lambda>m. case f m of (r, m') \<Rightarrow> (r, (), m')) m s of
                  (r, _, s') \<Rightarrow> (r, s')))"

text \<open>\<open>fs_call\<close> for a function with no output argument.\<close>

definition fs_call0 :: "('m \<Rightarrow> int \<times> 'm) \<Rightarrow> 'm fs_state \<Rightarrow> int \<times> 'm fs_state" where
  "fs_call0 f s =
     (case fs_call () (\<lambda>m. case f m of (r, m') \<Rightarrow> (r, (), m')) s of (r, _, s') \<Rightarrow> (r, s'))"

definition fs_is_busy :: "bool \<Rightarrow> 'm fs_state \<Rightarrow> bool" where
  "fs_is_busy mutex_held s = (if mutex_held then True else \<not> g_file_access_lock s)"

section \<open>Files\<close>

definition fs_used :: "'m lfs_ops \<Rightarrow> 'm fs_state \<Rightarrow> int \<times> 'm fs_state" where
  "fs_used L s = fs_call0 (lfs_fs_size L) s"

definition fs_open ::
  "'m lfs_ops \<Rightarrow> file_addr \<Rightarrow> string \<Rightarrow> u32 \<Rightarrow> 'm fs_state \<Rightarrow> int \<times> 'm fs_state" where
  "fs_open L file path flags s = fs_call_isr (\<lambda>m. lfs_file_opencfg L m file path flags) s"

definition fs_close :: "'m lfs_ops \<Rightarrow> file_addr \<Rightarrow> 'm fs_state \<Rightarrow> int \<times> 'm fs_state" where
  "fs_close L file s = fs_call_isr (\<lambda>m. lfs_file_close L m file) s"

definition fs_open_global ::
  "'m lfs_ops \<Rightarrow> string \<Rightarrow> u32 \<Rightarrow> 'm fs_state \<Rightarrow> int \<times> 'm fs_state" where
  "fs_open_global L path flags s =
     (if \<not> g_file_access_lock s then (-1, s)
      else case fs_open L g_file path flags (s\<lparr>g_file_access_lock := False\<rparr>) of (ret, s) \<Rightarrow>
        if ret \<noteq> 0 then (ret, s\<lparr>g_file_access_lock := True\<rparr>) else (ret, s))"

definition fs_close_global :: "'m lfs_ops \<Rightarrow> 'm fs_state \<Rightarrow> int \<times> 'm fs_state" where
  "fs_close_global L s =
     (case fs_close L g_file s of (ret, s) \<Rightarrow> (ret, s\<lparr>g_file_access_lock := True\<rparr>))"

definition fs_remove :: "'m lfs_ops \<Rightarrow> string \<Rightarrow> 'm fs_state \<Rightarrow> int \<times> 'm fs_state" where
  "fs_remove L path s = fs_call0 (\<lambda>m. lfs_remove L m path) s"

definition fs_rename :: "'m lfs_ops \<Rightarrow> string \<Rightarrow> string \<Rightarrow> 'm fs_state \<Rightarrow> int \<times> 'm fs_state" where
  "fs_rename L oldpath newpath s = fs_call0 (\<lambda>m. lfs_rename L m oldpath newpath) s"

definition fs_stat_call ::
  "'m lfs_ops \<Rightarrow> string \<Rightarrow> 'm fs_state \<Rightarrow> int \<times> lfs_info option \<times> 'm fs_state" where
  "fs_stat_call L path s =
     fs_call None (\<lambda>m. case lfs_stat L m path of (r, info, m') \<Rightarrow> (r, Some info, m')) s"

definition fs_get_filetype :: "'m lfs_ops \<Rightarrow> string \<Rightarrow> 'm fs_state \<Rightarrow> fs_filetype_t \<times> 'm fs_state" where
  "fs_get_filetype L path s =
     (case fs_stat_call L path s of (ret, info, s) \<Rightarrow>
        if ret < 0 then (FS_FILE_TYPE_ERR, s)
        else case info of
          None \<Rightarrow> (FS_FILE_TYPE_ERR, s)
        | Some i \<Rightarrow> (case info_type i of
            LFS_TYPE_REG \<Rightarrow> (FS_FILE_TYPE_REG, s)
          | LFS_TYPE_DIR \<Rightarrow> (FS_FILE_TYPE_DIR, s)))"

definition fs_file_exists :: "'m lfs_ops \<Rightarrow> string \<Rightarrow> 'm fs_state \<Rightarrow> bool \<times> 'm fs_state" where
  "fs_file_exists L path s =
     (case fs_get_filetype L path s of (ret, s) \<Rightarrow> (ret = FS_FILE_TYPE_REG, s))"

definition fs_get_filesize :: "'m lfs_ops \<Rightarrow> string \<Rightarrow> 'm fs_state \<Rightarrow> int \<times> 'm fs_state" where
  "fs_get_filesize L path s =
     (case fs_stat_call L path s of (ret, info, s) \<Rightarrow>
        if ret < 0 then (ret, s)
        else case info of
          None \<Rightarrow> (-1, s)
        | Some i \<Rightarrow>
            if info_type i = LFS_TYPE_REG then (sint (info_size i), s) else (-1, s))"

definition fs_touch :: "'m lfs_ops \<Rightarrow> string \<Rightarrow> 'm fs_state \<Rightarrow> int \<times> 'm fs_state" where
  "fs_touch L path s =
     (case fs_call0 (\<lambda>m. lfs_file_opencfg L m touch_file path FS_O_CREAT) s of (ret, s) \<Rightarrow>
        if ret < 0 then (ret, s)
        else fs_call0 (\<lambda>m. lfs_file_close L m touch_file) s)"

definition fs_file_sync :: "'m lfs_ops \<Rightarrow> file_addr \<Rightarrow> 'm fs_state \<Rightarrow> int \<times> 'm fs_state" where
  "fs_file_sync L file s = fs_call0 (\<lambda>m. lfs_file_sync L m file) s"

definition fs_file_read ::
  "'m lfs_ops \<Rightarrow> file_addr \<Rightarrow> nat \<Rightarrow> 'm fs_state \<Rightarrow> int \<times> bytes \<times> 'm fs_state" where
  "fs_file_read L file sz s = fs_call [] (\<lambda>m. lfs_file_read L m file sz) s"

definition fs_file_write ::
  "'m lfs_ops \<Rightarrow> file_addr \<Rightarrow> bytes \<Rightarrow> 'm fs_state \<Rightarrow> int \<times> 'm fs_state" where
  "fs_file_write L file buffer s = fs_call_isr (\<lambda>m. lfs_file_write L m file buffer) s"

definition fs_file_seek ::
  "'m lfs_ops \<Rightarrow> file_addr \<Rightarrow> int \<Rightarrow> nat \<Rightarrow> 'm fs_state \<Rightarrow> int \<times> 'm fs_state" where
  "fs_file_seek L file off whence s = fs_call_isr (\<lambda>m. lfs_file_seek L m file off whence) s"

definition fs_file_truncate ::
  "'m lfs_ops \<Rightarrow> file_addr \<Rightarrow> int \<Rightarrow> 'm fs_state \<Rightarrow> int \<times> 'm fs_state" where
  "fs_file_truncate L file sz s = fs_call0 (\<lambda>m. lfs_file_truncate L m file (word_of_int sz)) s"

definition fs_file_tell :: "'m lfs_ops \<Rightarrow> file_addr \<Rightarrow> 'm fs_state \<Rightarrow> int \<times> 'm fs_state" where
  "fs_file_tell L file s = fs_call0 (\<lambda>m. lfs_file_tell L m file) s"

definition fs_file_rewind :: "'m lfs_ops \<Rightarrow> file_addr \<Rightarrow> 'm fs_state \<Rightarrow> int \<times> 'm fs_state" where
  "fs_file_rewind L file s = fs_call0 (\<lambda>m. lfs_file_rewind L m file) s"

definition fs_file_size :: "'m lfs_ops \<Rightarrow> file_addr \<Rightarrow> 'm fs_state \<Rightarrow> int \<times> 'm fs_state" where
  "fs_file_size L file s = fs_call_isr (\<lambda>m. lfs_file_size L m file) s"

section \<open>Directories\<close>

definition fs_mkdir :: "'m lfs_ops \<Rightarrow> string \<Rightarrow> 'm fs_state \<Rightarrow> int \<times> 'm fs_state" where
  "fs_mkdir L path s = fs_call0 (\<lambda>m. lfs_mkdir L m path) s"

text \<open>
  The loop of \<open>fs_ensure_file_path\<close> over the characters not yet visited; \<open>None\<close> is a write
  past the end of the 255-byte \<open>temp_path\<close>.
\<close>

fun ensure_path_loop ::
  "'m lfs_ops \<Rightarrow> string \<Rightarrow> string \<Rightarrow> 'm fs_state \<Rightarrow> (int \<times> 'm fs_state) option" where
  "ensure_path_loop L seen [] s = Some (0, s)"
| "ensure_path_loop L seen (c # cs) s =
     (if c = CHR ''/'' then
        if FS_FILE_NAME_MAX_LEN \<le> length seen then None
        else case fs_call0 (\<lambda>m. lfs_mkdir L m seen) s of (ret, s) \<Rightarrow>
          if ret < 0 \<and> ret \<noteq> LFS_ERR_EXIST L then Some (ret, s)
          else ensure_path_loop L (seen @ [c]) cs s
      else ensure_path_loop L (seen @ [c]) cs s)"

definition fs_ensure_file_path ::
  "'m lfs_ops \<Rightarrow> string \<Rightarrow> 'm fs_state \<Rightarrow> (int \<times> 'm fs_state) option" where
  "fs_ensure_file_path L path s =
     (if fs_lfs s = None then Some (-1, s) else ensure_path_loop L [] path s)"

definition fs_dir_open ::
  "'m lfs_ops \<Rightarrow> file_addr \<Rightarrow> string \<Rightarrow> 'm fs_state \<Rightarrow> int \<times> 'm fs_state" where
  "fs_dir_open L dir path s = fs_call0 (\<lambda>m. lfs_dir_open L m dir path) s"

definition fs_dir_close :: "'m lfs_ops \<Rightarrow> file_addr \<Rightarrow> 'm fs_state \<Rightarrow> int \<times> 'm fs_state" where
  "fs_dir_close L dir s = fs_call0 (\<lambda>m. lfs_dir_close L m dir) s"

definition fs_dir_read ::
  "'m lfs_ops \<Rightarrow> file_addr \<Rightarrow> fs_dir_info_t \<Rightarrow> 'm fs_state \<Rightarrow> int \<times> fs_dir_info_t \<times> 'm fs_state" where
  "fs_dir_read L dir info s =
     (case fs_call None (\<lambda>m. case lfs_dir_read L m dir of (r, i, m') \<Rightarrow> (r, Some i, m')) s of
        (ret, lfs_info, s) \<Rightarrow>
        case lfs_info of
          None \<Rightarrow> (ret, info, s)
        | Some i \<Rightarrow>
            if 0 \<le> ret then
              (ret, \<lparr>dir_type = (case info_type i of LFS_TYPE_REG \<Rightarrow> FS_FILE_TYPE_REG
                                               | LFS_TYPE_DIR \<Rightarrow> FS_FILE_TYPE_DIR),
                     dir_size = info_size i, dir_name = info_name i\<rparr>, s)
            else (ret, info, s))"

definition fs_dir_seek ::
  "'m lfs_ops \<Rightarrow> file_addr \<Rightarrow> int \<Rightarrow> 'm fs_state \<Rightarrow> int \<times> 'm fs_state" where
  "fs_dir_seek L dir off s = fs_call0 (\<lambda>m. lfs_dir_seek L m dir (word_of_int off)) s"

definition fs_dir_tell :: "'m lfs_ops \<Rightarrow> file_addr \<Rightarrow> 'm fs_state \<Rightarrow> int \<times> 'm fs_state" where
  "fs_dir_tell L dir s = fs_call0 (\<lambda>m. lfs_dir_tell L m dir) s"

definition fs_dir_rewind :: "'m lfs_ops \<Rightarrow> file_addr \<Rightarrow> 'm fs_state \<Rightarrow> int \<times> 'm fs_state" where
  "fs_dir_rewind L dir s = fs_call0 (\<lambda>m. lfs_dir_rewind L m dir) s"

section \<open>Whole-file access through the global file\<close>

text \<open>
  \<open>filesystem_util.c\<close>.  The first component of a read is the return value, the second what
  the call stored in the caller's buffer.  \<open>None\<close> is a failed assertion.
\<close>

definition fs_util_write_global ::
  "'m lfs_ops \<Rightarrow> string \<Rightarrow> bytes \<Rightarrow> 'm fs_state \<Rightarrow> (bool \<times> 'm fs_state) option" where
  "fs_util_write_global L filename data s =
     (if data = [] then None
      else Some (case fs_open_global L filename (FS_O_CREAT OR FS_O_RDWR) s of (ret, s) \<Rightarrow>
        if ret \<noteq> 0 then (False, s)
        else case fs_file_write L g_file data s of (ret, s) \<Rightarrow>
          if ret \<noteq> int (length data) then
            (case fs_close_global L s of (_, s) \<Rightarrow> (False, s))
          else case fs_close_global L s of (ret, s) \<Rightarrow> (ret = 0, s)))"

definition fs_util_read_global ::
  "'m lfs_ops \<Rightarrow> string \<Rightarrow> nat \<Rightarrow> 'm fs_state \<Rightarrow> (bool \<times> bytes \<times> 'm fs_state) option" where
  "fs_util_read_global L filename sz s =
     (if sz = 0 then None
      else Some (case fs_open_global L filename FS_O_RDWR s of (ret, s) \<Rightarrow>
        if ret \<noteq> 0 then (False, [], s)
        else case fs_file_read L g_file sz s of (ret, data, s) \<Rightarrow>
          if ret < 0 \<or> nat ret \<noteq> sz then
            (case fs_close_global L s of (_, s) \<Rightarrow> (False, data, s))
          else case fs_close_global L s of (ret, s) \<Rightarrow> (ret = 0, data, s)))"

text \<open>The second component is the buffer contents together with \<open>*size_out\<close>.\<close>

definition fs_util_read_all_global ::
  "'m lfs_ops \<Rightarrow> string \<Rightarrow> nat \<Rightarrow> 'm fs_state \<Rightarrow> bool \<times> (bytes \<times> nat) \<times> 'm fs_state" where
  "fs_util_read_all_global L filename max_size s =
     (case fs_open_global L filename FS_O_RDWR s of (ret, s) \<Rightarrow>
        if ret \<noteq> 0 then (False, ([], 0), s)
        else case fs_file_size L g_file s of (size_or_err, s) \<Rightarrow>
          if size_or_err \<le> 0 then
            if size_or_err = 0 then
              (case fs_close_global L s of (ret, s) \<Rightarrow> (ret = 0, ([], 0), s))
            else (case fs_close_global L s of (_, s) \<Rightarrow> (False, ([], 0), s))
          else let sz = nat size_or_err
            in if max_size < sz then
                 (case fs_close_global L s of (_, s) \<Rightarrow> (False, ([], 0), s))
               else case fs_file_read L g_file sz s of (ret, data, s) \<Rightarrow>
                 if ret < 0 \<or> nat ret \<noteq> sz then
                   (case fs_close_global L s of (_, s) \<Rightarrow> (False, (data, 0), s))
                 else case fs_close_global L s of (ret, s) \<Rightarrow> (ret = 0, (data, sz), s))"

end
