(* ===== verification/Littlefs.thy ===== *)
theory Littlefs
  imports Filesystem
begin

text \<open>
  What the firmware relies on of littlefs, as a locale over two observations of the medium:
  the committed contents of the regular files and the open handles.  The laws are the
  documented behaviour: a file is created by opening it with the create flag, writes stay
  private to the handle until a successful sync or close, a handle whose write failed commits
  nothing, and a failed call changes no file.  The lemmas lift them to the global-file
  operations; \<open>ram_lfs\<close> is a littlefs kept in memory on which the locale is interpreted.
\<close>

record open_file =
  of_path :: string
  of_data :: bytes
  of_pos :: nat
  of_append :: bool
  of_erred :: bool

text \<open>Writing at a position of a file; a gap is filled with zeros.\<close>

definition file_put :: "bytes \<Rightarrow> nat \<Rightarrow> bytes \<Rightarrow> bytes" where
  "file_put w pos d = take pos (w @ replicate (pos - length w) 0) @ d @ drop (pos + length d) w"

text \<open>The position after a seek, if it is one.\<close>

definition seek_target :: "open_file \<Rightarrow> int \<Rightarrow> nat \<Rightarrow> int" where
  "seek_target f off whence =
     (if whence = FS_SEEK_SET then off
      else if whence = FS_SEEK_CUR then int (of_pos f) + off
      else int (length (of_data f)) + off)"

locale littlefs =
  fixes L :: "'m lfs_ops"
    and content :: "'m \<Rightarrow> string \<Rightarrow> bytes option"
    and opened :: "'m \<Rightarrow> file_addr \<Rightarrow> open_file option"
  assumes open_ok: "lfs_file_opencfg L m h p fl = (r, m') \<Longrightarrow> opened m h = None \<Longrightarrow> r = 0 \<Longrightarrow>
      \<exists>c. (content m p = Some c \<or> content m p = None \<and> c = [] \<and> fl AND FS_O_CREAT \<noteq> 0) \<and>
        content m' = (content m)(p \<mapsto> c) \<and>
        opened m' = (opened m)(h \<mapsto>
          \<lparr>of_path = p, of_data = (if fl AND FS_O_TRUNC \<noteq> 0 then [] else c), of_pos = 0,
           of_append = (fl AND FS_O_APPEND \<noteq> 0), of_erred = False\<rparr>)"
    and open_fail: "lfs_file_opencfg L m h p fl = (r, m') \<Longrightarrow> opened m h = None \<Longrightarrow> r \<noteq> 0 \<Longrightarrow>
      r < 0 \<and> opened m' = opened m \<and>
      (content m' = content m \<or> content m p = None \<and> content m' = (content m)(p \<mapsto> []))"
    and read_law: "lfs_file_read L m h n = (r, bs, m') \<Longrightarrow> opened m h = Some f \<Longrightarrow>
      content m' = content m \<and> length bs \<le> n \<and>
      (if r < 0 then opened m' = opened m
       else bs = take n (drop (of_pos f) (of_data f)) \<and> r = int (length bs) \<and>
            opened m' = (opened m)(h \<mapsto> f\<lparr>of_pos := of_pos f + length bs\<rparr>))"
    and write_law: "lfs_file_write L m h d = (r, m') \<Longrightarrow> opened m h = Some f \<Longrightarrow>
      content m' = content m \<and>
      (if r < 0 then \<exists>g. opened m' = (opened m)(h \<mapsto> g) \<and> of_path g = of_path f \<and> of_erred g
       else r = int (length d) \<and>
         opened m' = (opened m)(h \<mapsto>
           (let pos = (if of_append f then length (of_data f) else of_pos f)
            in f\<lparr>of_data := file_put (of_data f) pos d, of_pos := pos + length d\<rparr>)))"
    and seek_law: "lfs_file_seek L m h off whence = (r, m') \<Longrightarrow> opened m h = Some f \<Longrightarrow>
      content m' = content m \<and>
      (if r < 0 then opened m' = opened m
       else r = seek_target f off whence \<and> opened m' = (opened m)(h \<mapsto> f\<lparr>of_pos := nat r\<rparr>))"
    and truncate_law: "lfs_file_truncate L m h k = (r, m') \<Longrightarrow> opened m h = Some f \<Longrightarrow>
      content m' = content m \<and>
      (if r < 0 then opened m' = opened m
       else opened m' = (opened m)(h \<mapsto> f\<lparr>of_data :=
         take (unat k) (of_data f @ replicate (unat k - length (of_data f)) 0)\<rparr>))"
    and size_law: "lfs_file_size L m h = (r, m') \<Longrightarrow> opened m h = Some f \<Longrightarrow>
      content m' = content m \<and> opened m' = opened m \<and> (0 \<le> r \<longrightarrow> r = int (length (of_data f)))"
    and close_law: "lfs_file_close L m h = (r, m') \<Longrightarrow> opened m h = Some f \<Longrightarrow>
      opened m' = (opened m)(h := None) \<and>
      content m' = (if r = 0 \<and> \<not> of_erred f then (content m)(of_path f \<mapsto> of_data f) else content m)"
    and remove_law: "lfs_remove L m p = (r, m') \<Longrightarrow>
      opened m' = opened m \<and>
      content m' = (if r = 0 then (content m)(p := None) else content m)"
    and stat_law: "lfs_stat L m p = (r, info, m') \<Longrightarrow>
      content m' = content m \<and> opened m' = opened m \<and>
      (0 \<le> r \<longrightarrow> (info_type info = LFS_TYPE_REG \<longleftrightarrow> content m p \<noteq> None) \<and>
                 (\<forall>c. content m p = Some c \<longrightarrow> info_size info = word_of_nat (length c)))"

text \<open>A usable state: mounted, the mutex is obtained whenever it is asked for, and the global
  static file objects are neither held nor open.\<close>

definition fs_usable :: "'m fs_state \<Rightarrow> bool" where
  "fs_usable s = (fs_lfs s \<noteq> None \<and> (\<forall>n. fs_lock_outcome s n))"

definition fs_files :: "('m \<Rightarrow> string \<Rightarrow> bytes option) \<Rightarrow> 'm fs_state \<Rightarrow> string \<Rightarrow> bytes option" where
  "fs_files content s = content (the (fs_lfs s))"

definition fs_handle ::
  "('m \<Rightarrow> file_addr \<Rightarrow> open_file option) \<Rightarrow> 'm fs_state \<Rightarrow> file_addr \<Rightarrow> open_file option" where
  "fs_handle opened s = opened (the (fs_lfs s))"

definition fs_idle :: "('m \<Rightarrow> file_addr \<Rightarrow> open_file option) \<Rightarrow> 'm fs_state \<Rightarrow> bool" where
  "fs_idle opened s =
     (fs_usable s \<and> g_file_access_lock s \<and>
      fs_handle opened s g_file = None \<and> fs_handle opened s touch_file = None)"

definition fs_held ::
  "('m \<Rightarrow> file_addr \<Rightarrow> open_file option) \<Rightarrow> 'm fs_state \<Rightarrow> open_file \<Rightarrow> bool" where
  "fs_held opened s f =
     (fs_usable s \<and> \<not> g_file_access_lock s \<and>
      fs_handle opened s g_file = Some f \<and> fs_handle opened s touch_file = None)"

text \<open>With the mutex available every call runs, and only the medium and the count of lock
  attempts change.\<close>

lemma fs_call_isr_usable:
  assumes "fs_usable s" "fs_lfs s = Some m" "f m = (r, m')"
  shows "fs_call_isr f s =
     (r, s\<lparr>fs_lfs := Some m',
          fs_lock_count := (if fs_in_isr s then fs_lock_count s else Suc (fs_lock_count s))\<rparr>)"
  using assms by (simp add: fs_call_isr_def LOCK_UNLOCK_def fs_lock_def fs_usable_def)

lemma fs_call_usable:
  assumes "fs_usable s" "fs_lfs s = Some m" "f m = (r, out, m')"
  shows "fs_call dflt f s =
     (r, out, s\<lparr>fs_lfs := Some m', fs_lock_count := Suc (fs_lock_count s)\<rparr>)"
  using assms by (simp add: fs_call_def LOCK_UNLOCK_def fs_lock_def fs_usable_def)

lemma fs_call0_usable:
  assumes "fs_usable s" "fs_lfs s = Some m" "f m = (r, m')"
  shows "fs_call0 f s = (r, s\<lparr>fs_lfs := Some m', fs_lock_count := Suc (fs_lock_count s)\<rparr>)"
  unfolding fs_call0_def
  using fs_call_usable [of s m "\<lambda>m. case f m of (r, m') \<Rightarrow> (r, (), m')" r "()" m'] assms by simp

lemma fs_usable_obtain:
  assumes "fs_usable s"
  obtains m where "fs_lfs s = Some m"
  using assms by (auto simp: fs_usable_def)

context littlefs
begin

text \<open>The single steps on the global file, over states.\<close>

lemma open_global_cases:
  assumes "fs_idle opened s" "fs_open_global L p fl s = (r, s')"
  shows "(r = 0 \<and> (\<exists>c. (fs_files content s p = Some c \<or>
              fs_files content s p = None \<and> c = [] \<and> fl AND FS_O_CREAT \<noteq> 0) \<and>
            fs_files content s' = (fs_files content s)(p \<mapsto> c) \<and>
            fs_held opened s'
              \<lparr>of_path = p, of_data = (if fl AND FS_O_TRUNC \<noteq> 0 then [] else c), of_pos = 0,
               of_append = (fl AND FS_O_APPEND \<noteq> 0), of_erred = False\<rparr>)) \<or>
     (r < 0 \<and> fs_idle opened s' \<and>
        (fs_files content s' = fs_files content s \<or>
         fs_files content s p = None \<and> fs_files content s' = (fs_files content s)(p \<mapsto> [])))"
proof -
  have u: "fs_usable s" "g_file_access_lock s" "fs_handle opened s g_file = None"
    "fs_handle opened s touch_file = None"
    using assms(1) by (simp_all add: fs_idle_def)
  then obtain m where m: "fs_lfs s = Some m" by (auto elim: fs_usable_obtain)
  obtain r1 m1 where o: "lfs_file_opencfg L m g_file p fl = (r1, m1)" by fastforce
  have h: "opened m g_file = None" using u(3) m by (simp add: fs_handle_def)
  let ?c = "if fs_in_isr s then fs_lock_count s else Suc (fs_lock_count s)"
  have call: "fs_call_isr (\<lambda>m. lfs_file_opencfg L m g_file p fl) (s\<lparr>g_file_access_lock := False\<rparr>) =
      (r1, s\<lparr>g_file_access_lock := False, fs_lfs := Some m1, fs_lock_count := ?c\<rparr>)"
    using fs_call_isr_usable [of "s\<lparr>g_file_access_lock := False\<rparr>" m
        "\<lambda>m. lfs_file_opencfg L m g_file p fl", OF _ _ o] u(1) m
    by (simp add: fs_usable_def)
  show ?thesis
  proof (cases "r1 = 0")
    case True
    with assms(2) u(2) call
    have s': "r = 0" "s' = s\<lparr>g_file_access_lock := False, fs_lfs := Some m1, fs_lock_count := ?c\<rparr>"
      by (simp_all add: fs_open_global_def fs_open_def)
    show ?thesis
      using open_ok [OF o h True] u m unfolding s'
      by (auto simp: fs_files_def fs_held_def fs_usable_def fs_handle_def)
  next
    case False
    with assms(2) u(2) call
    have s': "r = r1" "s' = s\<lparr>fs_lfs := Some m1, fs_lock_count := ?c, g_file_access_lock := True\<rparr>"
      by (simp_all add: fs_open_global_def fs_open_def split: if_splits)
    show ?thesis
      using open_fail [OF o h False] u m h unfolding s'
      by (auto simp: fs_files_def fs_idle_def fs_usable_def fs_handle_def)
  qed
qed

lemma close_global_cases:
  assumes "fs_held opened s f" "fs_close_global L s = (r, s')"
  shows "fs_idle opened s' \<and>
     fs_files content s' =
       (if r = 0 \<and> \<not> of_erred f then (fs_files content s)(of_path f \<mapsto> of_data f)
        else fs_files content s)"
proof -
  have u: "fs_usable s" "fs_handle opened s g_file = Some f" "fs_handle opened s touch_file = None"
    using assms(1) by (simp_all add: fs_held_def)
  then obtain m where m: "fs_lfs s = Some m" by (auto elim: fs_usable_obtain)
  obtain r1 m1 where c: "lfs_file_close L m g_file = (r1, m1)" by fastforce
  have h: "opened m g_file = Some f" using u(2) m by (simp add: fs_handle_def)
  have s': "r = r1" "\<exists>k. s' = s\<lparr>fs_lfs := Some m1, fs_lock_count := k, g_file_access_lock := True\<rparr>"
    using assms(2) fs_call_isr_usable [OF u(1) m, of "\<lambda>m. lfs_file_close L m g_file", OF c]
    by (auto simp: fs_close_global_def fs_close_def)
  then obtain k where k: "s' = s\<lparr>fs_lfs := Some m1, fs_lock_count := k, g_file_access_lock := True\<rparr>"
    by blast
  show ?thesis
    unfolding k s'(1) using close_law [OF c h] u m
    by (simp add: fs_idle_def fs_usable_def fs_handle_def fs_files_def)
qed

lemma file_write_cases:
  assumes "fs_held opened s f" "fs_file_write L g_file d s = (r, s')"
  shows "fs_files content s' = fs_files content s \<and>
     (if r < 0 then \<exists>g. fs_held opened s' g \<and> of_path g = of_path f \<and> of_erred g
      else r = int (length d) \<and>
        fs_held opened s' (let pos = (if of_append f then length (of_data f) else of_pos f)
            in f\<lparr>of_data := file_put (of_data f) pos d, of_pos := pos + length d\<rparr>))"
proof -
  have u: "fs_usable s" "fs_handle opened s g_file = Some f" "\<not> g_file_access_lock s"
    "fs_handle opened s touch_file = None"
    using assms(1) by (simp_all add: fs_held_def)
  then obtain m where m: "fs_lfs s = Some m" by (auto elim: fs_usable_obtain)
  obtain r1 m1 where w: "lfs_file_write L m g_file d = (r1, m1)" by fastforce
  have h: "opened m g_file = Some f" using u(2) m by (simp add: fs_handle_def)
  obtain k where k: "r = r1" "s' = s\<lparr>fs_lfs := Some m1, fs_lock_count := k\<rparr>"
    using assms(2) fs_call_isr_usable [OF u(1) m, of "\<lambda>m. lfs_file_write L m g_file d", OF w]
    by (auto simp: fs_file_write_def)
  show ?thesis
    unfolding k using write_law [OF w h] u m
    by (auto simp: fs_held_def fs_usable_def fs_handle_def fs_files_def Let_def)
qed

lemma file_read_cases:
  assumes "fs_held opened s f" "fs_file_read L g_file n s = (r, bs, s')"
  shows "fs_files content s' = fs_files content s \<and> length bs \<le> n \<and>
     (if r < 0 then fs_held opened s' f
      else bs = take n (drop (of_pos f) (of_data f)) \<and> r = int (length bs) \<and>
        fs_held opened s' (f\<lparr>of_pos := of_pos f + length bs\<rparr>))"
proof -
  have u: "fs_usable s" "fs_handle opened s g_file = Some f" "\<not> g_file_access_lock s"
    "fs_handle opened s touch_file = None"
    using assms(1) by (simp_all add: fs_held_def)
  then obtain m where m: "fs_lfs s = Some m" by (auto elim: fs_usable_obtain)
  obtain r1 b1 m1 where w: "lfs_file_read L m g_file n = (r1, b1, m1)" by (metis surj_pair)
  have h: "opened m g_file = Some f" using u(2) m by (simp add: fs_handle_def)
  have k: "r = r1" "bs = b1"
    "s' = s\<lparr>fs_lfs := Some m1, fs_lock_count := Suc (fs_lock_count s)\<rparr>"
    using assms(2) fs_call_usable [OF u(1) m, of "\<lambda>m. lfs_file_read L m g_file n", OF w]
    by (auto simp: fs_file_read_def)
  show ?thesis
    unfolding k using read_law [OF w h] u m
    by (auto simp: fs_held_def fs_usable_def fs_handle_def fs_files_def)
qed

lemma file_size_cases:
  assumes "fs_held opened s f" "fs_file_size L g_file s = (r, s')"
  shows "fs_files content s' = fs_files content s \<and> fs_held opened s' f \<and>
     (0 \<le> r \<longrightarrow> r = int (length (of_data f)))"
proof -
  have u: "fs_usable s" "fs_handle opened s g_file = Some f" "\<not> g_file_access_lock s"
    "fs_handle opened s touch_file = None"
    using assms(1) by (simp_all add: fs_held_def)
  then obtain m where m: "fs_lfs s = Some m" by (auto elim: fs_usable_obtain)
  obtain r1 m1 where w: "lfs_file_size L m g_file = (r1, m1)" by fastforce
  have h: "opened m g_file = Some f" using u(2) m by (simp add: fs_handle_def)
  obtain k where k: "r = r1" "s' = s\<lparr>fs_lfs := Some m1, fs_lock_count := k\<rparr>"
    using assms(2) fs_call_isr_usable [OF u(1) m, of "\<lambda>m. lfs_file_size L m g_file", OF w]
    by (auto simp: fs_file_size_def)
  show ?thesis
    unfolding k using size_law [OF w h] u m
    by (auto simp: fs_held_def fs_usable_def fs_handle_def fs_files_def)
qed

text \<open>Whole-file operations.\<close>

lemma write_global:
  assumes "fs_idle opened s" "fs_util_write_global L p d s = Some (ok, s')"
  shows "fs_idle opened s' \<and>
     (\<forall>q. q \<noteq> p \<longrightarrow> fs_files content s' q = fs_files content s q) \<and>
     (if ok then fs_files content s' p =
          Some (d @ drop (length d) (case fs_files content s p of None \<Rightarrow> [] | Some c \<Rightarrow> c))
      else fs_files content s' p = fs_files content s p \<or>
           fs_files content s p = None \<and> fs_files content s' p = Some [])"
proof -
  obtain r1 s1 where o: "fs_open_global L p (FS_O_CREAT OR FS_O_RDWR) s = (r1, s1)" by fastforce
  have flags: "(FS_O_CREAT OR FS_O_RDWR) AND FS_O_TRUNC = 0"
    "(FS_O_CREAT OR FS_O_RDWR) AND FS_O_APPEND = 0" by simp_all
  note oc = open_global_cases [OF assms(1) o, unfolded flags]
  show ?thesis
  proof (cases "r1 = 0")
    case False
    then show ?thesis using oc o assms(2) by (auto simp: fs_util_write_global_def split: if_splits)
  next
    case True
    with oc obtain c where c: "fs_files content s p = Some c \<or> fs_files content s p = None \<and> c = []"
      "fs_files content s1 = (fs_files content s)(p \<mapsto> c)"
      and h: "fs_held opened s1 \<lparr>of_path = p, of_data = c, of_pos = 0, of_append = False,
        of_erred = False\<rparr>" (is "fs_held _ _ ?f")
      by auto
    obtain r2 s2 where w: "fs_file_write L g_file d s1 = (r2, s2)" by fastforce
    note wc = file_write_cases [OF h w]
    obtain r3 s3 where cl: "fs_close_global L s2 = (r3, s3)" by fastforce
    have s': "s' = s3" "ok \<longleftrightarrow> r2 = int (length d) \<and> r3 = 0"
      using assms(2) o w cl True by (auto simp: fs_util_write_global_def split: if_splits)
    show ?thesis
    proof (cases "r2 < 0")
      case True
      with wc obtain g where g: "fs_held opened s2 g" "of_erred g" by auto
      show ?thesis
        using close_global_cases [OF g(1) cl] g(2) wc c True unfolding s' by auto
    next
      case False
      then have g: "fs_held opened s2 (?f\<lparr>of_data := file_put c 0 d, of_pos := length d\<rparr>)"
        "r2 = int (length d)" using wc by (auto simp: Let_def)
      show ?thesis
        using close_global_cases [OF g(1) cl] g(2) wc c unfolding s'
        by (auto simp: file_put_def)
    qed
  qed
qed

text \<open>Closing a handle that was opened without truncation and only read.\<close>

lemma close_after_read:
  assumes h: "fs_held opened s f" and cl: "fs_close_global L s = (r, s')"
    and f: "fs_files content s (of_path f) = Some (of_data f)"
  shows "fs_idle opened s' \<and> fs_files content s' = fs_files content s"
  using close_global_cases [OF h cl] f by (auto simp: fun_upd_idem)

lemma open_global_read:
  assumes i: "fs_idle opened s" and o: "fs_open_global L p fl s = (0, s')"
    and fl: "fl AND FS_O_CREAT = 0" "fl AND FS_O_TRUNC = 0"
  obtains c where "fs_files content s p = Some c" "fs_files content s' = fs_files content s"
    "fs_held opened s' \<lparr>of_path = p, of_data = c, of_pos = 0,
       of_append = (fl AND FS_O_APPEND \<noteq> 0), of_erred = False\<rparr>"
  using open_global_cases [OF i o] fl by (auto simp: fun_upd_idem)

lemma open_global_failed:
  assumes i: "fs_idle opened s" and o: "fs_open_global L p fl s = (r, s')" and r: "r \<noteq> 0"
    and fl: "fl AND FS_O_CREAT = 0"
  shows "fs_idle opened s' \<and> (\<forall>q. q \<noteq> p \<longrightarrow> fs_files content s' q = fs_files content s q) \<and>
     (fs_files content s p \<noteq> None \<longrightarrow> fs_files content s' = fs_files content s)"
  using open_global_cases [OF i o] r by auto

lemma read_global:
  assumes i: "fs_idle opened s" and rd: "fs_util_read_global L p n s = Some (ok, bs, s')"
  shows "fs_idle opened s' \<and> length bs \<le> n \<and>
     (\<forall>q c. fs_files content s q = Some c \<longrightarrow> fs_files content s' q = Some c) \<and>
     (fs_files content s p \<noteq> None \<longrightarrow> fs_files content s' = fs_files content s) \<and>
     (ok \<longrightarrow> fs_files content s' = fs_files content s \<and>
       (\<exists>c. fs_files content s p = Some c \<and> n \<le> length c \<and> bs = take n c))"
proof -
  obtain r1 s1 where o: "fs_open_global L p FS_O_RDWR s = (r1, s1)" by fastforce
  show ?thesis
  proof (cases "r1 = 0")
    case False
    then show ?thesis
      using open_global_cases [OF i o] o rd by (auto simp: fs_util_read_global_def split: if_splits)
  next
    case True
    obtain c where c: "fs_files content s p = Some c" "fs_files content s1 = fs_files content s"
      and h: "fs_held opened s1 \<lparr>of_path = p, of_data = c, of_pos = 0, of_append = False,
        of_erred = False\<rparr>" (is "fs_held _ _ ?f")
      by (rule open_global_read [OF i o [unfolded True]]) simp_all
    obtain r2 b2 s2 where w: "fs_file_read L g_file n s1 = (r2, b2, s2)" by (metis surj_pair)
    obtain r3 s3 where cl: "fs_close_global L s2 = (r3, s3)" by fastforce
    note rc = file_read_cases [OF h w]
    have s': "s' = s3" "bs = b2" "ok \<longleftrightarrow> \<not> (r2 < 0 \<or> nat r2 \<noteq> n) \<and> r3 = 0"
      using rd o w cl True by (auto simp: fs_util_read_global_def split: if_splits)
    obtain g where g: "fs_held opened s2 g" "of_path g = p" "of_data g = c"
      using rc by (auto split: if_splits)
    have "fs_idle opened s3 \<and> fs_files content s3 = fs_files content s2"
      using close_after_read [OF g(1) cl] g rc c by simp
    then show ?thesis using rc c unfolding s' by (auto split: if_splits)
  qed
qed

lemma read_all_global:
  assumes i: "fs_idle opened s" and rd: "fs_util_read_all_global L p mx s = (ok, (bs, sz), s')"
  shows "fs_idle opened s' \<and>
     (\<forall>q c. fs_files content s q = Some c \<longrightarrow> fs_files content s' q = Some c) \<and>
     (ok \<longrightarrow> fs_files content s' = fs_files content s \<and>
       fs_files content s p = Some bs \<and> sz = length bs \<and> (bs = [] \<or> length bs \<le> mx))"
proof -
  obtain r1 s1 where o: "fs_open_global L p FS_O_RDWR s = (r1, s1)" by fastforce
  show ?thesis
  proof (cases "r1 = 0")
    case False
    then show ?thesis
      using open_global_cases [OF i o] o rd
      by (auto simp: fs_util_read_all_global_def split: if_splits)
  next
    case True
    obtain c where c: "fs_files content s p = Some c" "fs_files content s1 = fs_files content s"
      and h: "fs_held opened s1 \<lparr>of_path = p, of_data = c, of_pos = 0, of_append = False,
        of_erred = False\<rparr>" (is "fs_held _ _ ?f")
      by (rule open_global_read [OF i o [unfolded True]]) simp_all
    obtain r0 s0 where z: "fs_file_size L g_file s1 = (r0, s0)" by fastforce
    note zc = file_size_cases [OF h z]
    obtain r2 b2 s2 where w: "fs_file_read L g_file (nat r0) s0 = (r2, b2, s2)" by (metis surj_pair)
    note rc = file_read_cases [OF conjunct1 [OF conjunct2 [OF zc]] w]
    obtain ra sa where ca: "fs_close_global L s0 = (ra, sa)" by fastforce
    obtain rb sb where cb: "fs_close_global L s2 = (rb, sb)" by fastforce
    have A: "fs_idle opened sa \<and> fs_files content sa = fs_files content s"
      using close_after_read [OF conjunct1 [OF conjunct2 [OF zc]] ca] zc c by simp
    obtain g where g: "fs_held opened s2 g" "of_path g = p" "of_data g = c"
      using rc by (auto split: if_splits)
    have B: "fs_idle opened sb \<and> fs_files content sb = fs_files content s"
      using close_after_read [OF g(1) cb] g rc zc c by simp
    have "(ok, (bs, sz), s') =
       (if r0 \<le> 0 then if r0 = 0 then (ra = 0, ([], 0), sa) else (False, ([], 0), sa)
        else if mx < nat r0 then (False, ([], 0), sa)
        else if r2 < 0 \<or> nat r2 \<noteq> nat r0 then (False, (b2, 0), sb)
        else (rb = 0, (b2, nat r0), sb))"
      unfolding rd [symmetric] by (simp add: fs_util_read_all_global_def o z w ca cb True Let_def)
    then show ?thesis using A B c zc rc by (auto split: if_splits)
  qed
qed

lemma remove_cases:
  assumes i: "fs_usable s" and rm: "fs_remove L p s = (r, s')"
  shows "fs_usable s' \<and> fs_handle opened s' = fs_handle opened s \<and>
     g_file_access_lock s' = g_file_access_lock s \<and>
     fs_files content s' =
       (if r = 0 then (fs_files content s)(p := None) else fs_files content s)"
proof -
  obtain m where m: "fs_lfs s = Some m" using i by (rule fs_usable_obtain)
  obtain r1 m1 where w: "lfs_remove L m p = (r1, m1)" by fastforce
  have k: "r = r1" "s' = s\<lparr>fs_lfs := Some m1, fs_lock_count := Suc (fs_lock_count s)\<rparr>"
    using rm fs_call0_usable [OF i m, of "\<lambda>m. lfs_remove L m p", OF w]
    by (auto simp: fs_remove_def)
  show ?thesis
    unfolding k using remove_law [OF w] i m
    by (auto simp: fs_usable_def fs_handle_def fs_files_def)
qed

lemma remove_idle:
  assumes "fs_idle opened s" "fs_remove L p s = (r, s')"
  shows "fs_idle opened s' \<and> fs_files content s' =
       (if r = 0 then (fs_files content s)(p := None) else fs_files content s)"
  using remove_cases [OF _ assms(2)] assms(1) by (simp add: fs_idle_def)

lemma stat_cases:
  assumes i: "fs_usable s" and st: "fs_stat_call L p s = (r, info, s')"
  shows "fs_usable s' \<and> fs_handle opened s' = fs_handle opened s \<and>
     g_file_access_lock s' = g_file_access_lock s \<and> fs_files content s' = fs_files content s \<and>
     (0 \<le> r \<longrightarrow> (\<exists>i. info = Some i \<and>
        (info_type i = LFS_TYPE_REG \<longleftrightarrow> fs_files content s p \<noteq> None) \<and>
        (\<forall>c. fs_files content s p = Some c \<longrightarrow> info_size i = word_of_nat (length c))))"
proof -
  obtain m where m: "fs_lfs s = Some m" using i by (rule fs_usable_obtain)
  obtain r1 i1 m1 where w: "lfs_stat L m p = (r1, i1, m1)" by (metis surj_pair)
  have k: "r = r1" "info = Some i1"
    "s' = s\<lparr>fs_lfs := Some m1, fs_lock_count := Suc (fs_lock_count s)\<rparr>"
    using st fs_call_usable [OF i m, of "\<lambda>m. case lfs_stat L m p of (r, i, m') \<Rightarrow> (r, Some i, m')"] w
    by (auto simp: fs_stat_call_def)
  show ?thesis
    unfolding k using stat_law [OF w] i m
    by (auto simp: fs_usable_def fs_handle_def fs_files_def)
qed

lemma exists_cases:
  assumes i: "fs_usable s" and ex: "fs_file_exists L p s = (b, s')"
  shows "fs_usable s' \<and> fs_handle opened s' = fs_handle opened s \<and>
     g_file_access_lock s' = g_file_access_lock s \<and> fs_files content s' = fs_files content s \<and>
     (b \<longrightarrow> fs_files content s p \<noteq> None)"
proof -
  obtain r info s1 where st: "fs_stat_call L p s = (r, info, s1)" by (metis surj_pair)
  note sc = stat_cases [OF i st]
  have "s' = s1" "b \<longrightarrow> 0 \<le> r \<and> (\<exists>i. info = Some i \<and> info_type i = LFS_TYPE_REG)"
    using ex st by (auto simp: fs_file_exists_def fs_get_filetype_def
        split: if_splits option.splits lfs_type.splits)
  with sc show ?thesis by auto
qed

lemma exists_idle:
  assumes "fs_idle opened s" "fs_file_exists L p s = (b, s')"
  shows "fs_idle opened s' \<and> fs_files content s' = fs_files content s \<and>
     (b \<longrightarrow> fs_files content s p \<noteq> None)"
  using exists_cases [OF _ assms(2)] assms(1) by (simp add: fs_idle_def)

lemma touch_idle:
  assumes i: "fs_idle opened s" and tc: "fs_touch L p s = (r, s')"
  shows "fs_idle opened s' \<and>
     (fs_files content s' = fs_files content s \<or>
      fs_files content s p = None \<and> fs_files content s' = (fs_files content s)(p \<mapsto> [])) \<and>
     (r = 0 \<longrightarrow> fs_files content s' p \<noteq> None)"
proof -
  have u: "fs_usable s" "g_file_access_lock s" "fs_handle opened s g_file = None"
    "fs_handle opened s touch_file = None"
    using i by (simp_all add: fs_idle_def)
  then obtain m where m: "fs_lfs s = Some m" by (auto elim: fs_usable_obtain)
  obtain r1 m1 where o: "lfs_file_opencfg L m touch_file p FS_O_CREAT = (r1, m1)" by fastforce
  have h: "opened m touch_file = None" using u(4) m by (simp add: fs_handle_def)
  let ?s1 = "s\<lparr>fs_lfs := Some m1, fs_lock_count := Suc (fs_lock_count s)\<rparr>"
  have c1: "fs_call0 (\<lambda>m. lfs_file_opencfg L m touch_file p FS_O_CREAT) s = (r1, ?s1)"
    using fs_call0_usable [OF u(1) m, of "\<lambda>m. lfs_file_opencfg L m touch_file p FS_O_CREAT", OF o] .
  show ?thesis
  proof (cases "r1 = 0")
    case False
    then show ?thesis
      using open_fail [OF o h] tc c1 u m
      by (auto simp: fs_touch_def fs_idle_def fs_usable_def fs_handle_def fs_files_def)
  next
    case True
    obtain r2 m2 where cl: "lfs_file_close L m1 touch_file = (r2, m2)" by fastforce
    have u1: "fs_usable ?s1" "fs_lfs ?s1 = Some m1" using u(1) by (simp_all add: fs_usable_def)
    have s': "r = r2" "s' = ?s1\<lparr>fs_lfs := Some m2, fs_lock_count := Suc (fs_lock_count ?s1)\<rparr>"
      using tc c1 True fs_call0_usable [OF u1, of "\<lambda>m. lfs_file_close L m touch_file", OF cl]
      by (simp_all add: fs_touch_def)
    obtain c where c: "content m p = Some c \<or> content m p = None \<and> c = []"
      "content m1 = (content m)(p \<mapsto> c)"
      "opened m1 = (opened m)(touch_file \<mapsto> \<lparr>of_path = p, of_data = c, of_pos = 0,
         of_append = False, of_erred = False\<rparr>)"
      using open_ok [OF o h True] by auto
    note cm = close_law [OF cl, unfolded c(3), OF fun_upd_same]
    have "content m2 = content m1" using cm c by (simp add: fun_upd_idem)
    moreover have "opened m2 = opened m" using cm h by (auto simp: fun_upd_idem)
    ultimately show ?thesis
      unfolding s' using u m c
      by (auto simp: fs_idle_def fs_usable_def fs_handle_def fs_files_def fun_upd_idem)
  qed
qed

end

section \<open>A littlefs in memory\<close>

record ram_t =
  ram_files :: "string \<Rightarrow> bytes option"
  ram_open :: "file_addr \<Rightarrow> open_file option"

definition ram_opencfg :: "ram_t \<Rightarrow> file_addr \<Rightarrow> string \<Rightarrow> u32 \<Rightarrow> int \<times> ram_t" where
  "ram_opencfg m h p fl =
     (case ram_files m p of
        None \<Rightarrow>
          if fl AND FS_O_CREAT = 0 then (-2, m)
          else (0, \<lparr>ram_files = (ram_files m)(p \<mapsto> []),
                    ram_open = (ram_open m)(h \<mapsto> \<lparr>of_path = p, of_data = [], of_pos = 0,
                       of_append = (fl AND FS_O_APPEND \<noteq> 0), of_erred = False\<rparr>)\<rparr>)
      | Some c \<Rightarrow>
          (0, m\<lparr>ram_open := (ram_open m)(h \<mapsto> \<lparr>of_path = p,
                   of_data = (if fl AND FS_O_TRUNC \<noteq> 0 then [] else c), of_pos = 0,
                   of_append = (fl AND FS_O_APPEND \<noteq> 0), of_erred = False\<rparr>)\<rparr>))"

text \<open>Calls on a handle that is not open return \<open>LFS_ERR_BADF\<close> (-9).\<close>

definition ram_upd :: "ram_t \<Rightarrow> file_addr \<Rightarrow> (open_file \<Rightarrow> int \<times> open_file) \<Rightarrow> int \<times> ram_t" where
  "ram_upd m h f =
     (case ram_open m h of
        None \<Rightarrow> (-9, m)
      | Some g \<Rightarrow> (case f g of (r, g') \<Rightarrow>
          if r < 0 then (r, m) else (r, m\<lparr>ram_open := (ram_open m)(h \<mapsto> g')\<rparr>)))"

definition ram_read :: "ram_t \<Rightarrow> file_addr \<Rightarrow> nat \<Rightarrow> int \<times> bytes \<times> ram_t" where
  "ram_read m h n =
     (case ram_open m h of
        None \<Rightarrow> (-9, [], m)
      | Some f \<Rightarrow>
          let bs = take n (drop (of_pos f) (of_data f))
          in (int (length bs), bs,
              m\<lparr>ram_open := (ram_open m)(h \<mapsto> f\<lparr>of_pos := of_pos f + length bs\<rparr>)\<rparr>))"

definition ram_close :: "bool \<Rightarrow> ram_t \<Rightarrow> file_addr \<Rightarrow> int \<times> ram_t" where
  "ram_close closing m h =
     (case ram_open m h of
        None \<Rightarrow> (-9, m)
      | Some f \<Rightarrow>
          (0, \<lparr>ram_files = (if of_erred f then ram_files m else (ram_files m)(of_path f \<mapsto> of_data f)),
               ram_open = (if closing then (ram_open m)(h := None) else ram_open m)\<rparr>))"

definition ram_stat :: "ram_t \<Rightarrow> string \<Rightarrow> int \<times> lfs_info \<times> ram_t" where
  "ram_stat m p =
     (case ram_files m p of
        None \<Rightarrow> (-2, \<lparr>info_type = LFS_TYPE_DIR, info_size = 0, info_name = []\<rparr>, m)
      | Some c \<Rightarrow> (0, \<lparr>info_type = LFS_TYPE_REG, info_size = word_of_nat (length c), info_name = p\<rparr>, m))"

text \<open>Directories and renaming are not supported by this instance.\<close>

definition ram_lfs :: "ram_t lfs_ops" where
  "ram_lfs = \<lparr>
     lfs_file_opencfg = ram_opencfg,
     lfs_file_close = ram_close True,
     lfs_file_sync = ram_close False,
     lfs_file_read = ram_read,
     lfs_file_write = (\<lambda>m h d. ram_upd m h (\<lambda>f.
       let pos = (if of_append f then length (of_data f) else of_pos f)
       in (int (length d), f\<lparr>of_data := file_put (of_data f) pos d, of_pos := pos + length d\<rparr>))),
     lfs_file_seek = (\<lambda>m h off whence. ram_upd m h (\<lambda>f.
       let t = seek_target f off whence in (if t < 0 then -22 else t, f\<lparr>of_pos := nat t\<rparr>))),
     lfs_file_truncate = (\<lambda>m h k. ram_upd m h (\<lambda>f. (0, f\<lparr>of_data :=
       take (unat k) (of_data f @ replicate (unat k - length (of_data f)) 0)\<rparr>))),
     lfs_file_tell = (\<lambda>m h. ram_upd m h (\<lambda>f. (int (of_pos f), f))),
     lfs_file_rewind = (\<lambda>m h. ram_upd m h (\<lambda>f. (0, f\<lparr>of_pos := 0\<rparr>))),
     lfs_file_size = (\<lambda>m h. ram_upd m h (\<lambda>f. (int (length (of_data f)), f))),
     lfs_remove = (\<lambda>m p. if ram_files m p = None then (-2, m)
                        else (0, m\<lparr>ram_files := (ram_files m)(p := None)\<rparr>)),
     lfs_rename = (\<lambda>m p q. (-22, m)),
     lfs_stat = ram_stat,
     lfs_mkdir = (\<lambda>m p. (-22, m)),
     lfs_fs_size = (\<lambda>m. (0, m)),
     lfs_dir_open = (\<lambda>m d p. (-2, m)),
     lfs_dir_close = (\<lambda>m d. (-9, m)),
     lfs_dir_read = (\<lambda>m d. (-9, \<lparr>info_type = LFS_TYPE_DIR, info_size = 0, info_name = []\<rparr>, m)),
     lfs_dir_seek = (\<lambda>m d off. (-9, m)),
     lfs_dir_tell = (\<lambda>m d. (-9, m)),
     lfs_dir_rewind = (\<lambda>m d. (-9, m)),
     LFS_ERR_EXIST = -17\<rparr>"

interpretation ram: littlefs ram_lfs ram_files ram_open
  by unfold_locales
    (auto simp: ram_lfs_def ram_opencfg_def ram_read_def ram_close_def ram_stat_def ram_upd_def
      Let_def fun_upd_idem split: option.splits if_splits)

lemma ram_lfs_simps [simp]:
  "lfs_file_opencfg ram_lfs = ram_opencfg"
  "lfs_file_close ram_lfs = ram_close True"
  "lfs_file_read ram_lfs = ram_read"
  "lfs_file_write ram_lfs m h d = ram_upd m h (\<lambda>f.
     let pos = (if of_append f then length (of_data f) else of_pos f)
     in (int (length d), f\<lparr>of_data := file_put (of_data f) pos d, of_pos := pos + length d\<rparr>))"
  "lfs_file_seek ram_lfs m h off whence = ram_upd m h (\<lambda>f.
     let t = seek_target f off whence in (if t < 0 then -22 else t, f\<lparr>of_pos := nat t\<rparr>))"
  "lfs_file_truncate ram_lfs m h k = ram_upd m h (\<lambda>f. (0, f\<lparr>of_data :=
     take (unat k) (of_data f @ replicate (unat k - length (of_data f)) 0)\<rparr>))"
  "lfs_file_size ram_lfs m h = ram_upd m h (\<lambda>f. (int (length (of_data f)), f))"
  "lfs_remove ram_lfs m p = (if ram_files m p = None then (-2, m)
     else (0, m\<lparr>ram_files := (ram_files m)(p := None)\<rparr>))"
  "lfs_stat ram_lfs = ram_stat"
  by (simp_all add: ram_lfs_def)

lemmas ram_defs = Let_def ram_opencfg_def ram_read_def ram_close_def ram_stat_def ram_upd_def
  file_put_def seek_target_def

text \<open>A mounted, idle file system on it.\<close>

definition ram_fs :: "(string \<Rightarrow> bytes option) \<Rightarrow> ram_t fs_state" where
  "ram_fs files = \<lparr>fs_lfs = Some \<lparr>ram_files = files, ram_open = (\<lambda>_. None)\<rparr>, is_fs_ready = True,
     is_mounted = True, g_file_access_lock = True, fs_in_isr = False,
     fs_lock_outcome = (\<lambda>_. True), fs_lock_count = 0\<rparr>"

lemma ram_fs_idle: "fs_idle ram_open (ram_fs files)"
  by (simp add: ram_fs_def fs_idle_def fs_usable_def fs_handle_def)

lemma ram_fs_files [simp]: "fs_files ram_files (ram_fs files) = files"
  by (simp add: ram_fs_def fs_files_def)

lemmas fs_exec_defs = fs_open_global_def fs_open_def fs_close_global_def fs_close_def
  fs_call_isr_def fs_call_def fs_call0_def LOCK_UNLOCK_def fs_lock_def fs_file_write_def
  fs_file_read_def fs_file_size_def fs_file_seek_def fs_file_truncate_def fs_remove_def
  fs_file_exists_def fs_get_filetype_def fs_stat_call_def fs_touch_def
  fs_util_write_global_def fs_util_read_global_def fs_util_read_all_global_def

section \<open>Properties\<close>

text \<open>C25: Writing a file through the global file object changes no other file and is atomic:
  either it reports success and the file holds the data followed by whatever the old contents
  had beyond it (the file is not truncated), or it reports failure and the file is unchanged,
  or empty if it did not exist.  The global file is released in both cases.\<close>

theorem fs_write_global_atomic:
  assumes "littlefs L content opened" "fs_idle opened s"
    and "fs_util_write_global L p d s = Some (ok, s')"
  shows "fs_idle opened s' \<and>
     (\<forall>q. q \<noteq> p \<longrightarrow> fs_files content s' q = fs_files content s q) \<and>
     (if ok then fs_files content s' p =
          Some (d @ drop (length d) (case fs_files content s p of None \<Rightarrow> [] | Some c \<Rightarrow> c))
      else fs_files content s' p = fs_files content s p \<or>
           fs_files content s p = None \<and> fs_files content s' p = Some [])"
  using assms by (rule littlefs.write_global)

theorem fs_write_global_atomic_witness:
  "\<exists>s'. fs_util_write_global ram_lfs ''f'' [9] (ram_fs [''f'' \<mapsto> [1, 2, 3]]) = Some (True, s') \<and>
        fs_files ram_files s' ''f'' = Some [9, 2, 3]"
proof -
  obtain s' where w: "fs_util_write_global ram_lfs ''f'' [9] (ram_fs [''f'' \<mapsto> [1, 2, 3]]) =
      Some (True, s')"
    by (simp add: fs_exec_defs ram_defs ram_fs_def)
  from fs_write_global_atomic [OF ram.littlefs_axioms ram_fs_idle w] w show ?thesis by auto
qed

text \<open>C26: Reading a whole file through the global file object succeeds only with the exact
  committed contents, never with a partial or an oversized read, and changes no file.\<close>

theorem fs_read_all_global_exact:
  assumes "littlefs L content opened" "fs_idle opened s"
    and "fs_util_read_all_global L p max_size s = (True, (bs, sz), s')"
  shows "fs_files content s p = Some bs \<and> sz = length bs \<and> length bs \<le> max_size \<and>
     fs_files content s' = fs_files content s \<and> fs_idle opened s'"
  using littlefs.read_all_global [OF assms] by auto

theorem fs_read_all_global_exact_witness:
  "\<exists>s'. fs_util_read_all_global ram_lfs ''f'' 8 (ram_fs [''f'' \<mapsto> [1, 2, 3]]) =
          (True, ([1, 2, 3], 3), s') \<and>
        fs_files ram_files s' = [''f'' \<mapsto> [1, 2, 3]]"
proof -
  obtain s' where r: "fs_util_read_all_global ram_lfs ''f'' 8 (ram_fs [''f'' \<mapsto> [1, 2, 3]]) =
      (True, ([1, 2, 3], 3), s')"
    by (simp add: fs_exec_defs ram_defs ram_fs_def)
  from fs_read_all_global_exact [OF ram.littlefs_axioms ram_fs_idle r] r show ?thesis by auto
qed

text \<open>C27: The global file object is exclusive: an attempt to open it while it is held fails,
  touches no file, and leaves it held.\<close>

theorem fs_open_global_exclusive:
  assumes "fs_open_global L p fl s = (0, s1)"
  shows "\<not> g_file_access_lock s1 \<and> fs_open_global L q gl s1 = (-1, s1)"
  using assms
  by (auto simp: fs_open_global_def fs_open_def fs_call_isr_def LOCK_UNLOCK_def fs_lock_def
      split: if_splits option.splits prod.splits)

theorem fs_open_global_exclusive_witness:
  "\<exists>s1. fs_open_global ram_lfs ''f'' FS_O_RDWR (ram_fs [''f'' \<mapsto> [1]]) = (0, s1) \<and>
        fs_open_global ram_lfs ''g'' FS_O_CREAT s1 = (-1, s1)"
proof -
  obtain s1 where o: "fs_open_global ram_lfs ''f'' FS_O_RDWR (ram_fs [''f'' \<mapsto> [1]]) = (0, s1)"
    by (simp add: fs_exec_defs ram_defs ram_fs_def)
  from fs_open_global_exclusive [OF o] o show ?thesis by blast
qed

end
