(* ===== verification/Kv.thy ===== *)
theory Kv
  imports Littlefs
begin

text \<open>
  The key-value store of \<open>lib/kv\<close>: fixed 64-byte records (an 11-byte NUL-padded key, a length
  byte, 52 bytes of value) kept in a RAM image of at most 64 records and mirrored in one file.
  A C string is its list of characters before the NUL.  The lock callbacks given to \<open>kv_init\<close>
  have no effect on the sequential behaviour; that they are present is the Boolean argument.
\<close>

section \<open>C strings\<close>

definition strnlen :: "bytes \<Rightarrow> nat \<Rightarrow> nat" where
  "strnlen s n = length (takeWhile (\<lambda>c. c \<noteq> 0) (take n s))"

definition strncpy :: "bytes \<Rightarrow> nat \<Rightarrow> bytes" where
  "strncpy s n = (let p = takeWhile (\<lambda>c. c \<noteq> 0) (take n s) in p @ replicate (n - length p) 0)"

text \<open>\<open>strncmp(a, b, n) == 0\<close>; a list that has ended reads as NUL.\<close>

fun hd0 :: "bytes \<Rightarrow> u8" where
  "hd0 [] = 0"
| "hd0 (c # cs) = c"

fun strncmp_eq :: "bytes \<Rightarrow> bytes \<Rightarrow> nat \<Rightarrow> bool" where
  "strncmp_eq a b 0 = True"
| "strncmp_eq a b (Suc n) = (hd0 a = hd0 b \<and> (hd0 a = 0 \<or> strncmp_eq (tl a) (tl b) n))"

section \<open>The store\<close>

abbreviation KV_MAX_KEY_LEN :: nat where "KV_MAX_KEY_LEN \<equiv> 11"
abbreviation KV_MAX_VALUE_LEN :: nat where "KV_MAX_VALUE_LEN \<equiv> 52"
abbreviation KV_MAX_FILE_SIZE :: nat where "KV_MAX_FILE_SIZE \<equiv> 4096"
abbreviation sizeof_kv_tlv :: nat where "sizeof_kv_tlv \<equiv> 64"

definition KVSTORE_FILE_NAME :: string where
  "KVSTORE_FILE_NAME = ''kvstore.bin''"

datatype kv_result_t =
  KV_ERR_NONE | KV_ERR_NOT_FOUND | KV_ERR_INVALID | KV_ERR_IO | KV_ERR_APPEND | KV_ERR_TRUNCATED

record kv_ctx =
  kv_buf :: bytes
  kv_len :: nat

definition create_if_not_exist :: "'m lfs_ops \<Rightarrow> 'm fs_state \<Rightarrow> bool \<times> 'm fs_state" where
  "create_if_not_exist L s =
     (case fs_file_exists L KVSTORE_FILE_NAME s of (ex, s) \<Rightarrow>
        if \<not> ex then
          (case fs_touch L KVSTORE_FILE_NAME s of (ret, s) \<Rightarrow>
             if ret \<noteq> 0 then (False, s) else (True, s))
        else (True, s))"

definition read_from_fs ::
  "'m lfs_ops \<Rightarrow> kv_ctx \<Rightarrow> 'm fs_state \<Rightarrow> bool \<times> kv_ctx \<times> 'm fs_state" where
  "read_from_fs L ctx s =
     (case create_if_not_exist L s of (_, s) \<Rightarrow>
      case fs_util_read_all_global L KVSTORE_FILE_NAME KV_MAX_FILE_SIZE s of
        (ret, (data, size_out), s) \<Rightarrow>
          let ctx = ctx\<lparr>kv_buf := mem_write (kv_buf ctx) 0 data\<rparr>
          in if \<not> ret \<or> KV_MAX_FILE_SIZE < size_out then (False, ctx, s)
             else (True, ctx\<lparr>kv_len := size_out\<rparr>, s))"

definition write_to_fs ::
  "'m lfs_ops \<Rightarrow> kv_ctx \<Rightarrow> 'm fs_state \<Rightarrow> (bool \<times> 'm fs_state) option" where
  "write_to_fs L ctx s =
     (case create_if_not_exist L s of (_, s) \<Rightarrow>
        fs_util_write_global L KVSTORE_FILE_NAME (take (kv_len ctx) (kv_buf ctx)) s)"

function locate_loop :: "bytes \<Rightarrow> nat \<Rightarrow> bytes \<Rightarrow> nat \<Rightarrow> nat option" where
  "locate_loop buf len key off =
     (if off < len then
        if strncmp_eq (mem_read off KV_MAX_KEY_LEN buf) key KV_MAX_KEY_LEN then Some off
        else locate_loop buf len key (off + sizeof_kv_tlv)
      else None)"
  by pat_completeness auto
termination
  by (relation "measure (\<lambda>(buf, len, key, off). len - off)") auto

declare locate_loop.simps [simp del]

definition locate :: "kv_ctx \<Rightarrow> bytes \<Rightarrow> nat option" where
  "locate ctx key = locate_loop (kv_buf ctx) (kv_len ctx) key 0"

text \<open>The field accesses \<open>tlv->len\<close> and \<open>tlv->value\<close> of the record at an offset.\<close>

definition kv_rec_len :: "kv_ctx \<Rightarrow> nat \<Rightarrow> u8" where
  "kv_rec_len ctx off = kv_buf ctx ! (off + KV_MAX_KEY_LEN)"

definition kv_store_value :: "kv_ctx \<Rightarrow> nat \<Rightarrow> bytes \<Rightarrow> kv_ctx" where
  "kv_store_value ctx off value =
     ctx\<lparr>kv_buf := mem_write (mem_write (kv_buf ctx) (off + 11) [word_of_nat (length value)])
           (off + 12) value\<rparr>"

definition kv_append :: "kv_ctx \<Rightarrow> bytes \<Rightarrow> bytes \<Rightarrow> bool \<times> kv_ctx" where
  "kv_append ctx key value =
     (if KV_MAX_FILE_SIZE < kv_len ctx + sizeof_kv_tlv then (False, ctx)
      else if KV_MAX_VALUE_LEN < length value then (False, ctx)
      else let ctx1 = ctx\<lparr>kv_buf := mem_write (kv_buf ctx) (kv_len ctx) (strncpy key KV_MAX_KEY_LEN)\<rparr>;
               ctx2 = kv_store_value ctx1 (kv_len ctx) value
           in (True, ctx2\<lparr>kv_len := kv_len ctx + sizeof_kv_tlv\<rparr>))"

definition kv_init ::
  "'m lfs_ops \<Rightarrow> bool \<Rightarrow> kv_ctx \<Rightarrow> 'm fs_state \<Rightarrow> kv_result_t \<times> kv_ctx \<times> 'm fs_state" where
  "kv_init L api_ok ctx s =
     (if \<not> api_ok then (KV_ERR_INVALID, ctx, s)
      else case read_from_fs L ctx s of (ok, ctx, s) \<Rightarrow>
        if \<not> ok then (KV_ERR_IO, ctx, s) else (KV_ERR_NONE, ctx, s))"

definition kv_set ::
  "'m lfs_ops \<Rightarrow> bytes option \<Rightarrow> bytes option \<Rightarrow> kv_ctx \<Rightarrow> 'm fs_state \<Rightarrow>
     (kv_result_t \<times> kv_ctx \<times> 'm fs_state) option" where
  "kv_set L key_ptr value_ptr ctx s =
     (case (key_ptr, value_ptr) of
        (Some key, Some value) \<Rightarrow>
          if length value = 0 \<or> KV_MAX_VALUE_LEN < length value then Some (KV_ERR_INVALID, ctx, s)
          else if strnlen key KV_MAX_KEY_LEN = KV_MAX_KEY_LEN then Some (KV_ERR_INVALID, ctx, s)
          else case (case locate ctx key of
                       Some off \<Rightarrow> (True, kv_store_value ctx off value)
                     | None \<Rightarrow> kv_append ctx key value) of
            (stored, ctx) \<Rightarrow>
              if \<not> stored then Some (KV_ERR_APPEND, ctx, s)
              else (case write_to_fs L ctx s of
                      None \<Rightarrow> None
                    | Some (ok, s) \<Rightarrow>
                        if \<not> ok then Some (KV_ERR_IO, ctx, s) else Some (KV_ERR_NONE, ctx, s))
      | _ \<Rightarrow> Some (KV_ERR_INVALID, ctx, s))"

text \<open>The result, the bytes copied to the caller's buffer, and \<open>*value_len\<close> on return.\<close>

definition kv_get :: "bytes option \<Rightarrow> nat \<Rightarrow> kv_ctx \<Rightarrow> kv_result_t \<times> bytes \<times> nat" where
  "kv_get key_ptr value_len ctx =
     (case key_ptr of
        None \<Rightarrow> (KV_ERR_INVALID, [], value_len)
      | Some key \<Rightarrow>
          if KV_MAX_VALUE_LEN < value_len then (KV_ERR_INVALID, [], value_len)
          else if strnlen key KV_MAX_KEY_LEN = KV_MAX_KEY_LEN then (KV_ERR_INVALID, [], value_len)
          else case locate ctx key of
            None \<Rightarrow> (KV_ERR_NOT_FOUND, [], value_len)
          | Some off \<Rightarrow>
              let n = unat (kv_rec_len ctx off)
              in if KV_MAX_VALUE_LEN < n then (KV_ERR_INVALID, [], value_len)
                 else if value_len < n then
                   (KV_ERR_TRUNCATED, mem_read (off + 12) value_len (kv_buf ctx), value_len)
                 else (KV_ERR_NONE, mem_read (off + 12) n (kv_buf ctx), n))"

definition kv_wipe_state ::
  "'m lfs_ops \<Rightarrow> kv_ctx \<Rightarrow> 'm fs_state \<Rightarrow> kv_result_t \<times> kv_ctx \<times> 'm fs_state" where
  "kv_wipe_state L ctx s =
     (case fs_remove L KVSTORE_FILE_NAME s of (ret, s) \<Rightarrow>
        if ret \<noteq> 0 then (KV_ERR_IO, ctx, s)
        else (KV_ERR_NONE, ctx\<lparr>kv_buf := replicate (length (kv_buf ctx)) 0, kv_len := 0\<rparr>, s))"

section \<open>Records of the RAM image\<close>

text \<open>A record: key, length byte and the whole value field.\<close>

type_synonym kv_rec = "bytes \<times> u8 \<times> bytes"

definition kv_enc :: "kv_rec \<Rightarrow> bytes" where
  "kv_enc e = strncpy (fst e) KV_MAX_KEY_LEN @ [fst (snd e)] @ snd (snd e)"

definition kv_enc_all :: "kv_rec list \<Rightarrow> bytes" where
  "kv_enc_all es = concat (map kv_enc es)"

definition kv_rec_ok :: "kv_rec \<Rightarrow> bool" where
  "kv_rec_ok e = (0 \<notin> set (fst e) \<and> length (fst e) < KV_MAX_KEY_LEN \<and>
     unat (fst (snd e)) \<le> KV_MAX_VALUE_LEN \<and> length (snd (snd e)) = KV_MAX_VALUE_LEN)"

definition kv_entries :: "kv_ctx \<Rightarrow> kv_rec list \<Rightarrow> bool" where
  "kv_entries ctx es =
     (length (kv_buf ctx) = KV_MAX_FILE_SIZE \<and> kv_len ctx \<le> KV_MAX_FILE_SIZE \<and>
      take (kv_len ctx) (kv_buf ctx) = kv_enc_all es \<and>
      list_all kv_rec_ok es \<and> distinct (map fst es))"

text \<open>The map a list of records stands for.\<close>

definition kv_map :: "kv_rec list \<Rightarrow> bytes \<Rightarrow> bytes option" where
  "kv_map es = map_option (\<lambda>(n, v). take (unat n) v) \<circ> map_of es"

definition kv_key :: "bytes \<Rightarrow> bool" where
  "kv_key key = (0 \<notin> set key \<and> length key < KV_MAX_KEY_LEN)"

lemma kv_enc_all_simps [simp]:
  "kv_enc_all [] = []"
  "kv_enc_all (e # es) = kv_enc e @ kv_enc_all es"
  "kv_enc_all (es @ fs) = kv_enc_all es @ kv_enc_all fs"
  by (simp_all add: kv_enc_all_def)

lemma takeWhile_no_nul: "0 \<notin> set s \<Longrightarrow> takeWhile (\<lambda>c. c \<noteq> (0 :: u8)) s = s"
  by (simp add: takeWhile_eq_all_conv) metis

lemma strncpy_key: "kv_key key \<Longrightarrow> strncpy key 11 = key @ replicate (11 - length key) 0"
  by (simp add: strncpy_def kv_key_def takeWhile_no_nul Let_def)

lemma length_strncpy [simp]: "length (strncpy s n) = n"
  using length_takeWhile_le [of "\<lambda>c. c \<noteq> 0" "take n s"]
  by (simp add: strncpy_def Let_def)

lemma strnlen_key: "kv_key key \<Longrightarrow> strnlen key 11 \<noteq> 11"
  by (simp add: strnlen_def kv_key_def takeWhile_no_nul)

lemma strnlen_long: "0 \<notin> set key \<Longrightarrow> n \<le> length key \<Longrightarrow> strnlen key n = n"
  unfolding strnlen_def by (subst takeWhile_no_nul) (auto dest: in_set_takeD)

lemma strncmp_eq_padded:
  assumes "0 \<notin> set a" "0 \<notin> set b" "length a < n" "length b < n"
  shows "strncmp_eq (a @ replicate j 0) b n \<longleftrightarrow> a = b"
  using assms
proof (induction n arbitrary: a b)
  case (Suc n)
  show ?case
  proof (cases a)
    case Nil
    then show ?thesis using Suc.prems by (cases j; cases b) auto
  next
    case (Cons c cs)
    then show ?thesis using Suc.prems Suc.IH [of cs "tl b"] by (cases b) auto
  qed
qed simp

lemma strncmp_eq_key:
  "kv_key a \<Longrightarrow> kv_key b \<Longrightarrow> strncmp_eq (strncpy a 11) b 11 \<longleftrightarrow> a = b"
  by (simp only: strncpy_key) (simp add: kv_key_def strncmp_eq_padded del: strncmp_eq.simps)

lemma kv_rec_key: "kv_rec_ok e \<Longrightarrow> kv_key (fst e)"
  by (simp add: kv_rec_ok_def kv_key_def)

lemma length_kv_enc [simp]: "kv_rec_ok e \<Longrightarrow> length (kv_enc e) = 64"
  by (simp add: kv_enc_def kv_rec_ok_def)

lemma length_kv_enc_all [simp]: "list_all kv_rec_ok es \<Longrightarrow> length (kv_enc_all es) = 64 * length es"
  by (induction es) simp_all

lemma locate_loop_enc:
  assumes "list_all kv_rec_ok es" "kv_key key"
  shows "locate_loop (pre @ kv_enc_all es @ post) (length pre + length (kv_enc_all es)) key (length pre) =
     (if key \<in> fst ` set es
      then Some (length pre + length (kv_enc_all (takeWhile (\<lambda>e. fst e \<noteq> key) es))) else None)"
  using assms
proof (induction es arbitrary: pre)
  case Nil
  then show ?case by (subst locate_loop.simps) simp
next
  case (Cons e es)
  note IH = Cons.IH [of "pre @ kv_enc e"]
  have "mem_read (length pre) 11 (pre @ kv_enc e @ kv_enc_all es @ post) = strncpy (fst e) 11"
    unfolding kv_enc_def by (simp add: mem_read_def)
  then have "strncmp_eq (mem_read (length pre) 11 (pre @ kv_enc e @ kv_enc_all es @ post)) key 11 \<longleftrightarrow>
      fst e = key"
    using strncmp_eq_key [of "fst e" key] Cons.prems kv_rec_key [of e] by simp
  then show ?case
    using Cons.prems IH
    by (subst locate_loop.simps) (auto simp: add.assoc simp del: strncmp_eq.simps)
qed

lemma kv_entries_buffer:
  assumes "kv_entries ctx es"
  obtains rest where "kv_buf ctx = kv_enc_all es @ rest" "kv_len ctx = length (kv_enc_all es)"
    "length (kv_enc_all es) + length rest = KV_MAX_FILE_SIZE"
proof
  show "kv_buf ctx = kv_enc_all es @ drop (kv_len ctx) (kv_buf ctx)"
    using assms append_take_drop_id [of "kv_len ctx" "kv_buf ctx"] by (simp add: kv_entries_def)
  show "kv_len ctx = length (kv_enc_all es)"
    using assms length_take [of "kv_len ctx" "kv_buf ctx"] by (simp add: kv_entries_def)
  then show "length (kv_enc_all es) + length (drop (kv_len ctx) (kv_buf ctx)) = KV_MAX_FILE_SIZE"
    using assms by (simp add: kv_entries_def del: length_kv_enc_all)
qed

lemma kv_entries_len:
  assumes "kv_entries ctx es"
  shows "length (take (kv_len ctx) (kv_buf ctx)) = kv_len ctx \<and> kv_len ctx = 64 * length es"
proof -
  have "kv_len ctx \<le> length (kv_buf ctx)" "list_all kv_rec_ok es"
    "take (kv_len ctx) (kv_buf ctx) = kv_enc_all es"
    using assms by (simp_all add: kv_entries_def)
  moreover from this(1) have "length (take (kv_len ctx) (kv_buf ctx)) = kv_len ctx" by simp
  ultimately show ?thesis by (metis length_kv_enc_all)
qed

lemma locate_None_iff:
  assumes "kv_entries ctx es" "kv_key key"
  shows "locate ctx key = None \<longleftrightarrow> key \<notin> fst ` set es"
proof -
  have ok: "list_all kv_rec_ok es" using assms(1) by (simp add: kv_entries_def)
  obtain rest where "kv_buf ctx = kv_enc_all es @ rest" "kv_len ctx = length (kv_enc_all es)"
    using assms(1) by (rule kv_entries_buffer)
  then show ?thesis
    using locate_loop_enc [OF ok assms(2), of "[]" rest] ok by (simp add: locate_def)
qed

lemma locate_split:
  assumes c: "kv_entries ctx es" and k: "kv_key key" and mem: "key \<in> fst ` set es"
  obtains es1 n v es2 rest where "es = es1 @ (key, n, v) # es2" "key \<notin> fst ` set es1"
    "kv_buf ctx = kv_enc_all es1 @ kv_enc (key, n, v) @ kv_enc_all es2 @ rest"
    "kv_len ctx = length (kv_enc_all es)"
    "locate ctx key = Some (length (kv_enc_all es1))" "kv_rec_ok (key, n, v)"
proof -
  define es1 where "es1 = takeWhile (\<lambda>e. fst e \<noteq> key) es"
  obtain e es2 where es: "es = es1 @ e # es2" and e: "fst e = key"
    using mem unfolding es1_def
    by (metis (mono_tags, lifting) dropWhile_eq_Cons_conv dropWhile_eq_Nil_conv image_iff
        list.exhaust takeWhile_dropWhile_id)
  obtain n v where ev: "e = (key, n, v)" using e by (cases e) auto
  have ok: "list_all kv_rec_ok es" using c by (simp add: kv_entries_def)
  obtain rest where b: "kv_buf ctx = kv_enc_all es @ rest" "kv_len ctx = length (kv_enc_all es)"
    using c by (rule kv_entries_buffer)
  have "key \<notin> fst ` set es1" unfolding es1_def by (auto dest: set_takeWhileD)
  moreover have "locate ctx key = Some (length (kv_enc_all es1))"
    using mem b locate_loop_enc [OF ok k, of "[]" rest] by (simp add: locate_def es1_def)
  moreover have "kv_rec_ok (key, n, v)" using ok by (simp add: es ev)
  ultimately show ?thesis using that [of es1 n v es2 rest] b by (simp add: es ev)
qed

lemma kv_get_entries:
  assumes c: "kv_entries ctx es" and k: "kv_key key" and vl: "value_len \<le> KV_MAX_VALUE_LEN"
  shows "kv_get (Some key) value_len ctx =
     (case kv_map es key of
        None \<Rightarrow> (KV_ERR_NOT_FOUND, [], value_len)
      | Some v \<Rightarrow> if length v \<le> value_len then (KV_ERR_NONE, v, length v)
                  else (KV_ERR_TRUNCATED, take value_len v, value_len))"
proof (cases "key \<in> fst ` set es")
  case False
  then have "kv_map es key = None" by (simp add: kv_map_def map_of_eq_None_iff)
  moreover have "locate ctx key = None" using False c k by (simp add: locate_None_iff)
  ultimately show ?thesis using vl k by (simp add: kv_get_def strnlen_key)
next
  case True
  with c k show ?thesis
  proof (rule locate_split)
    fix es1 n v es2 rest
    assume s: "es = es1 @ (key, n, v) # es2" "key \<notin> fst ` set es1"
      "kv_buf ctx = kv_enc_all es1 @ kv_enc (key, n, v) @ kv_enc_all es2 @ rest"
      "locate ctx key = Some (length (kv_enc_all es1))" "kv_rec_ok (key, n, v)"
    have m: "kv_map es key = Some (take (unat n) v)"
      unfolding kv_map_def s(1) using map_of_split [OF s(2), of "(n, v)" es2] by simp
    let ?off = "length (kv_enc_all es1)"
    have n: "unat n \<le> 52" "length v = 52" using s(5) by (simp_all add: kv_rec_ok_def)
    have len: "kv_rec_len ctx ?off = n"
      unfolding kv_rec_len_def s(3) kv_enc_def by (simp add: nth_append)
    have read: "mem_read (?off + 12) j (kv_buf ctx) = take j v" if "j \<le> 52" for j
      using that n unfolding s(3) kv_enc_def by (simp add: mem_read_def)
    show ?thesis
      using vl k n s(4) by (simp add: kv_get_def strnlen_key m len read Let_def min_def)
  qed
qed

lemma store_value_at:
  assumes buf: "kv_buf ctx = pre @ t @ [n] @ v @ post" and "length t = 11"
    and "length value \<le> length v"
  shows "kv_store_value ctx (length pre) value =
     ctx\<lparr>kv_buf := pre @ t @ [word_of_nat (length value)] @ (value @ drop (length value) v) @ post\<rparr>"
proof -
  have "mem_write (kv_buf ctx) (length pre + 11) [word_of_nat (length value)] =
      pre @ t @ [word_of_nat (length value)] @ v @ post"
    unfolding buf using mem_write_at [of "pre @ t" "length pre + 11" _ "[n]"] assms(2) by simp
  moreover have "mem_write (pre @ t @ [word_of_nat (length value)] @ v @ post) (length pre + 12) value =
      pre @ t @ [word_of_nat (length value)] @ (value @ drop (length value) v) @ post"
    using mem_write_inside [of "pre @ t @ [word_of_nat (length value)]" "v @ post" 0 "value"] assms(2,3)
    by simp
  ultimately show ?thesis by (simp add: kv_store_value_def)
qed

lemma kv_map_replace:
  assumes "key \<notin> fst ` set es1" "length (val :: bytes) \<le> 52"
  shows "kv_map (es1 @ (key, word_of_nat (length val), val @ junk) # es2) =
     (kv_map (es1 @ (key, n, v) # es2))(key \<mapsto> val)"
proof
  fix k
  have "unat (word_of_nat (length val) :: u8) = length val"
    using assms(2) by (simp add: unat_of_nat_len)
  moreover have "map_of (es1 @ (key, word_of_nat (length val), val @ junk) # es2) k =
      map_of (es1 @ (key, n, v) # es2) k" if "k \<noteq> key"
    using that by (induction es1) auto
  ultimately show "kv_map (es1 @ (key, word_of_nat (length val), val @ junk) # es2) k =
     ((kv_map (es1 @ (key, n, v) # es2))(key \<mapsto> val)) k"
    by (cases "k = key") (simp_all add: kv_map_def map_of_split [OF assms(1)] del: map_of_append)
qed

lemma kv_map_append_new:
  assumes "key \<notin> fst ` set es" "length (val :: bytes) \<le> 52"
  shows "kv_map (es @ [(key, word_of_nat (length val), val @ junk)]) = (kv_map es)(key \<mapsto> val)"
proof
  fix k
  have "unat (word_of_nat (length val) :: u8) = length val"
    using assms(2) by (simp add: unat_of_nat_len)
  moreover have "map_of (es @ [(key, a)]) k = map_of es k" if "k \<noteq> key" for a :: "u8 \<times> bytes"
    using that by (induction es) auto
  ultimately show "kv_map (es @ [(key, word_of_nat (length val), val @ junk)]) k =
      ((kv_map es)(key \<mapsto> val)) k"
    by (cases "k = key") (simp_all add: kv_map_def map_of_split [OF assms(1)] del: map_of_append)
qed

lemma kv_update_record:
  assumes c: "kv_entries ctx es" and k: "kv_key key" and mem: "key \<in> fst ` set es"
    and v: "length val \<le> KV_MAX_VALUE_LEN"
  shows "\<exists>off es'. locate ctx key = Some off \<and> kv_entries (kv_store_value ctx off val) es' \<and>
     kv_map es' = (kv_map es)(key \<mapsto> val) \<and> kv_len (kv_store_value ctx off val) = kv_len ctx \<and>
     es' \<noteq> []"
  using c k mem
proof (rule locate_split)
  fix es1 n w es2 rest
  assume s: "es = es1 @ (key, n, w) # es2" "key \<notin> fst ` set es1"
    "kv_buf ctx = kv_enc_all es1 @ kv_enc (key, n, w) @ kv_enc_all es2 @ rest"
    "kv_len ctx = length (kv_enc_all es)"
    "locate ctx key = Some (length (kv_enc_all es1))" "kv_rec_ok (key, n, w)"
  let ?e = "(key, word_of_nat (length val), val @ drop (length val) w)"
  let ?es = "es1 @ ?e # es2"
  have w: "length w = 52" using s(6) by (simp add: kv_rec_ok_def)
  have ok: "list_all kv_rec_ok es" "distinct (map fst es)" "length (kv_buf ctx) = 4096"
    "kv_len ctx \<le> 4096" using c by (simp_all add: kv_entries_def)
  have e: "kv_rec_ok ?e" using s(6) v w by (simp add: kv_rec_ok_def unat_of_nat_len)
  have st: "kv_store_value ctx (length (kv_enc_all es1)) val =
      ctx\<lparr>kv_buf := kv_enc_all es1 @ kv_enc ?e @ kv_enc_all es2 @ rest\<rparr>"
    using store_value_at [of ctx "kv_enc_all es1" "strncpy key 11" n w "kv_enc_all es2 @ rest" val]
      v w s(3) by (simp add: kv_enc_def)
  have "length (kv_enc (key, n, w)) = length (kv_enc ?e)" using e s(6) by simp
  then have "kv_entries (kv_store_value ctx (length (kv_enc_all es1)) val) ?es"
    unfolding st using ok e s(3,4) unfolding s(1) by (simp add: kv_entries_def)
  moreover have "kv_map ?es = (kv_map es)(key \<mapsto> val)"
    unfolding s(1) using v by (intro kv_map_replace) (use s(2) in simp_all)
  moreover have "kv_len (kv_store_value ctx (length (kv_enc_all es1)) val) = kv_len ctx"
    unfolding st by simp
  ultimately show ?thesis using s(5) by blast
qed

lemma kv_append_record:
  assumes c: "kv_entries ctx es" and k: "kv_key key" and mem: "key \<notin> fst ` set es"
    and v: "length val \<le> KV_MAX_VALUE_LEN" and room: "length es < 64"
  shows "\<exists>ctx' es'. kv_append ctx key val = (True, ctx') \<and> kv_entries ctx' es' \<and>
     kv_map es' = (kv_map es)(key \<mapsto> val) \<and> kv_len ctx \<le> kv_len ctx' \<and> es' \<noteq> []"
proof -
  obtain rest where b: "kv_buf ctx = kv_enc_all es @ rest" "kv_len ctx = length (kv_enc_all es)"
    "length (kv_enc_all es) + length rest = 4096"
    using c by (rule kv_entries_buffer)
  have ok: "list_all kv_rec_ok es" "distinct (map fst es)" using c by (simp_all add: kv_entries_def)
  then have len: "length (kv_enc_all es) + 64 \<le> 4096" using room by simp
  then have "11 + 1 + 52 \<le> length rest" using b(3) by simp
  then obtain r1 r2 r3 r4 where r: "rest = r1 @ r2 @ r3 @ r4" "length r1 = 11" "length r2 = 1"
    "length r3 = 52"
    by (rule list_split4)
  obtain n where n: "r2 = [n]" using r(3) by (auto simp: length_Suc_conv)
  let ?e = "(key, word_of_nat (length val), val @ drop (length val) r3)"
  let ?t = "strncpy key 11"
  have w1: "mem_write (kv_buf ctx) (kv_len ctx) ?t = kv_enc_all es @ ?t @ [n] @ r3 @ r4"
    unfolding b(1,2) r(1) n by (rule mem_write_at) (simp_all add: r(2))
  have st: "kv_store_value (ctx\<lparr>kv_buf := kv_enc_all es @ ?t @ [n] @ r3 @ r4\<rparr>)
      (length (kv_enc_all es)) val = ctx\<lparr>kv_buf := kv_enc_all es @ kv_enc ?e @ r4\<rparr>"
    using store_value_at [of "ctx\<lparr>kv_buf := kv_enc_all es @ ?t @ [n] @ r3 @ r4\<rparr>"
        "kv_enc_all es" ?t n r3 r4 val] v r(4) by (simp add: kv_enc_def)
  have e: "kv_rec_ok ?e" using k v r(4) by (simp add: kv_rec_ok_def kv_key_def unat_of_nat_len)
  have app: "kv_append ctx key val = (True, ctx\<lparr>kv_buf := kv_enc_all (es @ [?e]) @ r4,
      kv_len := length (kv_enc_all es) + 64\<rparr>)"
    using len v b(2) w1 st by (simp add: kv_append_def Let_def del: length_kv_enc_all)
  have "kv_entries (ctx\<lparr>kv_buf := kv_enc_all (es @ [?e]) @ r4,
      kv_len := length (kv_enc_all es) + 64\<rparr>) (es @ [?e])"
    using ok e mem len b(3) r by (simp add: kv_entries_def del: length_kv_enc_all)
  moreover have "kv_map (es @ [?e]) = (kv_map es)(key \<mapsto> val)"
    using v by (intro kv_map_append_new) (use mem in simp_all)
  ultimately show ?thesis using app b(2) by fastforce
qed

lemma kv_append_full:
  assumes "kv_entries ctx es" "\<not> length es < 64"
  shows "kv_append ctx key val = (False, ctx)"
proof -
  obtain rest where "kv_len ctx = length (kv_enc_all es)"
    using assms(1) by (rule kv_entries_buffer)
  then show ?thesis using assms by (simp add: kv_append_def kv_entries_def)
qed

section \<open>Persistence\<close>

lemma write_to_fs_total:
  "take (kv_len ctx) (kv_buf ctx) \<noteq> [] \<Longrightarrow> \<exists>ok s'. write_to_fs L ctx s = Some (ok, s')"
  by (simp add: write_to_fs_def fs_util_write_global_def case_prod_beta)

text \<open>The bytes of the store on file, with a missing file read as empty.\<close>

definition kv_file :: "('m \<Rightarrow> string \<Rightarrow> bytes option) \<Rightarrow> 'm fs_state \<Rightarrow> bytes" where
  "kv_file content s = (case fs_files content s KVSTORE_FILE_NAME of None \<Rightarrow> [] | Some c \<Rightarrow> c)"

context littlefs
begin

lemma create_if_not_exist_idle:
  assumes "fs_idle opened s" "create_if_not_exist L s = (b, s')"
  shows "fs_idle opened s' \<and> kv_file content s' = kv_file content s \<and>
     (\<forall>q. q \<noteq> KVSTORE_FILE_NAME \<longrightarrow> fs_files content s' q = fs_files content s q)"
proof -
  obtain ex s1 where e: "fs_file_exists L KVSTORE_FILE_NAME s = (ex, s1)" by fastforce
  note ec = exists_idle [OF assms(1) e]
  obtain r s2 where t: "fs_touch L KVSTORE_FILE_NAME s1 = (r, s2)" by fastforce
  note tc = touch_idle [OF conjunct1 [OF ec] t]
  show ?thesis
    using assms(2) e t ec tc
    by (auto simp: create_if_not_exist_def kv_file_def split: if_splits)
qed

lemma write_to_fs_idle:
  assumes i: "fs_idle opened s" and w: "write_to_fs L ctx s = Some (ok, s')"
  shows "fs_idle opened s' \<and>
     (\<forall>q. q \<noteq> KVSTORE_FILE_NAME \<longrightarrow> fs_files content s' q = fs_files content s q) \<and>
     kv_file content s' =
       (if ok then take (kv_len ctx) (kv_buf ctx) @
               drop (length (take (kv_len ctx) (kv_buf ctx))) (kv_file content s)
        else kv_file content s)"
proof -
  obtain b s1 where c: "create_if_not_exist L s = (b, s1)" by fastforce
  note cc = create_if_not_exist_idle [OF i c]
  have "fs_util_write_global L KVSTORE_FILE_NAME (take (kv_len ctx) (kv_buf ctx)) s1 = Some (ok, s')"
    using w c by (simp add: write_to_fs_def)
  from write_global [OF conjunct1 [OF cc] this] cc show ?thesis
    by (auto simp: kv_file_def split: option.splits if_splits)
qed

lemma kv_init_idle:
  assumes i: "fs_idle opened s" and w: "kv_init L api ctx s = (KV_ERR_NONE, ctx', s')"
  shows "fs_idle opened s' \<and> kv_file content s' = kv_file content s \<and>
     length (kv_file content s) \<le> KV_MAX_FILE_SIZE \<and>
     ctx' = \<lparr>kv_buf = mem_write (kv_buf ctx) 0 (kv_file content s), kv_len = length (kv_file content s)\<rparr>"
proof -
  obtain b s1 where c: "create_if_not_exist L s = (b, s1)" by fastforce
  note cc = create_if_not_exist_idle [OF i c]
  obtain ret data sz s2 where r: "fs_util_read_all_global L KVSTORE_FILE_NAME 4096 s1 =
      (ret, (data, sz), s2)" by (metis surj_pair)
  have s': "ret" "ctx' = ctx\<lparr>kv_buf := mem_write (kv_buf ctx) 0 data, kv_len := sz\<rparr>" "s' = s2"
    using w c r by (auto simp: kv_init_def read_from_fs_def Let_def split: if_splits)
  from read_all_global [OF conjunct1 [OF cc] r] s' cc show ?thesis
    by (auto simp: kv_file_def)
qed

text \<open>The whole of \<open>kv_set\<close>.\<close>

lemma kv_set_cases:
  assumes i: "fs_idle opened s" and c: "kv_entries ctx es" and k: "kv_key key"
    and v: "val \<noteq> []" "length val \<le> KV_MAX_VALUE_LEN"
    and sync: "kv_file content s = take (kv_len ctx) (kv_buf ctx)"
  shows "\<exists>r ctx' s'. kv_set L (Some key) (Some val) ctx s = Some (r, ctx', s') \<and>
     fs_idle opened s' \<and>
     (if key \<in> fst ` set es \<or> length es < 64
      then (\<exists>es'. kv_entries ctx' es' \<and> kv_map es' = (kv_map es)(key \<mapsto> val)) \<and>
           (r = KV_ERR_NONE \<and> kv_file content s' = take (kv_len ctx') (kv_buf ctx') \<or>
            r = KV_ERR_IO \<and> kv_file content s' = kv_file content s)
      else r = KV_ERR_APPEND \<and> ctx' = ctx \<and> s' = s)"
proof (cases "key \<in> fst ` set es \<or> length es < 64")
  case False
  then have "locate ctx key = None" using c k by (simp add: locate_None_iff)
  moreover have "kv_append ctx key val = (False, ctx)" using False c by (simp add: kv_append_full)
  ultimately show ?thesis using False i k v by (simp add: kv_set_def strnlen_key)
next
  case True
  define upd where "upd = (case locate ctx key of
      Some off \<Rightarrow> (True, kv_store_value ctx off val) | None \<Rightarrow> kv_append ctx key val)"
  have "\<exists>ctx' es'. upd = (True, ctx') \<and> kv_entries ctx' es' \<and> kv_map es' = (kv_map es)(key \<mapsto> val) \<and>
      kv_len ctx \<le> kv_len ctx' \<and> es' \<noteq> []"
  proof (cases "key \<in> fst ` set es")
    case True
    from kv_update_record [OF c k True v(2)] show ?thesis by (auto simp: upd_def)
  next
    case False
    then have "locate ctx key = None" using c k by (simp add: locate_None_iff)
    with kv_append_record [OF c k False v(2)] True False show ?thesis by (auto simp: upd_def)
  qed
  then obtain ctx' es' where u: "upd = (True, ctx')" "kv_entries ctx' es'"
    "kv_map es' = (kv_map es)(key \<mapsto> val)" "kv_len ctx \<le> kv_len ctx'" "es' \<noteq> []" by blast
  have len: "length (take (kv_len ctx') (kv_buf ctx')) = kv_len ctx'"
    "length (take (kv_len ctx) (kv_buf ctx)) \<le> kv_len ctx" "0 < kv_len ctx'"
    using kv_entries_len [OF u(2)] kv_entries_len [OF c] u(5) by auto
  obtain ok s' where w: "write_to_fs L ctx' s = Some (ok, s')"
    using write_to_fs_total [of ctx' L s] len by (metis length_greater_0_conv)
  have set: "kv_set L (Some key) (Some val) ctx s =
      Some (if ok then KV_ERR_NONE else KV_ERR_IO, ctx', s')"
    using v k w u(1) unfolding upd_def by (simp add: kv_set_def strnlen_key)
  show ?thesis
    unfolding set using write_to_fs_idle [OF i w] True u(2,3) len(1,2) u(4) sync by auto
qed

end

section \<open>Properties\<close>

text \<open>C22: On a consistent store and a usable file system, \<open>kv_set\<close> always returns.  With a NULL
  pointer, an empty value or one of more than 52 bytes, or a key of more than ten characters it
  reports \<open>KV_ERR_INVALID\<close> and changes nothing.  Otherwise, with a free record or the key already
  present, the RAM image then maps the key to the value and every other key as before; the file is
  either rewritten to match it (success) or left as it was (\<open>KV_ERR_IO\<close>).  With 64 other keys
  stored it reports \<open>KV_ERR_APPEND\<close> and changes nothing.\<close>

theorem kv_set_outcomes:
  assumes "littlefs L content opened" "fs_idle opened s" "kv_entries ctx es"
    and "\<forall>key. key_ptr = Some key \<longrightarrow> 0 \<notin> set key"
    and "kv_file content s = take (kv_len ctx) (kv_buf ctx)"
  shows "\<exists>r ctx' s'. kv_set L key_ptr value_ptr ctx s = Some (r, ctx', s') \<and> fs_idle opened s' \<and>
     (case (key_ptr, value_ptr) of
        (Some key, Some val) \<Rightarrow>
          if val = [] \<or> KV_MAX_VALUE_LEN < length val \<or> KV_MAX_KEY_LEN \<le> length key
          then r = KV_ERR_INVALID \<and> ctx' = ctx \<and> s' = s
          else if key \<in> fst ` set es \<or> length es < 64
          then (\<exists>es'. kv_entries ctx' es' \<and> kv_map es' = (kv_map es)(key \<mapsto> val)) \<and>
               (r = KV_ERR_NONE \<and> kv_file content s' = take (kv_len ctx') (kv_buf ctx') \<or>
                r = KV_ERR_IO \<and> kv_file content s' = kv_file content s)
          else r = KV_ERR_APPEND \<and> ctx' = ctx \<and> s' = s
      | _ \<Rightarrow> r = KV_ERR_INVALID \<and> ctx' = ctx \<and> s' = s)"
proof (cases "\<exists>key val. key_ptr = Some key \<and> value_ptr = Some val")
  case False
  then show ?thesis
    using assms(2) by (cases key_ptr; cases value_ptr) (simp_all add: kv_set_def)
next
  case True
  then obtain key val where p: "key_ptr = Some key" "value_ptr = Some val" by blast
  have n: "0 \<notin> set key" using assms(4) p by simp
  show ?thesis
  proof (cases "val = [] \<or> KV_MAX_VALUE_LEN < length val \<or> KV_MAX_KEY_LEN \<le> length key")
    case True
    then show ?thesis using assms(2) p strnlen_long [OF n] by (auto simp: kv_set_def)
  next
    case False
    then have k: "kv_key key" "val \<noteq> []" "length val \<le> KV_MAX_VALUE_LEN" using n by (auto simp: kv_key_def)
    show ?thesis
      using littlefs.kv_set_cases [OF assms(1-3) k assms(5)] False p by simp
  qed
qed

definition kv_ctx0 :: kv_ctx where
  "kv_ctx0 = \<lparr>kv_buf = replicate KV_MAX_FILE_SIZE 0, kv_len = 0\<rparr>"

lemma kv_entries_ctx0: "kv_entries kv_ctx0 []"
  by (simp add: kv_entries_def kv_ctx0_def)

theorem kv_set_outcomes_witness:
  "\<exists>r ctx' s'. kv_set ram_lfs (Some [97]) (Some [1, 2]) kv_ctx0 (ram_fs Map.empty) =
       Some (r, ctx', s') \<and>
     (\<exists>es'. kv_entries ctx' es' \<and> kv_map es' = [[97] \<mapsto> [1, 2]])"
proof -
  have "kv_map [] = Map.empty" by (auto simp: kv_map_def)
  then show ?thesis
    using kv_set_outcomes [OF ram.littlefs_axioms ram_fs_idle [of Map.empty] kv_entries_ctx0,
        of "Some [97]" "Some [1, 2]"]
    by (auto simp: kv_key_def kv_file_def kv_ctx0_def)
qed

text \<open>C21: A value whose \<open>kv_set\<close> reported success survives a restart: when the store is
  loaded again into a fresh RAM image, \<open>kv_get\<close> returns it, and returns for every other key
  what it held before.\<close>

theorem kv_set_survives_restart:
  assumes lfs: "littlefs L content opened" and i: "fs_idle opened s"
    and c: "kv_entries ctx es" and key: "kv_key key"
    and v: "val \<noteq> []" "length val \<le> KV_MAX_VALUE_LEN"
    and sync: "kv_file content s = take (kv_len ctx) (kv_buf ctx)"
    and set: "kv_set L (Some key) (Some val) ctx s = Some (KV_ERR_NONE, ctx', s')"
    and fresh: "length (kv_buf ctx0) = KV_MAX_FILE_SIZE"
    and init: "kv_init L True ctx0 s' = (KV_ERR_NONE, ctx2, s2)" and k: "kv_key k"
  shows "kv_get (Some k) KV_MAX_VALUE_LEN ctx2 =
     (case ((kv_map es)(key \<mapsto> val)) k of
        None \<Rightarrow> (KV_ERR_NOT_FOUND, [], KV_MAX_VALUE_LEN)
      | Some w \<Rightarrow> (KV_ERR_NONE, w, length w))"
proof -
  from littlefs.kv_set_cases [OF lfs i c key v sync] set obtain es' where
    es': "kv_entries ctx' es'" "kv_map es' = (kv_map es)(key \<mapsto> val)"
    and f: "kv_file content s' = take (kv_len ctx') (kv_buf ctx')" and i': "fs_idle opened s'"
    by (auto split: if_splits)
  have kf: "kv_file content s' = kv_enc_all es'" using es'(1) f by (simp add: kv_entries_def)
  have "length (kv_enc_all es') \<le> 4096"
    and ctx2: "ctx2 = \<lparr>kv_buf = mem_write (kv_buf ctx0) 0 (kv_enc_all es'),
      kv_len = length (kv_enc_all es')\<rparr>"
    using littlefs.kv_init_idle [OF lfs i' init] unfolding kf by auto
  then have "kv_entries ctx2 es'"
    using es'(1) fresh
    by (simp add: kv_entries_def mem_write_def del: length_kv_enc_all)
  moreover have "kv_map es' k = Some w \<Longrightarrow> length w \<le> 52" for w
    using es'(1) by (auto simp: kv_map_def kv_entries_def kv_rec_ok_def list_all_iff dest!: map_of_SomeD)
  ultimately show ?thesis
    using kv_get_entries [OF _ k, of ctx2 es' 52] es'(2) by (auto split: option.split)
qed

lemmas kv_exec_defs = kv_set_def kv_init_def read_from_fs_def write_to_fs_def
  create_if_not_exist_def kv_append_def kv_store_value_def locate_def locate_loop.simps
  strnlen_def strncpy_def mem_write_def KVSTORE_FILE_NAME_def kv_ctx0_def

theorem kv_set_survives_restart_witness:
  "\<exists>ctx' s' ctx2 s2.
     kv_set ram_lfs (Some [97]) (Some [1, 2]) kv_ctx0 (ram_fs Map.empty) =
       Some (KV_ERR_NONE, ctx', s') \<and>
     kv_init ram_lfs True kv_ctx0 s' = (KV_ERR_NONE, ctx2, s2) \<and>
     kv_get (Some [97]) KV_MAX_VALUE_LEN ctx2 = (KV_ERR_NONE, [1, 2], 2)"
proof -
  obtain ctx' s' where set: "kv_set ram_lfs (Some [97]) (Some [1, 2]) kv_ctx0 (ram_fs Map.empty) =
      Some (KV_ERR_NONE, ctx', s')"
    and s': "s' = ram_fs [KVSTORE_FILE_NAME \<mapsto> 97 # replicate 10 0 @ 2 # 1 # 2 # replicate 50 0]
      \<lparr>fs_lock_count := fs_lock_count s'\<rparr>"
    by (simp add: kv_exec_defs fs_exec_defs ram_defs ram_fs_def)
  have "\<exists>ctx2 s2. kv_init ram_lfs True kv_ctx0 s' = (KV_ERR_NONE, ctx2, s2)"
    by (subst s') (simp add: kv_exec_defs fs_exec_defs ram_defs ram_fs_def)
  then obtain ctx2 s2 where init: "kv_init ram_lfs True kv_ctx0 s' = (KV_ERR_NONE, ctx2, s2)"
    by blast
  have "kv_map [] = Map.empty" by (auto simp: kv_map_def)
  then have "kv_get (Some [97]) KV_MAX_VALUE_LEN ctx2 = (KV_ERR_NONE, [1, 2], 2)"
    using kv_set_survives_restart [OF ram.littlefs_axioms ram_fs_idle kv_entries_ctx0 _ _ _ _ set _ init]
    by (simp add: kv_key_def kv_file_def kv_ctx0_def)
  with set init show ?thesis by blast
qed

end
