(* ===== verification/Rtos.thy ===== *)
theory Rtos
  imports Prelude "HOL-Library.Monad_Syntax"
begin

text \<open>
  The timer wrapper \<open>lib/rtos/src/rtos_timer.c\<close>.  The FreeRTOS software timers are
  third-party code: the kernel calls are the fields of \<open>rtos_ops\<close> over an abstract kernel
  state \<open>'k\<close>, and what the firmware relies on is the locale \<open>freertos\<close>.  The tick rate is
  configured to 1000 Hz (\<open>config/rtos/*/FreeRTOSConfig.h\<close>), so ticks are milliseconds.
  A failed \<open>ASSERT\<close> is \<open>None\<close>.  Mutexes do not change the sequential behaviour of the code
  that runs between lock and unlock and are left out of the models.
\<close>

type_synonym timer_id = nat

record 'k rtos_ops =
  xTimerCreateStatic :: "'k \<Rightarrow> string \<Rightarrow> timer_id option \<times> 'k"
  xTimerIsTimerActive :: "'k \<Rightarrow> timer_id \<Rightarrow> bool"
  xTimerChangePeriod :: "'k \<Rightarrow> timer_id \<Rightarrow> u32 \<Rightarrow> bool \<times> 'k"
  xTimerStop :: "'k \<Rightarrow> timer_id \<Rightarrow> bool \<times> 'k"
  xTimerReset :: "'k \<Rightarrow> timer_id \<Rightarrow> bool \<times> 'k"
  xTimerGetExpiryTime :: "'k \<Rightarrow> timer_id \<Rightarrow> u32"
  xTaskGetTickCount :: "'k \<Rightarrow> u32"

record rtos_timer_t =
  tm_name :: string
  tm_handle :: "timer_id option"
  tm_active :: bool

abbreviation portTICK_PERIOD_MS :: u32 where "portTICK_PERIOD_MS \<equiv> 1"

definition TICKS2MS :: "u32 \<Rightarrow> u32" where
  "TICKS2MS t = t * portTICK_PERIOD_MS"

definition rtos_timer_create_static ::
  "'k rtos_ops \<Rightarrow> rtos_timer_t \<Rightarrow> 'k \<Rightarrow> (rtos_timer_t \<times> 'k) option" where
  "rtos_timer_create_static R timer k =
     (case xTimerCreateStatic R k (tm_name timer) of (handle, k) \<Rightarrow>
        if handle = None then None
        else Some (timer\<lparr>tm_handle := handle, tm_active := False\<rparr>, k))"

definition rtos_timer_expired :: "'k rtos_ops \<Rightarrow> rtos_timer_t \<Rightarrow> 'k \<Rightarrow> bool option" where
  "rtos_timer_expired R timer k =
     do { h \<leftarrow> tm_handle timer; Some (\<not> xTimerIsTimerActive R k h) }"

definition rtos_timer_start ::
  "'k rtos_ops \<Rightarrow> rtos_timer_t \<Rightarrow> u32 \<Rightarrow> 'k \<Rightarrow> (rtos_timer_t \<times> 'k) option" where
  "rtos_timer_start R timer duration_ms k =
     do { h \<leftarrow> tm_handle timer;
          case xTimerChangePeriod R k h (duration_ms div portTICK_PERIOD_MS) of (ret, k) \<Rightarrow>
            if \<not> ret then None else Some (timer\<lparr>tm_active := True\<rparr>, k) }"

text \<open>The result of \<open>xTimerStop\<close> is ignored: the wrapper's flag is cleared even if the kernel refused.\<close>

definition rtos_timer_stop ::
  "'k rtos_ops \<Rightarrow> rtos_timer_t \<Rightarrow> 'k \<Rightarrow> (rtos_timer_t \<times> 'k) option" where
  "rtos_timer_stop R timer k =
     do { h \<leftarrow> tm_handle timer; Some (timer\<lparr>tm_active := False\<rparr>, snd (xTimerStop R k h)) }"

definition rtos_timer_restart :: "'k rtos_ops \<Rightarrow> rtos_timer_t \<Rightarrow> 'k \<Rightarrow> 'k option" where
  "rtos_timer_restart R timer k =
     do { h \<leftarrow> tm_handle timer;
          case xTimerReset R k h of (ret, k) \<Rightarrow> if ret then Some k else None }"

definition rtos_timer_remaining_ms :: "'k rtos_ops \<Rightarrow> rtos_timer_t \<Rightarrow> 'k \<Rightarrow> u32 option" where
  "rtos_timer_remaining_ms R timer k =
     do { h \<leftarrow> tm_handle timer;
          Some (if \<not> tm_active timer then 0
                else TICKS2MS (xTimerGetExpiryTime R k h - xTaskGetTickCount R k)) }"

text \<open>
  The contract: \<open>armed\<close> gives the expiry tick of the running timers.  Changing the period of a
  timer (dormant or not) arms it to expire one period from now and stopping it disarms it, if the
  call returns \<open>pdPASS\<close>; a call that fails (the timer command queue is full) leaves every timer as
  it was.  The expired timers are disarmed by the kernel as time passes.
\<close>

locale freertos =
  fixes R :: "'k rtos_ops"
    and armed :: "'k \<Rightarrow> timer_id \<Rightarrow> u32 option"
  assumes active_law: "xTimerIsTimerActive R k h \<longleftrightarrow> armed k h \<noteq> None"
    and change_period_law: "xTimerChangePeriod R k h p = (ret, k') \<Longrightarrow>
      xTaskGetTickCount R k' = xTaskGetTickCount R k \<and>
      armed k' = (if ret then (armed k)(h \<mapsto> xTaskGetTickCount R k + p) else armed k)"
    and stop_law: "xTimerStop R k h = (ret, k') \<Longrightarrow>
      xTaskGetTickCount R k' = xTaskGetTickCount R k \<and>
      armed k' = (if ret then (armed k)(h := None) else armed k)"
    and expiry_law: "armed k h = Some e \<Longrightarrow> xTimerGetExpiryTime R k h = e"
begin

lemma timer_start:
  assumes "rtos_timer_start R t d k = Some (t', k')"
  shows "\<exists>h. tm_handle t = Some h \<and> t' = t\<lparr>tm_active := True\<rparr> \<and>
     armed k' = (armed k)(h \<mapsto> xTaskGetTickCount R k + d) \<and>
     xTaskGetTickCount R k' = xTaskGetTickCount R k"
proof -
  obtain h where h: "tm_handle t = Some h"
    using assms by (auto simp: rtos_timer_start_def bind_eq_Some_conv)
  obtain ret k1 where c: "xTimerChangePeriod R k h d = (ret, k1)" by fastforce
  show ?thesis
    using assms h c change_period_law [OF c]
    by (auto simp: rtos_timer_start_def split: if_splits)
qed

lemma timer_stop:
  assumes "rtos_timer_stop R t k = Some (t', k')"
  shows "\<exists>h. tm_handle t = Some h \<and> t' = t\<lparr>tm_active := False\<rparr> \<and>
     armed k' = (if fst (xTimerStop R k h) then (armed k)(h := None) else armed k) \<and>
     xTaskGetTickCount R k' = xTaskGetTickCount R k"
proof -
  obtain h where h: "tm_handle t = Some h"
    using assms by (auto simp: rtos_timer_stop_def bind_eq_Some_conv)
  obtain ret k1 where c: "xTimerStop R k h = (ret, k1)" by fastforce
  show ?thesis using assms h c stop_law [OF c] by (auto simp: rtos_timer_stop_def)
qed

lemma timer_expired:
  assumes "tm_handle t = Some h"
  shows "rtos_timer_expired R t k = Some (armed k h = None)"
  using assms active_law by (simp add: rtos_timer_expired_def)

lemma timer_remaining:
  assumes "tm_handle t = Some h" "armed k h = Some e" "tm_active t"
  shows "rtos_timer_remaining_ms R t k = Some (e - xTaskGetTickCount R k)"
  using assms expiry_law [OF assms(2)] by (simp add: rtos_timer_remaining_ms_def TICKS2MS_def)

end

section \<open>A kernel in memory\<close>

record ram_kernel =
  rk_tick :: u32
  rk_armed :: "timer_id \<Rightarrow> u32 option"
  rk_next :: timer_id

definition ram_rtos :: "ram_kernel rtos_ops" where
  "ram_rtos = \<lparr>
     xTimerCreateStatic = (\<lambda>k name. (Some (rk_next k), k\<lparr>rk_next := Suc (rk_next k)\<rparr>)),
     xTimerIsTimerActive = (\<lambda>k h. rk_armed k h \<noteq> None),
     xTimerChangePeriod = (\<lambda>k h p. (True, k\<lparr>rk_armed := (rk_armed k)(h \<mapsto> rk_tick k + p)\<rparr>)),
     xTimerStop = (\<lambda>k h. (True, k\<lparr>rk_armed := (rk_armed k)(h := None)\<rparr>)),
     xTimerReset = (\<lambda>k h. (False, k)),
     xTimerGetExpiryTime = (\<lambda>k h. case rk_armed k h of None \<Rightarrow> 0 | Some e \<Rightarrow> e),
     xTaskGetTickCount = rk_tick\<rparr>"

interpretation ramk: freertos ram_rtos rk_armed
  by unfold_locales (auto simp: ram_rtos_def)

lemma ram_rtos_simps [simp]:
  "xTimerCreateStatic ram_rtos k name = (Some (rk_next k), k\<lparr>rk_next := Suc (rk_next k)\<rparr>)"
  "xTimerIsTimerActive ram_rtos k h = (rk_armed k h \<noteq> None)"
  "xTimerChangePeriod ram_rtos k h p = (True, k\<lparr>rk_armed := (rk_armed k)(h \<mapsto> rk_tick k + p)\<rparr>)"
  "xTimerStop ram_rtos k h = (True, k\<lparr>rk_armed := (rk_armed k)(h := None)\<rparr>)"
  "xTimerGetExpiryTime ram_rtos k h = (case rk_armed k h of None \<Rightarrow> 0 | Some e \<Rightarrow> e)"
  "xTaskGetTickCount ram_rtos = rk_tick"
  by (simp_all add: ram_rtos_def)

lemmas timer_defs = rtos_timer_create_static_def rtos_timer_expired_def rtos_timer_start_def
  rtos_timer_stop_def rtos_timer_restart_def rtos_timer_remaining_ms_def TICKS2MS_def

end
