(* ===== verification/Sleep.thy ===== *)
theory Sleep
  imports Rtos
begin

text \<open>
  Power-off timer management, \<open>lib/sleep/sleep.c\<close>.  The state is the static \<open>sleep_ctx\<close>
  together with the kernel state of its timer.
\<close>

record sleep_ctx_t =
  power_timer :: rtos_timer_t
  timer_running :: bool
  inhibit_duration_ms :: u32
  charger_extra_ms :: u32
  shutting_down :: bool

abbreviation POWER_TIMEOUT_MS :: u32 where "POWER_TIMEOUT_MS \<equiv> 60000"
abbreviation SLEEP_INHIBIT_INFINITE :: u32 where "SLEEP_INHIBIT_INFINITE \<equiv> UINT32_MAX"

definition get_timeout_ms :: "sleep_ctx_t \<Rightarrow> u32" where
  "get_timeout_ms c =
     (if inhibit_duration_ms c = SLEEP_INHIBIT_INFINITE then SLEEP_INHIBIT_INFINITE
      else POWER_TIMEOUT_MS + inhibit_duration_ms c + charger_extra_ms c)"

text \<open>The sequence stop, start of the power timer that the functions share.\<close>

definition restart_power_timer ::
  "'k rtos_ops \<Rightarrow> u32 \<Rightarrow> sleep_ctx_t \<Rightarrow> 'k \<Rightarrow> (sleep_ctx_t \<times> 'k) option" where
  "restart_power_timer R timeout_ms c k =
     do { (t, k) \<leftarrow> rtos_timer_stop R (power_timer c) k;
          (t, k) \<leftarrow> rtos_timer_start R t timeout_ms k;
          Some (c\<lparr>power_timer := t\<rparr>, k) }"

definition sleep_init :: "'k rtos_ops \<Rightarrow> sleep_ctx_t \<Rightarrow> 'k \<Rightarrow> (sleep_ctx_t \<times> 'k) option" where
  "sleep_init R c k =
     do { (t, k) \<leftarrow> rtos_timer_create_static R (power_timer c) k;
          Some (c\<lparr>power_timer := t\<rparr>, k) }"

definition sleep_start_power_timer ::
  "'k rtos_ops \<Rightarrow> sleep_ctx_t \<Rightarrow> 'k \<Rightarrow> (sleep_ctx_t \<times> 'k) option" where
  "sleep_start_power_timer R c k =
     (if shutting_down c then Some (c, k)
      else let c = c\<lparr>timer_running := True\<rparr> in restart_power_timer R (get_timeout_ms c) c k)"

definition sleep_stop_power_timer ::
  "'k rtos_ops \<Rightarrow> sleep_ctx_t \<Rightarrow> 'k \<Rightarrow> (sleep_ctx_t \<times> 'k) option" where
  "sleep_stop_power_timer R c k =
     do { (t, k) \<leftarrow> rtos_timer_stop R (power_timer c) k;
          Some (c\<lparr>timer_running := False, power_timer := t, inhibit_duration_ms := 0\<rparr>, k) }"

definition sleep_refresh_power_timer ::
  "'k rtos_ops \<Rightarrow> sleep_ctx_t \<Rightarrow> 'k \<Rightarrow> (sleep_ctx_t \<times> 'k) option" where
  "sleep_refresh_power_timer R c k =
     (if timer_running c \<and> \<not> shutting_down c then restart_power_timer R (get_timeout_ms c) c k
      else Some (c, k))"

definition restart_if_running ::
  "'k rtos_ops \<Rightarrow> sleep_ctx_t \<Rightarrow> 'k \<Rightarrow> (sleep_ctx_t \<times> 'k) option" where
  "restart_if_running R c k =
     (if timer_running c then restart_power_timer R (get_timeout_ms c) c k else Some (c, k))"

definition sleep_inhibit ::
  "'k rtos_ops \<Rightarrow> u32 \<Rightarrow> sleep_ctx_t \<Rightarrow> 'k \<Rightarrow> (sleep_ctx_t \<times> 'k) option" where
  "sleep_inhibit R additional_ms c k =
     (if shutting_down c then Some (c, k)
      else restart_if_running R (c\<lparr>inhibit_duration_ms := additional_ms\<rparr>) k)"

definition sleep_clear_inhibit ::
  "'k rtos_ops \<Rightarrow> sleep_ctx_t \<Rightarrow> 'k \<Rightarrow> (sleep_ctx_t \<times> 'k) option" where
  "sleep_clear_inhibit R c k =
     (if shutting_down c then Some (c, k)
      else restart_if_running R (c\<lparr>inhibit_duration_ms := 0\<rparr>) k)"

definition sleep_set_charger_extension ::
  "'k rtos_ops \<Rightarrow> u32 \<Rightarrow> sleep_ctx_t \<Rightarrow> 'k \<Rightarrow> (sleep_ctx_t \<times> 'k) option" where
  "sleep_set_charger_extension R extra_ms c k =
     (if shutting_down c then Some (c, k)
      else restart_if_running R (c\<lparr>charger_extra_ms := extra_ms\<rparr>) k)"

definition sleep_get_configured_timeout :: "sleep_ctx_t \<Rightarrow> u32" where
  "sleep_get_configured_timeout c = get_timeout_ms c"

definition sleep_start_power_timer_with_timeout ::
  "'k rtos_ops \<Rightarrow> u32 \<Rightarrow> sleep_ctx_t \<Rightarrow> 'k \<Rightarrow> (sleep_ctx_t \<times> 'k) option" where
  "sleep_start_power_timer_with_timeout R timeout_ms c k =
     (if shutting_down c then Some (c, k)
      else restart_power_timer R timeout_ms (c\<lparr>timer_running := True, inhibit_duration_ms := 0\<rparr>) k)"

definition sleep_begin_shutdown ::
  "'k rtos_ops \<Rightarrow> sleep_ctx_t \<Rightarrow> 'k \<Rightarrow> (bool \<times> sleep_ctx_t \<times> 'k) option" where
  "sleep_begin_shutdown R c k =
     do { (t, k) \<leftarrow> rtos_timer_stop R (power_timer c) k;
          Some (\<not> shutting_down c,
                c\<lparr>shutting_down := True, timer_running := False, power_timer := t\<rparr>, k) }"

definition sleep_is_shutting_down :: "sleep_ctx_t \<Rightarrow> bool" where
  "sleep_is_shutting_down c = shutting_down c"

definition sleep_cancel_shutdown :: "sleep_ctx_t \<Rightarrow> sleep_ctx_t" where
  "sleep_cancel_shutdown c = c\<lparr>shutting_down := False\<rparr>"

section \<open>The shutdown latch\<close>

text \<open>The calls other tasks may make, as a step relation; \<open>Cancel\<close> is left out of it.\<close>

inductive sleep_step :: "'k rtos_ops \<Rightarrow> sleep_ctx_t \<times> 'k \<Rightarrow> sleep_ctx_t \<times> 'k \<Rightarrow> bool" for R where
  Start: "sleep_start_power_timer R c k = Some s \<Longrightarrow> sleep_step R (c, k) s"
| Stop: "sleep_stop_power_timer R c k = Some s \<Longrightarrow> sleep_step R (c, k) s"
| Refresh: "sleep_refresh_power_timer R c k = Some s \<Longrightarrow> sleep_step R (c, k) s"
| Inhibit: "sleep_inhibit R ms c k = Some s \<Longrightarrow> sleep_step R (c, k) s"
| Clear_Inhibit: "sleep_clear_inhibit R c k = Some s \<Longrightarrow> sleep_step R (c, k) s"
| Charger: "sleep_set_charger_extension R ms c k = Some s \<Longrightarrow> sleep_step R (c, k) s"
| Start_Abs: "sleep_start_power_timer_with_timeout R ms c k = Some s \<Longrightarrow> sleep_step R (c, k) s"
| Shutdown: "sleep_begin_shutdown R c k = Some (b, s) \<Longrightarrow> sleep_step R (c, k) s"

text \<open>Shutdown is latched: the timer is marked as not running, and it is disarmed or still has the
  deadline \<open>old\<close>.\<close>

definition power_off_latched ::
  "('k \<Rightarrow> timer_id \<Rightarrow> u32 option) \<Rightarrow> timer_id \<Rightarrow> u32 option \<Rightarrow> sleep_ctx_t \<times> 'k \<Rightarrow> bool" where
  "power_off_latched armed h old s =
     (shutting_down (fst s) \<and> \<not> timer_running (fst s) \<and>
      tm_handle (power_timer (fst s)) = Some h \<and> armed (snd s) h \<in> {None, old})"

context freertos
begin

lemma stop_latched:
  assumes "rtos_timer_stop R t k = Some (t', k')" "tm_handle t = Some h"
  shows "tm_handle t' = Some h \<and>
     armed k' h = (if fst (xTimerStop R k h) then None else armed k h)"
  using timer_stop [OF assms(1)] assms(2) by auto

lemma begin_shutdown_latches:
  assumes "sleep_begin_shutdown R c k = Some (b, s)" "tm_handle (power_timer c) = Some h"
  shows "power_off_latched armed h (if fst (xTimerStop R k h) then None else armed k h) s"
  using assms stop_latched
  by (auto simp: sleep_begin_shutdown_def bind_eq_Some_conv power_off_latched_def)

lemma step_latched:
  assumes "sleep_step R s s'" "power_off_latched armed h old s"
  shows "power_off_latched armed h old s'"
  using assms
proof (cases rule: sleep_step.cases)
  case (Stop c k)
  then show ?thesis
    using assms(2) stop_latched [of "power_timer c" k _ _ h]
    by (auto simp: sleep_stop_power_timer_def bind_eq_Some_conv power_off_latched_def)
next
  case (Shutdown c k b)
  then show ?thesis
    using assms(2) stop_latched [of "power_timer c" k _ _ h]
    by (auto simp: sleep_begin_shutdown_def bind_eq_Some_conv power_off_latched_def)
qed (auto simp: power_off_latched_def sleep_start_power_timer_def sleep_refresh_power_timer_def
      sleep_inhibit_def sleep_clear_inhibit_def sleep_set_charger_extension_def
      sleep_start_power_timer_with_timeout_def)

lemma steps_latched:
  assumes "(sleep_step R)\<^sup>*\<^sup>* s s'" "power_off_latched armed h old s"
  shows "power_off_latched armed h old s'"
  using assms by (induction rule: rtranclp_induct) (auto dest: step_latched)

end

section \<open>Properties\<close>

text \<open>C28: Once shutdown has begun, no sequence of start, stop, refresh, inhibit, charger or
  repeated shutdown calls clears the latch, marks the power timer as running or gives it a new
  deadline.  If the kernel accepted the stop of the shutdown the timer stays disarmed; the wrapper
  ignores a refused stop, and then the timer may still have the deadline it had before.\<close>

theorem sleep_shutdown_latch:
  assumes "freertos R armed" "sleep_begin_shutdown R c k = Some (first, s)"
    and "(sleep_step R)\<^sup>*\<^sup>* s (c', k')"
  shows "sleep_is_shutting_down c' \<and> \<not> timer_running c' \<and>
     (\<exists>h. tm_handle (power_timer c) = Some h \<and> tm_handle (power_timer c') = Some h \<and>
        (if fst (xTimerStop R k h) then armed k' h = None
         else armed k' h = None \<or> armed k' h = armed k h))"
proof -
  obtain h where h: "tm_handle (power_timer c) = Some h"
    using assms(2) by (auto simp: sleep_begin_shutdown_def rtos_timer_stop_def bind_eq_Some_conv)
  from freertos.steps_latched [OF assms(1,3) freertos.begin_shutdown_latches [OF assms(1,2) h]]
  show ?thesis by (auto simp: power_off_latched_def sleep_is_shutting_down_def h)
qed

definition sleep_example :: sleep_ctx_t where
  "sleep_example = \<lparr>power_timer = \<lparr>tm_name = ''power'', tm_handle = Some 7, tm_active = True\<rparr>,
     timer_running = True, inhibit_duration_ms = 0, charger_extra_ms = 0, shutting_down = False\<rparr>"

definition kernel_example :: ram_kernel where
  "kernel_example = \<lparr>rk_tick = 1000, rk_armed = [7 \<mapsto> 61000], rk_next = 8\<rparr>"

theorem sleep_shutdown_latch_witness:
  "\<exists>s c' k'. sleep_begin_shutdown ram_rtos sleep_example kernel_example = Some (True, s) \<and>
     (sleep_step ram_rtos)\<^sup>*\<^sup>* s (c', k') \<and> rk_armed k' 7 = None"
proof -
  obtain c k where b: "sleep_begin_shutdown ram_rtos sleep_example kernel_example = Some (True, (c, k))"
    and c: "shutting_down c" "tm_handle (power_timer c) = Some 7"
    by (auto simp: sleep_begin_shutdown_def timer_defs sleep_example_def)
  have st: "(sleep_step ram_rtos)\<^sup>*\<^sup>* (c, k) (c, k)"
    using sleep_step.Start [of ram_rtos c k] c(1) by (auto simp: sleep_start_power_timer_def)
  from sleep_shutdown_latch [OF ramk.freertos_axioms b st] c(2) b st show ?thesis by fastforce
qed

end
