(* ===== verification/Auth.thy ===== *)
theory Auth
  imports Sleep
begin

text \<open>
  The authentication state, \<open>lib/auth/src/auth.c\<close>: whether the device is unlocked, by which
  method, and the expiry timer that locks it again.  It drives the power timer of \<open>Sleep\<close>.
  The \<open>on_lock\<close> callback belongs to the application; its invocations are recorded.
  \<open>is_authenticated\<close> is the production variant (without \<open>AUTOMATED_TESTING\<close>).
\<close>

datatype auth_unlock_method_t =
  AUTH_METHOD_UNSPECIFIED | AUTH_METHOD_BIOMETRICS | AUTH_METHOD_UNLOCK_SECRET

abbreviation AUTH_INVALID_FINGERPRINT_INDEX :: u8 where "AUTH_INVALID_FINGERPRINT_INDEX \<equiv> 0xFF"

record auth_ctx_t =
  authenticated :: secure_bool_t
  allow_fingerprint_enrollment :: secure_bool_t
  auth_method :: auth_unlock_method_t
  fingerprint_index :: u8
  auth_timer :: rtos_timer_t
  auth_has_on_lock :: bool
  expiry_ms :: u32

text \<open>The static contexts of the two libraries, the kernel, and the \<open>on_lock\<close> calls so far
  (latest first).\<close>

record 'k auth_sys =
  sys_auth :: auth_ctx_t
  sys_sleep :: sleep_ctx_t
  sys_kernel :: 'k
  sys_on_lock :: "bool list"

definition auth_init ::
  "'k rtos_ops \<Rightarrow> u32 \<Rightarrow> bool \<Rightarrow> 'k auth_sys \<Rightarrow> 'k auth_sys option" where
  "auth_init R expiry has_on_lock s =
     do { (t, k) \<leftarrow> rtos_timer_create_static R (auth_timer (sys_auth s)) (sys_kernel s);
          Some (s\<lparr>sys_auth := (sys_auth s)\<lparr>auth_timer := t, expiry_ms := expiry,
                    auth_has_on_lock := has_on_lock\<rparr>,
                  sys_kernel := k\<rparr>) }"

definition is_authenticated :: "'k auth_sys \<Rightarrow> secure_bool_t" where
  "is_authenticated s =
     (if authenticated (sys_auth s) = SECURE_TRUE then SECURE_TRUE else SECURE_FALSE)"

definition is_allowing_fingerprint_enrollment :: "'k auth_sys \<Rightarrow> secure_bool_t" where
  "is_allowing_fingerprint_enrollment s =
     (if allow_fingerprint_enrollment (sys_auth s) = SECURE_TRUE then SECURE_TRUE else SECURE_FALSE)"

text \<open>Stop and start the expiry timer.\<close>

definition restart_auth_timer :: "'k rtos_ops \<Rightarrow> 'k auth_sys \<Rightarrow> 'k auth_sys option" where
  "restart_auth_timer R s =
     do { (t, k) \<leftarrow> rtos_timer_stop R (auth_timer (sys_auth s)) (sys_kernel s);
          (t, k) \<leftarrow> rtos_timer_start R t (expiry_ms (sys_auth s)) k;
          Some (s\<lparr>sys_auth := (sys_auth s)\<lparr>auth_timer := t\<rparr>, sys_kernel := k\<rparr>) }"

definition do_authenticate ::
  "'k rtos_ops \<Rightarrow> auth_unlock_method_t \<Rightarrow> u8 \<Rightarrow> 'k auth_sys \<Rightarrow> 'k auth_sys option" where
  "do_authenticate R method fp_index s =
     do { s \<leftarrow> restart_auth_timer R (s\<lparr>sys_auth := (sys_auth s)\<lparr>authenticated := SECURE_TRUE,
                  auth_method := method, fingerprint_index := fp_index\<rparr>\<rparr>);
          (c, k) \<leftarrow> sleep_stop_power_timer R (sys_sleep s) (sys_kernel s);
          Some (s\<lparr>sys_sleep := c, sys_kernel := k\<rparr>) }"

definition auth_authenticate_biometrics ::
  "'k rtos_ops \<Rightarrow> u8 \<Rightarrow> 'k auth_sys \<Rightarrow> 'k auth_sys option" where
  "auth_authenticate_biometrics R fp_index s = do_authenticate R AUTH_METHOD_BIOMETRICS fp_index s"

definition auth_authenticate_unlock_secret :: "'k rtos_ops \<Rightarrow> 'k auth_sys \<Rightarrow> 'k auth_sys option" where
  "auth_authenticate_unlock_secret R s =
     do_authenticate R AUTH_METHOD_UNLOCK_SECRET AUTH_INVALID_FINGERPRINT_INDEX s"

definition do_deauthenticate :: "'k rtos_ops \<Rightarrow> bool \<Rightarrow> 'k auth_sys \<Rightarrow> 'k auth_sys option" where
  "do_deauthenticate R show_animation s =
     (let was_authenticated = authenticated (sys_auth s);
          a = (sys_auth s)\<lparr>authenticated := SECURE_FALSE, auth_method := AUTH_METHOD_UNSPECIFIED,
                fingerprint_index := AUTH_INVALID_FINGERPRINT_INDEX,
                allow_fingerprint_enrollment := SECURE_FALSE\<rparr>
      in do { (t, k) \<leftarrow> rtos_timer_stop R (auth_timer a) (sys_kernel s);
              (c, k) \<leftarrow> sleep_start_power_timer R (sys_sleep s) k;
              Some (s\<lparr>sys_auth := a\<lparr>auth_timer := t\<rparr>, sys_sleep := c, sys_kernel := k,
                      sys_on_lock := (if auth_has_on_lock a
                        then (show_animation \<and> was_authenticated = SECURE_TRUE) # sys_on_lock s
                        else sys_on_lock s)\<rparr>) })"

definition deauthenticate :: "'k rtos_ops \<Rightarrow> 'k auth_sys \<Rightarrow> 'k auth_sys option" where
  "deauthenticate R s = do_deauthenticate R True s"

definition deauthenticate_without_animation :: "'k rtos_ops \<Rightarrow> 'k auth_sys \<Rightarrow> 'k auth_sys option" where
  "deauthenticate_without_animation R s = do_deauthenticate R False s"

text \<open>\<open>SECURE_DO\<close> performs the action three times.\<close>

definition auth_timer_callback :: "'k rtos_ops \<Rightarrow> 'k auth_sys \<Rightarrow> 'k auth_sys option" where
  "auth_timer_callback R s =
     do { s \<leftarrow> deauthenticate R s; s \<leftarrow> deauthenticate R s; deauthenticate R s }"

definition refresh_auth :: "'k rtos_ops \<Rightarrow> 'k auth_sys \<Rightarrow> (secure_bool_t \<times> 'k auth_sys) option" where
  "refresh_auth R s =
     (if is_authenticated s = SECURE_TRUE
      then do { s \<leftarrow> restart_auth_timer R s; Some (SECURE_TRUE, s) }
      else Some (SECURE_FALSE, s))"

definition present_grant_for_fingerprint_enrollment :: "'k auth_sys \<Rightarrow> 'k auth_sys" where
  "present_grant_for_fingerprint_enrollment s =
     s\<lparr>sys_auth := (sys_auth s)\<lparr>allow_fingerprint_enrollment := SECURE_TRUE\<rparr>\<rparr>"

definition auth_get_unlock_method :: "'k auth_sys \<Rightarrow> auth_unlock_method_t" where
  "auth_get_unlock_method s = auth_method (sys_auth s)"

definition auth_get_fingerprint_index :: "'k auth_sys \<Rightarrow> u8" where
  "auth_get_fingerprint_index s = fingerprint_index (sys_auth s)"

section \<open>Locking and expiry\<close>

text \<open>
  What can happen: any call of the interface, the passage of time while no timer fires, and
  the expiry of the authentication timer, which the kernel disarms before the callback.
\<close>

inductive auth_step ::
  "'k rtos_ops \<Rightarrow> ('k \<Rightarrow> timer_id \<Rightarrow> u32 option) \<Rightarrow> 'k auth_sys \<Rightarrow> 'k auth_sys \<Rightarrow> bool"
  for R armed where
  Biometrics: "auth_authenticate_biometrics R i s = Some s' \<Longrightarrow> auth_step R armed s s'"
| Secret: "auth_authenticate_unlock_secret R s = Some s' \<Longrightarrow> auth_step R armed s s'"
| Lock: "deauthenticate R s = Some s' \<Longrightarrow> auth_step R armed s s'"
| Lock_Quiet: "deauthenticate_without_animation R s = Some s' \<Longrightarrow> auth_step R armed s s'"
| Refresh: "refresh_auth R s = Some (b, s') \<Longrightarrow> auth_step R armed s s'"
| Grant: "auth_step R armed s (present_grant_for_fingerprint_enrollment s)"
| Time: "armed k = armed (sys_kernel s) \<Longrightarrow> auth_step R armed s (s\<lparr>sys_kernel := k\<rparr>)"
| Expire: "tm_handle (auth_timer (sys_auth s)) = Some h \<Longrightarrow>
    armed k = (armed (sys_kernel s))(h := None) \<Longrightarrow>
    auth_timer_callback R (s\<lparr>sys_kernel := k\<rparr>) = Some s' \<Longrightarrow> auth_step R armed s s'"

text \<open>Unlocked with the expiry timer running and the power timer marked as stopped, or locked with
  nothing remembered of the unlock.  A stop that the kernel refuses goes unnoticed, so nothing is
  said of the deadlines of the stopped timers.\<close>

definition auth_inv :: "('k \<Rightarrow> timer_id \<Rightarrow> u32 option) \<Rightarrow> 'k auth_sys \<Rightarrow> bool" where
  "auth_inv armed s =
     (\<exists>ha hp. tm_handle (auth_timer (sys_auth s)) = Some ha \<and>
        tm_handle (power_timer (sys_sleep s)) = Some hp \<and> ha \<noteq> hp \<and>
        (if authenticated (sys_auth s) = SECURE_TRUE
         then armed (sys_kernel s) ha \<noteq> None \<and> \<not> timer_running (sys_sleep s)
         else authenticated (sys_auth s) = SECURE_FALSE \<and>
              auth_method (sys_auth s) = AUTH_METHOD_UNSPECIFIED \<and>
              fingerprint_index (sys_auth s) = AUTH_INVALID_FINGERPRINT_INDEX))"

text \<open>The two timers exist and are different.\<close>

definition auth_timers :: "'k auth_sys \<Rightarrow> timer_id \<Rightarrow> timer_id \<Rightarrow> bool" where
  "auth_timers s ha hp =
     (tm_handle (auth_timer (sys_auth s)) = Some ha \<and>
      tm_handle (power_timer (sys_sleep s)) = Some hp \<and> ha \<noteq> hp)"

lemma auth_inv_timers: "auth_inv armed s \<Longrightarrow> \<exists>ha hp. auth_timers s ha hp"
  by (auto simp: auth_inv_def auth_timers_def)

context freertos
begin

lemma restart_auth_timer_arms:
  assumes "restart_auth_timer R s = Some s'" "auth_timers s ha hp"
  shows "\<exists>k. s' = s\<lparr>sys_auth := (sys_auth s)\<lparr>auth_timer := (auth_timer (sys_auth s))\<lparr>tm_active := True\<rparr>\<rparr>,
            sys_kernel := k\<rparr> \<and>
     armed k = (armed (sys_kernel s))(ha \<mapsto> xTaskGetTickCount R (sys_kernel s) + expiry_ms (sys_auth s)) \<and>
     xTaskGetTickCount R k = xTaskGetTickCount R (sys_kernel s)"
proof -
  obtain t1 k1 t2 k2 where
    a: "rtos_timer_stop R (auth_timer (sys_auth s)) (sys_kernel s) = Some (t1, k1)" and
    b: "rtos_timer_start R t1 (expiry_ms (sys_auth s)) k1 = Some (t2, k2)" and
    c: "s' = s\<lparr>sys_auth := (sys_auth s)\<lparr>auth_timer := t2\<rparr>, sys_kernel := k2\<rparr>"
    using assms(1) by (auto simp: restart_auth_timer_def bind_eq_Some_conv)
  show ?thesis
    using timer_stop [OF a] timer_start [OF b] assms(2) unfolding c
    by (auto simp: auth_timers_def)
qed

lemma do_authenticate_arms:
  assumes "do_authenticate R m i s = Some s'" "auth_timers s ha hp"
  shows "auth_timers s' ha hp \<and> authenticated (sys_auth s') = SECURE_TRUE \<and>
     auth_method (sys_auth s') = m \<and> fingerprint_index (sys_auth s') = i \<and>
     armed (sys_kernel s') ha = Some (xTaskGetTickCount R (sys_kernel s) + expiry_ms (sys_auth s)) \<and>
     \<not> timer_running (sys_sleep s')"
proof -
  let ?s = "s\<lparr>sys_auth := (sys_auth s)\<lparr>authenticated := SECURE_TRUE,
                  auth_method := m, fingerprint_index := i\<rparr>\<rparr>"
  obtain s1 t k where
    a: "restart_auth_timer R ?s = Some s1" and
    b: "rtos_timer_stop R (power_timer (sys_sleep s1)) (sys_kernel s1) = Some (t, k)" and
    c: "s' = s1\<lparr>sys_sleep := (sys_sleep s1)\<lparr>timer_running := False, power_timer := t,
          inhibit_duration_ms := 0\<rparr>, sys_kernel := k\<rparr>"
    using assms(1)
    by (auto simp: do_authenticate_def sleep_stop_power_timer_def bind_eq_Some_conv)
  have h: "auth_timers ?s ha hp" using assms(2) by (simp add: auth_timers_def)
  show ?thesis
    using restart_auth_timer_arms [OF a h] timer_stop [OF b] assms(2) unfolding c
    by (auto simp: auth_timers_def)
qed

lemma restart_power_timer_other:
  assumes "restart_power_timer R d c k = Some (c', k')" "tm_handle (power_timer c) = Some hp" "h \<noteq> hp"
  shows "armed k' h = armed k h \<and> tm_handle (power_timer c') = Some hp"
proof -
  obtain t1 k1 t2 k2 where
    a: "rtos_timer_stop R (power_timer c) k = Some (t1, k1)" and
    b: "rtos_timer_start R t1 d k1 = Some (t2, k2)" and
    c: "c' = c\<lparr>power_timer := t2\<rparr>" "k' = k2"
    using assms(1) by (auto simp: restart_power_timer_def bind_eq_Some_conv)
  show ?thesis
    using timer_stop [OF a] timer_start [OF b] assms(2,3) unfolding c by auto
qed

lemma do_deauthenticate_locks:
  assumes "do_deauthenticate R b s = Some s'" "auth_timers s ha hp"
  shows "auth_timers s' ha hp \<and> authenticated (sys_auth s') = SECURE_FALSE \<and>
     allow_fingerprint_enrollment (sys_auth s') = SECURE_FALSE \<and>
     auth_method (sys_auth s') = AUTH_METHOD_UNSPECIFIED \<and>
     fingerprint_index (sys_auth s') = AUTH_INVALID_FINGERPRINT_INDEX"
proof -
  obtain t k c k' where
    a: "rtos_timer_stop R (auth_timer (sys_auth s)) (sys_kernel s) = Some (t, k)" and
    b: "sleep_start_power_timer R (sys_sleep s) k = Some (c, k')" and
    e: "authenticated (sys_auth s') = SECURE_FALSE" "auth_timer (sys_auth s') = t"
      "allow_fingerprint_enrollment (sys_auth s') = SECURE_FALSE"
      "auth_method (sys_auth s') = AUTH_METHOD_UNSPECIFIED"
      "fingerprint_index (sys_auth s') = AUTH_INVALID_FINGERPRINT_INDEX"
      "sys_sleep s' = c" "sys_kernel s' = k'"
    using assms(1) by (auto simp: do_deauthenticate_def Let_def bind_eq_Some_conv)
  have "armed k' ha = armed k ha \<and> tm_handle (power_timer c) = Some hp"
    using b assms(2) restart_power_timer_other [of _ "(sys_sleep s)\<lparr>timer_running := True\<rparr>" k c k' hp ha]
    by (auto simp: sleep_start_power_timer_def auth_timers_def Let_def split: if_splits)
  then show ?thesis using timer_stop [OF a] assms(2) e by (auto simp: auth_timers_def)
qed

lemma authenticate_inv:
  assumes "do_authenticate R m i s = Some s'" "auth_timers s ha hp"
  shows "auth_inv armed s'"
  using do_authenticate_arms [OF assms] by (auto simp: auth_inv_def auth_timers_def)

lemma deauthenticate_inv:
  assumes "do_deauthenticate R b s = Some s'" "auth_timers s ha hp"
  shows "auth_inv armed s'"
  using do_deauthenticate_locks [OF assms] by (auto simp: auth_inv_def auth_timers_def)

lemma callback_locks:
  assumes "auth_timer_callback R s = Some s'" "auth_timers s ha hp"
  shows "auth_inv armed s' \<and> authenticated (sys_auth s') = SECURE_FALSE \<and>
     allow_fingerprint_enrollment (sys_auth s') = SECURE_FALSE"
proof -
  obtain s1 s2 where d: "do_deauthenticate R True s = Some s1" "do_deauthenticate R True s1 = Some s2"
    "do_deauthenticate R True s2 = Some s'"
    using assms(1) by (auto simp: auth_timer_callback_def deauthenticate_def bind_eq_Some_conv)
  have h1: "auth_timers s1 ha hp" using do_deauthenticate_locks [OF d(1) assms(2)] by blast
  have h2: "auth_timers s2 ha hp" using do_deauthenticate_locks [OF d(2) h1] by blast
  show ?thesis
    using do_deauthenticate_locks [OF d(3) h2] deauthenticate_inv [OF d(3) h2] by blast
qed

lemma step_inv:
  assumes "auth_step R armed s s'" "auth_inv armed s"
  shows "auth_inv armed s'"
proof -
  from auth_inv_timers [OF assms(2)] obtain ha hp where h: "auth_timers s ha hp" by blast
  from assms(1) show ?thesis
  proof cases
    case (Refresh b)
    show ?thesis
    proof (cases "authenticated (sys_auth s) = SECURE_TRUE")
      case True
      with Refresh have r: "restart_auth_timer R s = Some s'"
        by (auto simp: refresh_auth_def is_authenticated_def bind_eq_Some_conv)
      show ?thesis
        using restart_auth_timer_arms [OF r h] assms(2) True h
        by (auto simp: auth_inv_def auth_timers_def)
    next
      case False
      with Refresh assms(2) show ?thesis by (simp add: refresh_auth_def is_authenticated_def)
    qed
  next
    case (Expire h' k)
    have "auth_timers (s\<lparr>sys_kernel := k\<rparr>) ha hp" using h by (simp add: auth_timers_def)
    then show ?thesis using callback_locks [OF Expire(3)] by blast
  next
    case (Biometrics i)
    then show ?thesis using authenticate_inv h by (auto simp: auth_authenticate_biometrics_def)
  next
    case Secret
    then show ?thesis using authenticate_inv h by (auto simp: auth_authenticate_unlock_secret_def)
  next
    case Lock
    then show ?thesis using deauthenticate_inv h by (auto simp: deauthenticate_def)
  next
    case Lock_Quiet
    then show ?thesis using deauthenticate_inv h by (auto simp: deauthenticate_without_animation_def)
  next
    case Grant
    then show ?thesis
      using assms(2)
      by (auto simp: present_grant_for_fingerprint_enrollment_def auth_inv_def split: if_splits)
  next
    case (Time k)
    then show ?thesis using assms(2) by (auto simp: auth_inv_def split: if_splits)
  qed
qed

lemma steps_inv:
  assumes "(auth_step R armed)\<^sup>*\<^sup>* s s'" "auth_inv armed s"
  shows "auth_inv armed s'"
  using assms by (induction rule: rtranclp_induct) (auto dest: step_inv)

end

section \<open>Properties\<close>

text \<open>C15: In every state reachable from a consistent one by unlocking, locking, refreshing,
  presenting a grant, time passing and expiry, an authenticated device has its expiry timer
  running and its power timer marked as not running; there is no unlocked state that would not lock.\<close>

theorem auth_unlocked_has_deadline:
  assumes "freertos R armed" "auth_inv armed s" "(auth_step R armed)\<^sup>*\<^sup>* s s'"
    and "is_authenticated s' = SECURE_TRUE"
  shows "\<exists>h. tm_handle (auth_timer (sys_auth s')) = Some h \<and>
     xTimerIsTimerActive R (sys_kernel s') h \<and> \<not> timer_running (sys_sleep s')"
  using freertos.steps_inv [OF assms(1,3,2)] freertos.active_law [OF assms(1)] assms(4)
  by (auto simp: auth_inv_def is_authenticated_def split: if_splits)

definition auth_example :: "ram_kernel auth_sys" where
  "auth_example = \<lparr>
     sys_auth = \<lparr>authenticated = SECURE_FALSE, allow_fingerprint_enrollment = SECURE_FALSE,
       auth_method = AUTH_METHOD_UNSPECIFIED, fingerprint_index = AUTH_INVALID_FINGERPRINT_INDEX,
       auth_timer = \<lparr>tm_name = ''auth'', tm_handle = Some 3, tm_active = False\<rparr>,
       auth_has_on_lock = True, expiry_ms = 150000\<rparr>,
     sys_sleep = sleep_example, sys_kernel = kernel_example, sys_on_lock = []\<rparr>"

lemma auth_example_inv: "auth_inv rk_armed auth_example"
  by (simp add: auth_inv_def auth_example_def sleep_example_def kernel_example_def)

theorem auth_unlocked_has_deadline_witness:
  "\<exists>s'. auth_authenticate_unlock_secret ram_rtos auth_example = Some s' \<and>
        is_authenticated s' = SECURE_TRUE \<and>
        (\<exists>h. tm_handle (auth_timer (sys_auth s')) = Some h \<and> xTimerIsTimerActive ram_rtos (sys_kernel s') h)"
proof -
  obtain s' where a: "auth_authenticate_unlock_secret ram_rtos auth_example = Some s'"
    and t: "is_authenticated s' = SECURE_TRUE"
    by (simp add: auth_authenticate_unlock_secret_def do_authenticate_def restart_auth_timer_def
        sleep_stop_power_timer_def timer_defs is_authenticated_def auth_example_def sleep_example_def
        kernel_example_def)
  have "(auth_step ram_rtos rk_armed)\<^sup>*\<^sup>* auth_example s'"
    using auth_step.Secret [OF a] by (rule r_into_rtranclp)
  from auth_unlocked_has_deadline [OF ramk.freertos_axioms auth_example_inv this t] a t
  show ?thesis by blast
qed

text \<open>C11: Unlocking arms the expiry timer to fire \<open>expiry_ms\<close> later; when it fires the device
  is locked, the unlock method and finger are forgotten and a pending permission to enroll
  fingerprints is withdrawn.\<close>

theorem auth_expiry_locks:
  assumes "freertos R armed" "auth_timers s ha hp"
    and "do_authenticate R m i s = Some s1"
    and "auth_timer_callback R (s1\<lparr>sys_kernel := k\<rparr>) = Some s2"
  shows "armed (sys_kernel s1) ha = Some (xTaskGetTickCount R (sys_kernel s) + expiry_ms (sys_auth s)) \<and>
     is_authenticated s1 = SECURE_TRUE \<and> auth_get_unlock_method s1 = m \<and>
     is_authenticated s2 = SECURE_FALSE \<and>
     auth_get_unlock_method s2 = AUTH_METHOD_UNSPECIFIED \<and>
     auth_get_fingerprint_index s2 = AUTH_INVALID_FINGERPRINT_INDEX \<and>
     is_allowing_fingerprint_enrollment s2 = SECURE_FALSE"
proof -
  note a = freertos.do_authenticate_arms [OF assms(1,3,2)]
  have h: "auth_timers (s1\<lparr>sys_kernel := k\<rparr>) ha hp" using a by (simp add: auth_timers_def)
  show ?thesis
    using a freertos.callback_locks [OF assms(1,4) h]
    by (auto simp: is_authenticated_def auth_get_unlock_method_def auth_get_fingerprint_index_def
        is_allowing_fingerprint_enrollment_def auth_inv_def)
qed

theorem auth_expiry_locks_witness:
  "\<exists>s1 s2. auth_authenticate_biometrics ram_rtos 2 auth_example = Some s1 \<and>
     auth_timer_callback ram_rtos (s1\<lparr>sys_kernel := kernel_example\<rparr>) = Some s2 \<and>
     is_authenticated s1 = SECURE_TRUE \<and> is_authenticated s2 = SECURE_FALSE"
proof -
  have h: "auth_timers auth_example 3 7"
    by (simp add: auth_timers_def auth_example_def sleep_example_def)
  obtain s1 where a: "do_authenticate ram_rtos AUTH_METHOD_BIOMETRICS 2 auth_example = Some s1"
    and s1: "tm_handle (auth_timer (sys_auth s1)) = Some 3" "sys_sleep s1 =
      sleep_example\<lparr>timer_running := False, power_timer := (power_timer sleep_example)\<lparr>tm_active := False\<rparr>\<rparr>"
    by (simp add: do_authenticate_def restart_auth_timer_def sleep_stop_power_timer_def timer_defs
        auth_example_def sleep_example_def kernel_example_def)
  have "\<exists>s2. auth_timer_callback ram_rtos (s1\<lparr>sys_kernel := kernel_example\<rparr>) = Some s2"
    using s1 by (simp add: auth_timer_callback_def deauthenticate_def do_deauthenticate_def Let_def
        sleep_start_power_timer_def restart_power_timer_def timer_defs sleep_example_def)
  then obtain s2 where b: "auth_timer_callback ram_rtos (s1\<lparr>sys_kernel := kernel_example\<rparr>) = Some s2"
    by blast
  from auth_expiry_locks [OF ramk.freertos_axioms h a b] a b show ?thesis
    by (auto simp: auth_authenticate_biometrics_def)
qed

end
