(* ===== verification/Secure.thy ===== *)
theory Secure
  imports Prelude
begin

text \<open>
  The hardening helpers: the constant-time comparison and clearing of \<open>lib/wstd\<close>, the
  fault-injection macros of \<open>lib/secutils/inc/secutils.h\<close> and the randomness check
  \<open>lib/secutils/src/dudero.c\<close>.  For the macros a fault scenario is a set of indices of
  evaluations whose outcome an attacker inverts (for a counter step: which are skipped);
  with the empty set the macros behave as written.
\<close>

section \<open>Constant-time comparison\<close>

text \<open>One iteration: \<open>m\<close> is all ones while no difference was seen.\<close>

definition memcmp_step :: "u16 \<Rightarrow> u8 \<Rightarrow> u8 \<Rightarrow> u16" where
  "memcmp_step r c1 c2 =
     (let v = ucast (ucast r :: u8) + 255 :: u16;
          m = v div 256 - 1;
          d = word_of_int (uint c1 - uint c2)
      in r OR (d AND m))"

fun memcmp_loop :: "u16 \<Rightarrow> bytes \<Rightarrow> bytes \<Rightarrow> nat \<Rightarrow> u16" where
  "memcmp_loop r (c1 # b1) (c2 # b2) (Suc len) = memcmp_loop (memcmp_step r c1 c2) b1 b2 len"
| "memcmp_loop r _ _ _ = r"

definition memcmp_s :: "bytes \<Rightarrow> bytes \<Rightarrow> nat \<Rightarrow> int" where
  "memcmp_s b1 b2 len =
     uint (ucast (ucast (memcmp_loop 0 b1 b2 len) + 0x8000 :: u32) :: u16) - 0x8000"

text \<open>\<open>memzero\<close>, as the bytes it leaves.\<close>

fun memzero_loop :: "bytes \<Rightarrow> nat \<Rightarrow> bytes" where
  "memzero_loop (b # bs) (Suc len) = 0 # memzero_loop bs len"
| "memzero_loop bs _ = bs"

definition memzero :: "bytes \<Rightarrow> nat \<Rightarrow> bytes" where
  "memzero pnt len = memzero_loop pnt len"

lemma memzero_all: "memzero bs (length bs) = replicate (length bs) 0"
  unfolding memzero_def by (induction bs) simp_all

text \<open>The specification: the difference of the first bytes that differ.\<close>

fun first_diff :: "bytes \<Rightarrow> bytes \<Rightarrow> nat \<Rightarrow> int" where
  "first_diff (c1 # b1) (c2 # b2) (Suc len) =
     (if c1 = c2 then first_diff b1 b2 len else uint c1 - uint c2)"
| "first_diff _ _ _ = 0"

lemma u8_diff_bounds: "- 255 \<le> uint (a :: u8) - uint (b :: u8) \<and> uint a - uint b \<le> 255"
proof -
  have "uint a < 256" "uint b < 256" using uint_lt2p [of a] uint_lt2p [of b] by simp_all
  then show ?thesis using uint_ge_0 [of a] uint_ge_0 [of b] by linarith
qed

lemma low_byte_nonzero:
  assumes "e \<noteq> 0" "- 255 \<le> e" "e \<le> 255"
  shows "(ucast (word_of_int e :: u16) :: u8) \<noteq> 0"
proof
  assume "(ucast (word_of_int e :: u16) :: u8) = 0"
  then have "uint (ucast (word_of_int e :: u16) :: u8) = 0" by simp
  then have "take_bit 8 e = 0"
    by (simp add: unsigned_ucast_eq uint_word_of_int_eq)
  then have "e mod 256 = 0" by (simp add: take_bit_eq_mod)
  then show False using assms by presburger
qed

lemma memcmp_mask_zero:
  assumes "x \<noteq> 0"
  shows "(ucast (x :: u8) + 255 :: u16) div 256 - 1 = 0"
proof -
  have x: "0 < unat x" "unat x < 256" using assms unat_u8_less [of x] by (simp_all add: unat_gt_0)
  have "unat (ucast x + 255 :: u16) = unat x + 255"
    using x by (subst unat_plus_no_wrap) simp_all
  then have "unat ((ucast x + 255 :: u16) div 256) = (unat x + 255) div 256" by (simp add: unat_div)
  moreover have "(unat x + 255) div 256 = 1" using x by simp
  ultimately have "(ucast x + 255 :: u16) div 256 = 1" by (simp add: word_unat_eq_iff)
  then show ?thesis by simp
qed

lemma memcmp_step_same:
  "e \<noteq> 0 \<Longrightarrow> - 255 \<le> e \<Longrightarrow> e \<le> 255 \<Longrightarrow> memcmp_step (word_of_int e) c1 c2 = word_of_int e"
  using memcmp_mask_zero [OF low_byte_nonzero] by (simp add: memcmp_step_def Let_def)

lemma memcmp_step_zero: "memcmp_step 0 c1 c2 = word_of_int (uint c1 - uint c2)"
  by (simp add: memcmp_step_def Let_def)

lemma memcmp_loop_same:
  "e \<noteq> 0 \<Longrightarrow> - 255 \<le> e \<Longrightarrow> e \<le> 255 \<Longrightarrow> memcmp_loop (word_of_int e) b1 b2 len = word_of_int e"
  by (induction "word_of_int e :: u16" b1 b2 len rule: memcmp_loop.induct)
    (auto simp: memcmp_step_same)

lemma memcmp_loop_zero: "memcmp_loop 0 b1 b2 len = word_of_int (first_diff b1 b2 len)"
proof (induction b1 b2 len rule: first_diff.induct)
  case (1 c1 b1 c2 b2 len)
  show ?case
  proof (cases "c1 = c2")
    case True
    with 1 show ?thesis by (simp add: memcmp_step_zero)
  next
    case False
    then have "uint c1 - uint c2 \<noteq> 0" by (simp add: word_uint_eq_iff)
    then have "memcmp_loop (word_of_int (uint c1 - uint c2)) b1 b2 len =
        word_of_int (uint c1 - uint c2)"
      using u8_diff_bounds [of c1 c2] by (intro memcmp_loop_same) simp_all
    then show ?thesis using False by (simp only: memcmp_loop.simps memcmp_step_zero first_diff.simps if_False)
  qed
qed auto

lemma first_diff_bounds: "- 255 \<le> first_diff b1 b2 len \<and> first_diff b1 b2 len \<le> 255"
  by (induction b1 b2 len rule: first_diff.induct) (use u8_diff_bounds in auto)

lemma memcmp_signed:
  "- 255 \<le> e \<Longrightarrow> e \<le> 255 \<Longrightarrow>
   uint (ucast (ucast (word_of_int e :: u16) + 0x8000 :: u32) :: u16) - 0x8000 = e"
  by (simp add: unsigned_ucast_eq uint_word_ariths uint_word_of_int_eq take_bit_eq_mod mod_simps)

lemma memcmp_s_first_diff: "memcmp_s b1 b2 len = first_diff b1 b2 len"
  unfolding memcmp_s_def memcmp_loop_zero using first_diff_bounds by (intro memcmp_signed) auto

lemma first_diff_zero_iff:
  "len \<le> length b1 \<Longrightarrow> len \<le> length b2 \<Longrightarrow> first_diff b1 b2 len = 0 \<longleftrightarrow> take len b1 = take len b2"
proof (induction b1 b2 len rule: first_diff.induct)
  case (1 c1 b1 c2 b2 len)
  have "c1 \<noteq> c2 \<Longrightarrow> uint c1 - uint c2 \<noteq> 0" by (simp add: word_uint_eq_iff)
  with 1 show ?case by auto
qed auto

lemma memcmp_s_zero_iff:
  "len \<le> length b1 \<Longrightarrow> len \<le> length b2 \<Longrightarrow> memcmp_s b1 b2 len = 0 \<longleftrightarrow> take len b1 = take len b2"
  by (simp add: memcmp_s_first_diff first_diff_zero_iff)

section \<open>Fault-injection macros\<close>

text \<open>
  The argument of a macro is the outcome of the \<open>i\<close>-th evaluation of
  \<open>_FIXED_READ() && condition\<close>.
\<close>

definition SECURE_IF_FAILIN :: "(nat \<Rightarrow> bool) \<Rightarrow> bool" where
  "SECURE_IF_FAILIN ev = (ev 0 \<or> ev 1 \<or> ev 2)"

definition SECURE_IF_FAILOUT :: "(nat \<Rightarrow> bool) \<Rightarrow> bool" where
  "SECURE_IF_FAILOUT ev = (ev 0 \<and> ev 1 \<and> ev 2)"

abbreviation MAGIC_COUNTER_STEP :: u32 where "MAGIC_COUNTER_STEP \<equiv> 42"

text \<open>An evaluation of \<open>b\<close> at decision point \<open>i\<close> under the faults \<open>flip\<close>.\<close>

definition glitched :: "nat set \<Rightarrow> nat \<Rightarrow> bool \<Rightarrow> bool" where
  "glitched flip i b = (b \<noteq> (i \<in> flip))"

text \<open>The control-flow counter after three steps, of which those in \<open>flip\<close> are skipped.\<close>

definition cfi_counter :: "nat set \<Rightarrow> nat \<Rightarrow> u32" where
  "cfi_counter flip i =
     (if i \<in> flip then 0 else MAGIC_COUNTER_STEP) + (if i + 1 \<in> flip then 0 else MAGIC_COUNTER_STEP) +
     (if i + 2 \<in> flip then 0 else MAGIC_COUNTER_STEP)"

text \<open>The number of calls of \<open>secure_glitch_detect\<close> and the decision on the action.  The decision points are: 0-2 the conditions,
  3-5 the counter steps, 6 the counter test, 7-9 and 10-12 the two checks, 13-15 the guard of
  the action.\<close>

definition secure_do_checks :: "nat set \<Rightarrow> bool \<Rightarrow> bool \<Rightarrow> bool \<Rightarrow> nat" where
  "secure_do_checks flip c1 c2 c3 =
     (let done_flag = (if glitched flip 6 (cfi_counter flip 3 = 3 * MAGIC_COUNTER_STEP)
                  then SECURE_TRUE else SECURE_FALSE);
          d1 = SECURE_IF_FAILIN (\<lambda>i. glitched flip (7 + i) (done_flag \<noteq> SECURE_TRUE));
          d2 = SECURE_IF_FAILIN (\<lambda>i. glitched flip (10 + i) (c1 \<noteq> c2 \<or> c1 \<noteq> c3 \<or> c2 \<noteq> c3))
      in of_bool d1 + of_bool d2)"

definition SECURE_DO_FAILOUT :: "nat set \<Rightarrow> bool \<Rightarrow> nat \<times> bool" where
  "SECURE_DO_FAILOUT flip condition =
     (let c1 = glitched flip 0 condition; c2 = glitched flip 1 condition;
          c3 = glitched flip 2 condition
      in (secure_do_checks flip c1 c2 c3,
          SECURE_IF_FAILOUT (\<lambda>i. glitched flip (13 + i) (c1 \<and> c2 \<and> c3))))"

definition SECURE_DO_FAILIN :: "nat set \<Rightarrow> bool \<Rightarrow> nat \<times> bool" where
  "SECURE_DO_FAILIN flip condition =
     (let c1 = glitched flip 0 condition; c2 = glitched flip 1 condition;
          c3 = glitched flip 2 condition
      in (secure_do_checks flip c1 c2 c3,
          SECURE_IF_FAILIN (\<lambda>i. glitched flip (13 + i) (c1 \<or> c2 \<or> c3))))"

text \<open>\<open>SECURE_ASSERT\<close>: whether all three assertions pass, and the glitch count.  Points 0-2 are
  the assertions, 3-5 the counter steps, 6-8 the check.\<close>

definition SECURE_ASSERT :: "nat set \<Rightarrow> bool \<Rightarrow> nat \<times> bool" where
  "SECURE_ASSERT flip condition =
     (of_bool (SECURE_IF_FAILIN (\<lambda>i. glitched flip (6 + i) (cfi_counter flip 3 \<noteq> 3 * MAGIC_COUNTER_STEP))),
      glitched flip 0 condition \<and> glitched flip 1 condition \<and> glitched flip 2 condition)"

section \<open>Glitch bookkeeping and delays\<close>

record secutils_priv_t =
  glitch_counter :: u32
  su_initialized :: secure_bool_t

definition secutils_init :: "secutils_priv_t \<Rightarrow> secutils_priv_t" where
  "secutils_init priv =
     (if su_initialized priv = SECURE_TRUE then priv
      else priv\<lparr>glitch_counter := 0, su_initialized := SECURE_TRUE\<rparr>)"

definition secure_glitch_detect :: "secutils_priv_t \<Rightarrow> secutils_priv_t option" where
  "secure_glitch_detect priv =
     (if su_initialized priv \<noteq> SECURE_TRUE then None
      else Some (priv\<lparr>glitch_counter := glitch_counter priv + 1\<rparr>))"

definition secure_glitch_get_count :: "secutils_priv_t \<Rightarrow> u32 option" where
  "secure_glitch_get_count priv =
     (if su_initialized priv \<noteq> SECURE_TRUE then None else Some (glitch_counter priv))"

abbreviation MIN_DELAY_US :: u32 where "MIN_DELAY_US \<equiv> 100"
abbreviation MAX_DELAY_US :: u32 where "MAX_DELAY_US \<equiv> 2000"
abbreviation CYCLES_PER_LOOP :: u32 where "CYCLES_PER_LOOP \<equiv> 25"

definition delay_us :: "u16 \<Rightarrow> u32" where
  "delay_us random_value =
     ucast random_value * (MAX_DELAY_US - MIN_DELAY_US) div 65535 + MIN_DELAY_US"

text \<open>The fault-free busy loop has no effect; the number of its iterations is returned.\<close>

definition secure_glitch_random_delay ::
  "u32 \<Rightarrow> u16 \<Rightarrow> secutils_priv_t \<Rightarrow> (u32 \<times> secutils_priv_t) option" where
  "secure_glitch_random_delay cpu_freq_hz random_value priv =
     (if su_initialized priv \<noteq> SECURE_TRUE then None
      else let cycles_per_us = cpu_freq_hz div 1000000
        in if cycles_per_us = 0 then
             map_option (\<lambda>priv. (delay_us random_value * 1 div CYCLES_PER_LOOP, priv))
               (secure_glitch_detect priv)
           else Some (delay_us random_value * cycles_per_us div CYCLES_PER_LOOP, priv))"

lemma unat_delay_us: "unat (delay_us r) = unat r * 1900 div 65535 + 100"
proof -
  have r: "unat r \<le> 65535" using unat_u16_less [of r] by simp
  then have "unat r * 1900 < 4294967296" by simp
  then have "unat (ucast r * 1900 :: u32) = unat r * 1900" by (simp add: unat_word_ariths)
  then have d: "unat (ucast r * 1900 div 65535 :: u32) = unat r * 1900 div 65535" by (simp add: unat_div)
  have "unat r * 1900 div 65535 \<le> 1900" using r by simp
  then show ?thesis unfolding delay_us_def by (simp add: unat_plus_no_wrap d)
qed

lemma delay_us_bounds: "MIN_DELAY_US \<le> delay_us r \<and> delay_us r \<le> MAX_DELAY_US"
  using unat_u16_less [of r] by (simp add: word_le_nat_alt unat_delay_us)

section \<open>Randomness check\<close>

datatype dudero_ret_t = DUDERO_RET_OK | DUDERO_RET_BAD_RANDOMNESS | DUDERO_RET_TOO_SHORT

record dudero_ctx_t =
  dudero_hist :: "u16 list"
  hist_samples :: nat

definition dudero_stream_init :: dudero_ctx_t where
  "dudero_stream_init = \<lparr>dudero_hist = replicate 16 0, hist_samples = 0\<rparr>"

definition hist_incr :: "u16 list \<Rightarrow> nat \<Rightarrow> u16 list" where
  "hist_incr h i = h[i := h ! i + 1]"

definition dudero_stream_add :: "dudero_ctx_t \<Rightarrow> u8 \<Rightarrow> dudero_ctx_t" where
  "dudero_stream_add ctx sample =
     ctx\<lparr>dudero_hist := hist_incr (hist_incr (dudero_hist ctx) (unat (drop_bit 4 sample)))
                         (unat (sample AND 0x0F)),
       hist_samples := hist_samples ctx + 2\<rparr>"

text \<open>The squared deviation of one histogram entry, and the sum over the entries.\<close>

definition hist_delta :: "nat \<Rightarrow> u16 \<Rightarrow> u32" where
  "hist_delta expected h =
     (let delta = (if expected < unat h then word_of_nat (unat h - expected)
                   else word_of_nat (expected - unat h))
      in delta * delta)"

definition hist_cum :: "nat \<Rightarrow> u16 list \<Rightarrow> u32" where
  "hist_cum expected hist = foldl (\<lambda>cum h. cum + hist_delta expected h) 0 hist"

text \<open>The quotient of the two integers exceeds 45.0 exactly when the product test holds: the
  operands are below \<open>2^32\<close>, so a quotient above 45 differs from it by far more than the
  rounding of a double.\<close>

definition dudero_stream_finish :: "dudero_ctx_t \<Rightarrow> dudero_ret_t" where
  "dudero_stream_finish ctx =
     (let expected = hist_samples ctx div 16
      in if 45 * expected < unat (hist_cum expected (dudero_hist ctx))
         then DUDERO_RET_BAD_RANDOMNESS else DUDERO_RET_OK)"

definition dudero_check_buffer :: "bytes \<Rightarrow> dudero_ret_t" where
  "dudero_check_buffer buf =
     (if length buf < 16 then DUDERO_RET_TOO_SHORT
      else dudero_stream_finish (foldl dudero_stream_add dudero_stream_init buf))"

section \<open>Properties\<close>

text \<open>C20: The constant-time comparison returns the difference of the first two bytes that
  differ, as \<open>memcmp\<close> does, and 0 exactly when the two regions are equal.\<close>

theorem memcmp_s_correct:
  assumes "len \<le> length b1" "len \<le> length b2"
  shows "memcmp_s b1 b2 len = first_diff b1 b2 len \<and>
     (memcmp_s b1 b2 len = 0 \<longleftrightarrow> take len b1 = take len b2)"
  using assms by (simp add: memcmp_s_first_diff first_diff_zero_iff)

theorem memcmp_s_correct_witness:
  "memcmp_s [1, 2, 200] [1, 2, 7] 3 = 193 \<and> memcmp_s [1, 2, 200] [1, 2, 7] 2 = 0"
proof -
  have "first_diff [1, 2, 200] [1, 2, 7] 3 = 193" "first_diff [1, 2, 200] [1, 2, 7] 2 = 0"
    by code_simp+
  then show ?thesis
    using memcmp_s_correct [of 3 "[1, 2, 200]" "[1, 2, 7]"]
      memcmp_s_correct [of 2 "[1, 2, 200]" "[1, 2, 7]"] by simp
qed

lemma do_failout_no_fault [simp]: "SECURE_DO_FAILOUT {} c = (0, c)"
  by (simp add: SECURE_DO_FAILOUT_def secure_do_checks_def glitched_def SECURE_IF_FAILIN_def
      SECURE_IF_FAILOUT_def cfi_counter_def)

lemma do_failout_single_fault:
  assumes "flip \<subseteq> {i}"
  shows "snd (SECURE_DO_FAILOUT flip c) \<Longrightarrow> c"
  using assms
  by (cases c) (auto simp: subset_singleton_iff SECURE_DO_FAILOUT_def glitched_def
      SECURE_IF_FAILOUT_def Let_def)

text \<open>C10: A single injected fault never makes \<open>SECURE_DO_FAILOUT\<close> perform its action when the
  condition is false, and a fault in the evaluation of the condition or of the control-flow
  counter is reported.  Without faults the action is performed exactly when the condition
  holds and nothing is reported.\<close>

theorem secure_do_failout_single_fault:
  "\<not> snd (SECURE_DO_FAILOUT {i} False) \<and>
   (i < 7 \<longrightarrow> 0 < fst (SECURE_DO_FAILOUT {i} c)) \<and>
   SECURE_DO_FAILOUT {} c = (0, c)"
  by (auto simp: SECURE_DO_FAILOUT_def secure_do_checks_def glitched_def SECURE_IF_FAILIN_def
      SECURE_IF_FAILOUT_def cfi_counter_def Let_def of_bool_def)

theorem secure_do_failout_single_fault_witness:
  "0 < fst (SECURE_DO_FAILOUT {4} False) \<and> \<not> snd (SECURE_DO_FAILOUT {4} False)"
  using secure_do_failout_single_fault [of 4 False] by simp

end
