(* ===== verification/Mempool.thy ===== *)
theory Mempool
  imports Secure "HOL-Library.Monad_Syntax"
begin

text \<open>
  The fixed-block allocator of \<open>lib/mempool\<close>.  An address is a natural number; a region
  occupies \<open>total_size\<close> bytes from \<open>rg_base\<close>, and its memory is part of the model because
  freeing clears it.  NULL is address 0.  A failed \<open>ASSERT\<close> is \<open>None\<close>.  The mutex has no
  effect on the sequential behaviour.
\<close>

record mempool_region_t =
  entry_size :: nat
  rg_count :: nat
  total_size :: nat
  rg_base :: nat
  rg_mem :: bytes
  freelist :: "bool list"

record mempool_t =
  regions :: "mempool_region_t list"

section \<open>Operations\<close>

definition mempool_region_start_addr :: "mempool_region_t \<Rightarrow> nat" where
  "mempool_region_start_addr r = rg_base r"

definition mempool_region_end_addr :: "mempool_region_t \<Rightarrow> nat" where
  "mempool_region_end_addr r = rg_base r + total_size r"

definition mempool_region_contains_buf :: "mempool_region_t \<Rightarrow> nat \<Rightarrow> bool" where
  "mempool_region_contains_buf r buffer =
     (mempool_region_start_addr r \<le> buffer \<and> buffer < mempool_region_end_addr r)"

text \<open>The loop of \<open>get_first_free_buffer\<close> from \<open>entry\<close> on, over the flags not yet seen.\<close>

fun first_free :: "bool list \<Rightarrow> nat \<Rightarrow> nat option" where
  "first_free [] entry = None"
| "first_free (f # fs) entry = (if f then Some entry else first_free fs (Suc entry))"

definition get_first_free_buffer :: "mempool_region_t \<Rightarrow> (nat \<times> mempool_region_t) option" where
  "get_first_free_buffer r =
     (case first_free (take (rg_count r) (freelist r)) 0 of
        None \<Rightarrow> None
      | Some entry \<Rightarrow>
          Some (rg_base r + entry * entry_size r, r\<lparr>freelist := (freelist r)[entry := False]\<rparr>))"

text \<open>Regions are returned as their index in the pool.\<close>

fun region_for_size_loop :: "mempool_region_t list \<Rightarrow> nat \<Rightarrow> nat \<Rightarrow> nat option" where
  "region_for_size_loop [] sz i = None"
| "region_for_size_loop (r # rs) sz i =
     (if sz \<le> entry_size r then Some i else region_for_size_loop rs sz (Suc i))"

definition mempool_region_for_size :: "mempool_t \<Rightarrow> nat \<Rightarrow> nat option" where
  "mempool_region_for_size pool sz =
     (if sz = 0 then None else region_for_size_loop (regions pool) sz 0)"

fun region_for_buf_loop :: "mempool_region_t list \<Rightarrow> nat \<Rightarrow> nat \<Rightarrow> nat option" where
  "region_for_buf_loop [] buffer i = None"
| "region_for_buf_loop (r # rs) buffer i =
     (if mempool_region_contains_buf r buffer then Some i else region_for_buf_loop rs buffer (Suc i))"

definition mempool_region_for_buf :: "mempool_t \<Rightarrow> nat \<Rightarrow> nat option" where
  "mempool_region_for_buf pool buffer = region_for_buf_loop (regions pool) buffer 0"

definition mempool_region_for_idx :: "mempool_t \<Rightarrow> nat \<Rightarrow> mempool_region_t option" where
  "mempool_region_for_idx pool idx =
     (if idx < length (regions pool) then Some (regions pool ! idx) else None)"

definition mempool_alloc :: "mempool_t \<Rightarrow> nat \<Rightarrow> (nat \<times> mempool_t) option" where
  "mempool_alloc pool sz =
     do { i \<leftarrow> mempool_region_for_size pool sz;
          (buf, r) \<leftarrow> get_first_free_buffer (regions pool ! i);
          Some (buf, pool\<lparr>regions := (regions pool)[i := r]\<rparr>) }"

definition mempool_free :: "mempool_t \<Rightarrow> nat \<Rightarrow> mempool_t option" where
  "mempool_free pool buffer =
     (if buffer = 0 then Some pool
      else do { i \<leftarrow> mempool_region_for_buf pool buffer;
                let r = regions pool ! i;
                let off = buffer - mempool_region_start_addr r;
                let r1 = r\<lparr>rg_mem := mem_write (rg_mem r) off
                             (memzero (mem_read off (entry_size r) (rg_mem r)) (entry_size r))\<rparr>;
                let entry = off div entry_size r;
                if \<not> entry < rg_count r then None
                else if freelist r ! entry then None
                else Some (pool\<lparr>regions := (regions pool)[i :=
                             r1\<lparr>freelist := (freelist r)[entry := True]\<rparr>]\<rparr>) })"

section \<open>Allocated blocks\<close>

definition region_ok :: "mempool_region_t \<Rightarrow> bool" where
  "region_ok r =
     (0 < entry_size r \<and> 0 < rg_base r \<and> total_size r = entry_size r * rg_count r \<and>
      length (rg_mem r) = total_size r \<and> length (freelist r) = rg_count r)"

text \<open>Regions are well-formed and their address ranges do not overlap.\<close>

definition pool_ok :: "mempool_t \<Rightarrow> bool" where
  "pool_ok pool =
     (list_all region_ok (regions pool) \<and>
      (\<forall>i j. i < length (regions pool) \<longrightarrow> j < length (regions pool) \<longrightarrow> i \<noteq> j \<longrightarrow>
         mempool_region_end_addr (regions pool ! i) \<le> mempool_region_start_addr (regions pool ! j) \<or>
         mempool_region_end_addr (regions pool ! j) \<le> mempool_region_start_addr (regions pool ! i)))"

text \<open>The blocks in use, as region index and entry index, and the address of a block.\<close>

definition in_use :: "mempool_t \<Rightarrow> (nat \<times> nat) set" where
  "in_use pool = {(i, e). i < length (regions pool) \<and> e < rg_count (regions pool ! i) \<and>
     \<not> freelist (regions pool ! i) ! e}"

definition block_addr :: "mempool_t \<Rightarrow> nat \<times> nat \<Rightarrow> nat" where
  "block_addr pool b = rg_base (regions pool ! fst b) + snd b * entry_size (regions pool ! fst b)"

definition block_size :: "mempool_t \<Rightarrow> nat \<times> nat \<Rightarrow> nat" where
  "block_size pool b = entry_size (regions pool ! fst b)"

lemma first_free_Some:
  "first_free fs n = Some e \<Longrightarrow> n \<le> e \<and> e - n < length fs \<and> fs ! (e - n)"
  by (induction fs n rule: first_free.induct) (auto split: if_splits simp: nth_Cons')

lemma first_free_None: "first_free fs n = None \<longleftrightarrow> (\<forall>f\<in>set fs. \<not> f)"
  by (induction fs n rule: first_free.induct) auto

lemma region_for_size_Some:
  "region_for_size_loop rs sz n = Some i \<Longrightarrow> n \<le> i \<and> i - n < length rs \<and> sz \<le> entry_size (rs ! (i - n))"
  by (induction rs sz n rule: region_for_size_loop.induct)
    (auto split: if_splits simp: nth_Cons')

lemma region_for_buf_Some:
  "region_for_buf_loop rs b n = Some i \<Longrightarrow>
   n \<le> i \<and> i - n < length rs \<and> mempool_region_contains_buf (rs ! (i - n)) b"
  by (induction rs b n rule: region_for_buf_loop.induct)
    (auto split: if_splits simp: nth_Cons')

lemma region_for_buf_exists:
  "j < length rs \<Longrightarrow> mempool_region_contains_buf (rs ! j) b \<Longrightarrow> region_for_buf_loop rs b n \<noteq> None"
  by (induction rs b n arbitrary: j rule: region_for_buf_loop.induct) (auto simp: nth_Cons split: nat.splits)

text \<open>What the operations leave alone.\<close>

definition same_layout :: "mempool_t \<Rightarrow> mempool_t \<Rightarrow> bool" where
  "same_layout p q =
     (length (regions p) = length (regions q) \<and>
      (\<forall>i < length (regions p). entry_size (regions p ! i) = entry_size (regions q ! i) \<and>
         rg_count (regions p ! i) = rg_count (regions q ! i) \<and>
         total_size (regions p ! i) = total_size (regions q ! i) \<and>
         rg_base (regions p ! i) = rg_base (regions q ! i)))"

lemma same_layout_addr:
  "same_layout p q \<Longrightarrow> fst b < length (regions p) \<Longrightarrow>
   block_addr p b = block_addr q b \<and> block_size p b = block_size q b"
  by (simp add: same_layout_def block_addr_def block_size_def)

text \<open>Distinct blocks occupy disjoint address ranges.\<close>

lemma mult_Suc_le: "e < (f :: nat) \<Longrightarrow> e * n + n \<le> f * n"
  using mult_le_mono1 [of "Suc e" f n] by simp

lemma entry_offset_bound:
  assumes "region_ok r" "e < rg_count r"
  shows "e * entry_size r + entry_size r \<le> total_size r"
  using mult_Suc_le [OF assms(2), of "entry_size r"] assms(1)
  by (simp add: region_ok_def mult.commute)

lemma blocks_disjoint:
  assumes ok: "pool_ok pool" and ij: "i < length (regions pool)" "j < length (regions pool)"
    and ef: "e < rg_count (regions pool ! i)" "f < rg_count (regions pool ! j)"
    and neq: "(i, e) \<noteq> (j, f)"
  shows "block_addr pool (i, e) + block_size pool (i, e) \<le> block_addr pool (j, f) \<or>
         block_addr pool (j, f) + block_size pool (j, f) \<le> block_addr pool (i, e)"
proof (cases "i = j")
  case True
  let ?n = "entry_size (regions pool ! j)"
  consider "e < f" | "f < e" using neq True by fastforce
  then have "e * ?n + ?n \<le> f * ?n \<or> f * ?n + ?n \<le> e * ?n" by cases (simp_all add: mult_Suc_le)
  then show ?thesis using True by (auto simp: block_addr_def block_size_def)
next
  case False
  have r: "region_ok (regions pool ! i)" "region_ok (regions pool ! j)"
    using ok ij by (simp_all add: pool_ok_def list_all_length)
  show ?thesis
    using ok ij False entry_offset_bound [OF r(1) ef(1)] entry_offset_bound [OF r(2) ef(2)]
    unfolding pool_ok_def block_addr_def block_size_def mempool_region_end_addr_def
      mempool_region_start_addr_def
    by fastforce
qed

lemma alloc_cases:
  assumes ok: "pool_ok pool" and al: "mempool_alloc pool sz = Some (buf, pool')"
  shows "\<exists>i e. i < length (regions pool) \<and> e < rg_count (regions pool ! i) \<and>
     (i, e) \<notin> in_use pool \<and> sz \<le> block_size pool (i, e) \<and> buf = block_addr pool (i, e) \<and>
     pool' = pool\<lparr>regions := (regions pool)[i := (regions pool ! i)\<lparr>freelist :=
               (freelist (regions pool ! i))[e := False]\<rparr>]\<rparr>"
proof -
  obtain i r where i: "region_for_size_loop (regions pool) sz 0 = Some i"
    and r: "get_first_free_buffer (regions pool ! i) = Some (buf, r)"
    and p: "pool' = pool\<lparr>regions := (regions pool)[i := r]\<rparr>"
    using al by (auto simp: mempool_alloc_def mempool_region_for_size_def bind_eq_Some_conv
        split: if_splits)
  have i': "i < length (regions pool)" "sz \<le> entry_size (regions pool ! i)"
    using region_for_size_Some [OF i] by simp_all
  then have len: "length (freelist (regions pool ! i)) = rg_count (regions pool ! i)"
    using ok by (simp add: pool_ok_def list_all_length region_ok_def)
  obtain e where e: "first_free (freelist (regions pool ! i)) 0 = Some e"
    and b: "buf = rg_base (regions pool ! i) + e * entry_size (regions pool ! i)"
    and rr: "r = (regions pool ! i)\<lparr>freelist := (freelist (regions pool ! i))[e := False]\<rparr>"
    using r len by (auto simp: get_first_free_buffer_def split: option.splits)
  show ?thesis
    using first_free_Some [OF e] i' len b rr p
    by (auto simp: in_use_def block_addr_def block_size_def)
qed

lemma pool_ok_update:
  assumes "pool_ok pool" "i < length (regions pool)"
    and "region_ok r" "rg_base r = rg_base (regions pool ! i)"
    and "total_size r = total_size (regions pool ! i)"
  shows "pool_ok (pool\<lparr>regions := (regions pool)[i := r]\<rparr>)"
  using assms
  by (auto simp: pool_ok_def list_all_length nth_list_update mempool_region_end_addr_def
      mempool_region_start_addr_def split: if_splits)

lemma region_for_buf_block:
  assumes ok: "pool_ok pool" and i: "i < length (regions pool)" "e < rg_count (regions pool ! i)"
  shows "mempool_region_for_buf pool (block_addr pool (i, e)) = Some i"
proof -
  let ?b = "block_addr pool (i, e)"
  have r: "region_ok (regions pool ! i)" using ok i(1) by (simp add: pool_ok_def list_all_length)
  then have "0 < entry_size (regions pool ! i)" by (simp add: region_ok_def)
  then have inb: "mempool_region_contains_buf (regions pool ! i) ?b"
    using entry_offset_bound [OF r i(2)]
    by (simp add: mempool_region_contains_buf_def mempool_region_end_addr_def
        mempool_region_start_addr_def block_addr_def)
  then obtain j where j: "region_for_buf_loop (regions pool) ?b 0 = Some j"
    using region_for_buf_exists [OF i(1) inb] by blast
  have "j = i"
  proof (rule ccontr)
    assume "j \<noteq> i"
    with region_for_buf_Some [OF j] inb ok i(1) show False
      unfolding pool_ok_def mempool_region_contains_buf_def by fastforce
  qed
  with j show ?thesis by (simp add: mempool_region_for_buf_def)
qed

text \<open>Freeing the address of a block, whatever its state.\<close>

lemma free_block:
  assumes ok: "pool_ok pool" and i: "i < length (regions pool)" "e < rg_count (regions pool ! i)"
  shows "mempool_free pool (block_addr pool (i, e)) =
     (let r = regions pool ! i
      in if freelist r ! e then None
         else Some (pool\<lparr>regions := (regions pool)[i := r\<lparr>
           rg_mem := mem_write (rg_mem r) (e * entry_size r) (replicate (entry_size r) 0),
           freelist := (freelist r)[e := True]\<rparr>]\<rparr>))"
proof -
  let ?r = "regions pool ! i"
  have r: "region_ok ?r" using ok i(1) by (simp add: pool_ok_def list_all_length)
  have b: "e * entry_size ?r + entry_size ?r \<le> length (rg_mem ?r)"
    using entry_offset_bound [OF r i(2)] r by (simp add: region_ok_def)
  have n: "length (mem_read (e * entry_size ?r) (entry_size ?r) (rg_mem ?r)) = entry_size ?r"
    using b by simp
  have z: "memzero (mem_read (e * entry_size ?r) (entry_size ?r) (rg_mem ?r)) (entry_size ?r) =
      replicate (entry_size ?r) 0"
    using memzero_all [of "mem_read (e * entry_size ?r) (entry_size ?r) (rg_mem ?r)"] n by simp
  show ?thesis
    using region_for_buf_block [OF ok i] i(2) r z
    by (simp add: mempool_free_def region_ok_def block_addr_def mempool_region_start_addr_def Let_def)
qed

lemma alloc_result:
  assumes ok: "pool_ok pool" and al: "mempool_alloc pool sz = Some (buf, pool')"
  obtains i e where "i < length (regions pool)" "e < rg_count (regions pool ! i)"
    "(i, e) \<notin> in_use pool" "sz \<le> block_size pool (i, e)" "buf = block_addr pool (i, e)"
    "pool_ok pool'" "in_use pool' = insert (i, e) (in_use pool)" "same_layout pool pool'"
proof -
  from alloc_cases [OF assms] obtain i e where
    ie: "i < length (regions pool)" "e < rg_count (regions pool ! i)" "(i, e) \<notin> in_use pool"
      "sz \<le> block_size pool (i, e)" "buf = block_addr pool (i, e)"
    and p: "pool' = pool\<lparr>regions := (regions pool)[i := (regions pool ! i)\<lparr>freelist :=
               (freelist (regions pool ! i))[e := False]\<rparr>]\<rparr>"
    by blast
  have r: "region_ok (regions pool ! i)" using ok ie(1) by (simp add: pool_ok_def list_all_length)
  have "pool_ok pool'"
    unfolding p using r by (intro pool_ok_update [OF ok ie(1)]) (simp_all add: region_ok_def)
  moreover have "in_use pool' = insert (i, e) (in_use pool)"
    unfolding p using ie r by (auto simp: in_use_def nth_list_update region_ok_def split: if_splits)
  moreover have "same_layout pool pool'"
    unfolding p using ie(1) by (auto simp: same_layout_def nth_list_update)
  ultimately show thesis using ie that by blast
qed

lemma free_result:
  assumes ok: "pool_ok pool" and i: "i < length (regions pool)" "e < rg_count (regions pool ! i)"
    and u: "(i, e) \<in> in_use pool"
  obtains pool' where "mempool_free pool (block_addr pool (i, e)) = Some pool'" "pool_ok pool'"
    "in_use pool' = in_use pool - {(i, e)}"
    "\<forall>j < length (regions pool). rg_mem (regions pool' ! j) =
       (if j = i then mem_write (rg_mem (regions pool ! i)) (e * block_size pool (i, e))
                        (replicate (block_size pool (i, e)) 0)
        else rg_mem (regions pool ! j))"
proof -
  let ?r = "regions pool ! i"
  have r: "region_ok ?r" using ok i(1) by (simp add: pool_ok_def list_all_length)
  let ?r' = "?r\<lparr>rg_mem := mem_write (rg_mem ?r) (e * entry_size ?r) (replicate (entry_size ?r) 0),
           freelist := (freelist ?r)[e := True]\<rparr>"
  let ?pool' = "pool\<lparr>regions := (regions pool)[i := ?r']\<rparr>"
  have "e * entry_size ?r + entry_size ?r \<le> length (rg_mem ?r)"
    using entry_offset_bound [OF r i(2)] r by (simp add: region_ok_def)
  then have "pool_ok ?pool'"
    using r by (intro pool_ok_update [OF ok i(1)]) (simp_all add: region_ok_def)
  moreover have "in_use ?pool' = in_use pool - {(i, e)}"
    using i r by (auto simp: in_use_def nth_list_update region_ok_def split: if_splits)
  moreover have "mempool_free pool (block_addr pool (i, e)) = Some ?pool'"
    using free_block [OF ok i] u by (auto simp: in_use_def Let_def)
  ultimately show thesis
    using that [of ?pool'] i(1) by (simp add: block_size_def nth_list_update)
qed

text \<open>Allocating a block and freeing it succeeds and restores the set of blocks in use.\<close>

lemma alloc_free:
  assumes ok: "pool_ok pool" and al: "mempool_alloc pool sz = Some (buf, pool1)"
  obtains pool2 where "mempool_free pool1 buf = Some pool2" "pool_ok pool2"
    "in_use pool2 = in_use pool"
proof -
  obtain i e where ie: "i < length (regions pool)" "e < rg_count (regions pool ! i)"
    "(i, e) \<notin> in_use pool" "buf = block_addr pool (i, e)" "pool_ok pool1"
    "in_use pool1 = insert (i, e) (in_use pool)" "same_layout pool pool1"
    by (rule alloc_result [OF ok al])
  have "i < length (regions pool1)" "e < rg_count (regions pool1 ! i)"
    "buf = block_addr pool1 (i, e)" "(i, e) \<in> in_use pool1"
    using ie by (auto simp: same_layout_def block_addr_def)
  moreover then obtain pool2 where "mempool_free pool1 (block_addr pool1 (i, e)) = Some pool2"
    "pool_ok pool2" "in_use pool2 = in_use pool1 - {(i, e)}"
    by (elim free_result [OF ie(5)])
  ultimately show thesis using ie that by auto
qed

section \<open>Properties\<close>

text \<open>C23: An allocation that returns gives a block that was not in use, is at least as large as
  asked for, and overlaps no block in use; it becomes the only new block in use.\<close>

theorem mempool_alloc_fresh:
  assumes ok: "pool_ok pool" and al: "mempool_alloc pool sz = Some (buf, pool')"
  shows "pool_ok pool' \<and>
     (\<exists>b. b \<notin> in_use pool \<and> in_use pool' = insert b (in_use pool) \<and>
        buf = block_addr pool b \<and> sz \<le> block_size pool b \<and>
        (\<forall>c\<in>in_use pool. block_addr pool c + block_size pool c \<le> buf \<or>
                          buf + block_size pool b \<le> block_addr pool c))"
proof -
  obtain i e where ie: "i < length (regions pool)" "e < rg_count (regions pool ! i)"
    "(i, e) \<notin> in_use pool" "sz \<le> block_size pool (i, e)" "buf = block_addr pool (i, e)"
    "pool_ok pool'" "in_use pool' = insert (i, e) (in_use pool)"
    by (rule alloc_result [OF assms])
  have "block_addr pool c + block_size pool c \<le> buf \<or>
      buf + block_size pool (i, e) \<le> block_addr pool c" if "c \<in> in_use pool" for c
  proof -
    have "c \<noteq> (i, e)" using that ie(3) by blast
    then show ?thesis
      using that ie blocks_disjoint [OF ok, of "fst c" i "snd c" e]
      by (auto simp: in_use_def split_beta)
  qed
  then show ?thesis using ie by blast
qed

definition pool_example :: mempool_t where
  "pool_example = \<lparr>regions = [\<lparr>entry_size = 4, rg_count = 2, total_size = 8, rg_base = 100,
     rg_mem = [1, 2, 3, 4, 5, 6, 7, 8], freelist = [False, True]\<rparr>]\<rparr>"

lemma pool_example_ok: "pool_ok pool_example"
  by (simp add: pool_ok_def pool_example_def region_ok_def)

theorem mempool_alloc_fresh_witness:
  "\<exists>pool'. mempool_alloc pool_example 3 = Some (104, pool') \<and>
     (\<exists>b. b \<notin> in_use pool_example \<and> in_use pool' = insert b (in_use pool_example))"
proof -
  obtain pool' where a: "mempool_alloc pool_example 3 = Some (104, pool')"
    by (simp add: mempool_alloc_def mempool_region_for_size_def get_first_free_buffer_def
        pool_example_def)
  from mempool_alloc_fresh [OF pool_example_ok a] a show ?thesis by blast
qed

text \<open>C24: Freeing the address of a block in use succeeds, clears its memory, leaves every
  other byte of the pool alone and releases exactly that block; freeing the address of a
  block that is not in use halts.\<close>

theorem mempool_free_clears:
  assumes ok: "pool_ok pool" and i: "i < length (regions pool)" "e < rg_count (regions pool ! i)"
  shows "if (i, e) \<in> in_use pool then
       (\<exists>pool'. mempool_free pool (block_addr pool (i, e)) = Some pool' \<and> pool_ok pool' \<and>
          in_use pool' = in_use pool - {(i, e)} \<and>
          (\<forall>j < length (regions pool). rg_mem (regions pool' ! j) =
             (if j = i then mem_write (rg_mem (regions pool ! i)) (e * block_size pool (i, e))
                              (replicate (block_size pool (i, e)) 0)
              else rg_mem (regions pool ! j))))
     else mempool_free pool (block_addr pool (i, e)) = None"
proof (cases "(i, e) \<in> in_use pool")
  case True
  obtain pool' where "mempool_free pool (block_addr pool (i, e)) = Some pool'" "pool_ok pool'"
    "in_use pool' = in_use pool - {(i, e)}"
    "\<forall>j < length (regions pool). rg_mem (regions pool' ! j) =
       (if j = i then mem_write (rg_mem (regions pool ! i)) (e * block_size pool (i, e))
                        (replicate (block_size pool (i, e)) 0)
        else rg_mem (regions pool ! j))"
    by (rule free_result [OF ok i True])
  with True show ?thesis by auto
next
  case False
  then show ?thesis using free_block [OF ok i] i by (simp add: in_use_def Let_def)
qed

theorem mempool_free_clears_witness:
  "(\<exists>pool'. mempool_free pool_example (block_addr pool_example (0, 0)) = Some pool' \<and>
      rg_mem (regions pool' ! 0) = [0, 0, 0, 0, 5, 6, 7, 8]) \<and>
   mempool_free pool_example (block_addr pool_example (0, 1)) = None"
proof -
  have "(0, 0) \<in> in_use pool_example" "(0, 1) \<notin> in_use pool_example"
    by (simp_all add: in_use_def pool_example_def)
  moreover have "length (regions pool_example) = 1" "rg_count (regions pool_example ! 0) = 2"
    by (simp_all add: pool_example_def)
  ultimately show ?thesis
    using mempool_free_clears [OF pool_example_ok, of 0 0] mempool_free_clears [OF pool_example_ok, of 0 1]
    by (auto simp: block_size_def pool_example_def mem_write_def numeral_eq_Suc)
qed

end
