(* ===== verification/Indexfs.thy ===== *)
theory Indexfs
  imports Prelude
begin

text \<open>
  The append-only counter of \<open>lib/indexfs\<close>, kept in one page of NOR flash: three magic words
  followed by 4-byte entries, of which the last one gives the counter value and a 4-bit flag.
  The flash controller (\<open>mcu_flash.c\<close> drives its registers) is a parameter \<open>F\<close> over a
  memory that maps word addresses to words; the locale \<open>nor_flash\<close> states what programming
  and erasing do.  The addresses the linker fixes are the record \<open>fw_layout\<close>
  (\<open>lib/fwup/src/fwup_addr.c\<close> selects among them).
\<close>

section \<open>Flash and firmware layout\<close>

type_synonym flash_mem = "u32 \<Rightarrow> u32"

record flash_ops =
  mcu_flash_write_word :: "flash_mem \<Rightarrow> u32 \<Rightarrow> u32 list \<Rightarrow> bool \<times> flash_mem"
  mcu_flash_erase_page :: "flash_mem \<Rightarrow> u32 \<Rightarrow> bool \<times> flash_mem"
  MCU_FLASH_PAGE_SIZE :: u32

datatype firmware_slot = SLOT_A | SLOT_B

record fw_layout =
  active_slot :: "firmware_slot option"
  app_a_slot_page :: u32
  app_b_slot_page :: u32
  app_a_signature :: u32
  app_b_signature :: u32
  app_slot_size :: u32
  bl_base_addr :: u32
  bl_slot_size :: u32

text \<open>A layout whose active slot is neither A nor B makes these functions halt.\<close>

definition fwup_target_slot :: "fw_layout \<Rightarrow> firmware_slot option" where
  "fwup_target_slot W = map_option (\<lambda>s. case s of SLOT_A \<Rightarrow> SLOT_B | SLOT_B \<Rightarrow> SLOT_A) (active_slot W)"

definition fwup_target_slot_address :: "fw_layout \<Rightarrow> u32 option" where
  "fwup_target_slot_address W =
     map_option (\<lambda>s. case s of SLOT_A \<Rightarrow> app_b_slot_page W | SLOT_B \<Rightarrow> app_a_slot_page W) (active_slot W)"

definition fwup_slot_signature_address :: "fw_layout \<Rightarrow> firmware_slot \<Rightarrow> u32" where
  "fwup_slot_signature_address W slot =
     (case slot of SLOT_A \<Rightarrow> app_a_signature W | SLOT_B \<Rightarrow> app_b_signature W)"

definition fwup_target_slot_signature_address :: "fw_layout \<Rightarrow> u32 option" where
  "fwup_target_slot_signature_address W =
     map_option (\<lambda>s. case s of SLOT_A \<Rightarrow> app_b_signature W | SLOT_B \<Rightarrow> app_a_signature W) (active_slot W)"

definition fwup_current_slot_address :: "fw_layout \<Rightarrow> u32 option" where
  "fwup_current_slot_address W =
     map_option (\<lambda>s. case s of SLOT_A \<Rightarrow> app_a_slot_page W | SLOT_B \<Rightarrow> app_b_slot_page W) (active_slot W)"

definition fwup_slot_size :: "fw_layout \<Rightarrow> u32" where
  "fwup_slot_size W = app_slot_size W"

definition fwup_bl_address :: "fw_layout \<Rightarrow> u32" where
  "fwup_bl_address W = bl_base_addr W"

definition fwup_bl_size :: "fw_layout \<Rightarrow> u32" where
  "fwup_bl_size W = bl_slot_size W"

section \<open>Entries\<close>

datatype indexfs_type_t = INDEXFS_TYPE_MONOTONIC | INDEXFS_TYPE_MAX

record indexfs_t =
  ix_type :: indexfs_type_t
  ix_address :: u32
  ix_size :: nat

abbreviation INDEXFS_MONOTONIC_ENTRY_MAGIC :: u32 where "INDEXFS_MONOTONIC_ENTRY_MAGIC \<equiv> 0x5A"
abbreviation CLEAR_TRUE :: u32 where "CLEAR_TRUE \<equiv> 0"
abbreviation CLEAR_FALSE :: u32 where "CLEAR_FALSE \<equiv> 0xF"
abbreviation FLAGS_EMPTY :: u32 where "FLAGS_EMPTY \<equiv> 0xF"
abbreviation magic_offset :: nat where "magic_offset \<equiv> 3"

definition INDEXFS_MONOTONIC_MAGIC :: "u32 list" where
  "INDEXFS_MONOTONIC_MAGIC = [0x49584653, 0x4d4f4e4f, 0x56455231]"

text \<open>The packed bit fields of \<open>indexfs_monotonic_entry_t\<close> in a little-endian word.\<close>

definition entry_magic :: "u32 \<Rightarrow> u32" where
  "entry_magic w = w AND 0xFF"

definition entry_count :: "u32 \<Rightarrow> u16" where
  "entry_count w = ucast (drop_bit 8 w)"

definition entry_clear :: "u32 \<Rightarrow> u32" where
  "entry_clear w = drop_bit 24 w AND 0xF"

definition entry_flags :: "u32 \<Rightarrow> u32" where
  "entry_flags w = drop_bit 28 w"

definition mk_entry :: "u16 \<Rightarrow> u32 \<Rightarrow> u32 \<Rightarrow> u32" where
  "mk_entry c clr fl =
     INDEXFS_MONOTONIC_ENTRY_MAGIC OR push_bit 8 (ucast c) OR push_bit 24 (clr AND 0xF) OR
     push_bit 28 (fl AND 0xF)"

text \<open>\<open>fs->address + i\<close>, a pointer to words, and the word there.\<close>

definition ix_ptr :: "indexfs_t \<Rightarrow> nat \<Rightarrow> u32" where
  "ix_ptr fs i = ix_address fs + 4 * word_of_nat i"

definition ix_word :: "indexfs_t \<Rightarrow> flash_mem \<Rightarrow> nat \<Rightarrow> u32" where
  "ix_word fs m i = m (ix_ptr fs i)"

section \<open>The monotonic file system\<close>

definition magic_exists :: "indexfs_t \<Rightarrow> flash_mem \<Rightarrow> bool" where
  "magic_exists fs m =
     (ix_word fs m 0 = INDEXFS_MONOTONIC_MAGIC ! 0 \<and> ix_word fs m 1 = INDEXFS_MONOTONIC_MAGIC ! 1)"

definition write_magic :: "flash_ops \<Rightarrow> indexfs_t \<Rightarrow> flash_mem \<Rightarrow> bool \<times> flash_mem" where
  "write_magic F fs m = mcu_flash_write_word F m (ix_address fs) INDEXFS_MONOTONIC_MAGIC"

definition indexfs_monotonic_init :: "flash_ops \<Rightarrow> indexfs_t \<Rightarrow> flash_mem \<Rightarrow> bool \<times> flash_mem" where
  "indexfs_monotonic_init F fs m = (if \<not> magic_exists fs m then write_magic F fs m else (True, m))"

definition indexfs_monotonic_valid :: "indexfs_t \<Rightarrow> flash_mem \<Rightarrow> bool" where
  "indexfs_monotonic_valid fs m = magic_exists fs m"

text \<open>The update of \<open>count\<close> by one entry.\<close>

definition count_step :: "u16 \<Rightarrow> u32 \<Rightarrow> u16" where
  "count_step c w =
     (if entry_clear w = CLEAR_FALSE then entry_count w
      else if entry_clear w = CLEAR_TRUE then 0 else c)"

text \<open>The loops, with the number of iterations left as second argument.\<close>

fun count_loop :: "(nat \<Rightarrow> u32) \<Rightarrow> nat \<Rightarrow> nat \<Rightarrow> u16 \<Rightarrow> u16" where
  "count_loop w 0 i c = c"
| "count_loop w (Suc n) i c =
     (if entry_magic (w i) = INDEXFS_MONOTONIC_ENTRY_MAGIC
      then count_loop w n (Suc i) (count_step c (w i)) else c)"

definition indexfs_monotonic_count :: "indexfs_t \<Rightarrow> flash_mem \<Rightarrow> u16" where
  "indexfs_monotonic_count fs m =
     count_loop (ix_word fs m) (ix_size fs - magic_offset) magic_offset 0"

fun index_loop :: "(nat \<Rightarrow> u32) \<Rightarrow> nat \<Rightarrow> nat \<Rightarrow> nat" where
  "index_loop w 0 i = 0"
| "index_loop w (Suc n) i =
     (if entry_magic (w i) \<noteq> INDEXFS_MONOTONIC_ENTRY_MAGIC then i - magic_offset
      else index_loop w n (Suc i))"

definition current_index :: "indexfs_t \<Rightarrow> flash_mem \<Rightarrow> nat" where
  "current_index fs m = index_loop (ix_word fs m) (ix_size fs - magic_offset) magic_offset"

definition indexfs_monotonic_increment :: "flash_ops \<Rightarrow> indexfs_t \<Rightarrow> flash_mem \<Rightarrow> bool \<times> flash_mem" where
  "indexfs_monotonic_increment F fs m =
     (let c = indexfs_monotonic_count fs m
      in if unat UINT16_MAX < unat c + 1 then (False, m)
         else mcu_flash_write_word F m (ix_ptr fs (magic_offset + current_index fs m))
                [mk_entry (c + 1) CLEAR_FALSE FLAGS_EMPTY])"

definition indexfs_monotonic_clear :: "flash_ops \<Rightarrow> indexfs_t \<Rightarrow> flash_mem \<Rightarrow> bool \<times> flash_mem" where
  "indexfs_monotonic_clear F fs m =
     (let c = indexfs_monotonic_count fs m
      in if c = 0 then (False, m)
         else let write_pointer = magic_offset + current_index fs m
           in mcu_flash_write_word F m (ix_ptr fs write_pointer)
                [mk_entry c CLEAR_TRUE (entry_flags (ix_word fs m write_pointer))])"

definition indexfs_monotonic_get_flag :: "indexfs_t \<Rightarrow> flash_mem \<Rightarrow> u32" where
  "indexfs_monotonic_get_flag fs m =
     (let index = current_index fs m
      in if index < 1 then 0 else entry_flags (ix_word fs m (magic_offset + index - 1)))"

definition indexfs_monotonic_set_flag ::
  "flash_ops \<Rightarrow> indexfs_t \<Rightarrow> u32 \<Rightarrow> flash_mem \<Rightarrow> bool \<times> flash_mem" where
  "indexfs_monotonic_set_flag F fs flag m =
     (if 0xF < flag then (False, m)
      else let c = indexfs_monotonic_count fs m
        in if c = 0 then (False, m)
           else let write_pointer = magic_offset + current_index fs m
             in mcu_flash_write_word F m (ix_ptr fs write_pointer)
                  [mk_entry c (entry_clear (ix_word fs m write_pointer)) (flag AND 0xF)])"

section \<open>The dispatch on the type\<close>

definition addr_in_range :: "u32 \<Rightarrow> u32 \<Rightarrow> u32 \<Rightarrow> bool" where
  "addr_in_range addr range_start range_size =
     (range_start \<le> addr \<and> addr - range_start < range_size)"

fun erase_loop :: "flash_ops \<Rightarrow> u32 \<Rightarrow> nat \<Rightarrow> nat \<Rightarrow> flash_mem \<Rightarrow> bool \<times> flash_mem" where
  "erase_loop F addr 0 page m = (True, m)"
| "erase_loop F addr (Suc n) page m =
     (case mcu_flash_erase_page F m (addr + word_of_nat page * MCU_FLASH_PAGE_SIZE F) of (ok, m) \<Rightarrow>
        if \<not> ok then (False, m) else erase_loop F addr n (Suc page) m)"

definition erase_flash :: "flash_ops \<Rightarrow> fw_layout \<Rightarrow> u32 \<Rightarrow> u32 \<Rightarrow> flash_mem \<Rightarrow> (bool \<times> flash_mem) option" where
  "erase_flash F W addr sz m =
     (if addr mod MCU_FLASH_PAGE_SIZE F \<noteq> 0 then Some (False, m)
      else if sz mod MCU_FLASH_PAGE_SIZE F \<noteq> 0 then Some (False, m)
      else case fwup_current_slot_address W of
        None \<Rightarrow> None
      | Some slot \<Rightarrow>
          if addr_in_range addr slot (fwup_slot_size W) then Some (False, m)
          else if addr_in_range addr (fwup_bl_address W) (fwup_bl_size W) then Some (False, m)
          else Some (erase_loop F addr (unat (sz div MCU_FLASH_PAGE_SIZE F)) 0 m))"

text \<open>The first component is whether the file system pointer is returned.\<close>

definition indexfs_create_static ::
  "flash_ops \<Rightarrow> fw_layout \<Rightarrow> indexfs_t \<Rightarrow> flash_mem \<Rightarrow> (bool \<times> flash_mem) option" where
  "indexfs_create_static F W fs m =
     (case ix_type fs of
        INDEXFS_TYPE_MONOTONIC \<Rightarrow>
          (case (if \<not> indexfs_monotonic_valid fs m
                 then erase_flash F W (ix_address fs) (word_of_nat (ix_size fs)) m
                 else Some (True, m)) of
             None \<Rightarrow> None
           | Some (ok, m) \<Rightarrow>
               if \<not> ok then Some (False, m) else Some (indexfs_monotonic_init F fs m))
      | _ \<Rightarrow> Some (False, m))"

definition indexfs_count :: "indexfs_t \<Rightarrow> flash_mem \<Rightarrow> u32" where
  "indexfs_count fs m =
     (case ix_type fs of INDEXFS_TYPE_MONOTONIC \<Rightarrow> ucast (indexfs_monotonic_count fs m) | _ \<Rightarrow> 0)"

definition indexfs_increment :: "flash_ops \<Rightarrow> indexfs_t \<Rightarrow> flash_mem \<Rightarrow> bool \<times> flash_mem" where
  "indexfs_increment F fs m =
     (case ix_type fs of
        INDEXFS_TYPE_MONOTONIC \<Rightarrow> indexfs_monotonic_increment F fs m | _ \<Rightarrow> (False, m))"

definition indexfs_clear :: "flash_ops \<Rightarrow> indexfs_t \<Rightarrow> flash_mem \<Rightarrow> bool \<times> flash_mem" where
  "indexfs_clear F fs m =
     (case ix_type fs of
        INDEXFS_TYPE_MONOTONIC \<Rightarrow> indexfs_monotonic_clear F fs m | _ \<Rightarrow> (False, m))"

definition indexfs_get_flag :: "indexfs_t \<Rightarrow> flash_mem \<Rightarrow> u32 option" where
  "indexfs_get_flag fs m =
     (case ix_type fs of
        INDEXFS_TYPE_MONOTONIC \<Rightarrow> Some (indexfs_monotonic_get_flag fs m) | _ \<Rightarrow> None)"

definition indexfs_set_flag :: "flash_ops \<Rightarrow> indexfs_t \<Rightarrow> u32 \<Rightarrow> flash_mem \<Rightarrow> bool \<times> flash_mem" where
  "indexfs_set_flag F fs flag m =
     (case ix_type fs of
        INDEXFS_TYPE_MONOTONIC \<Rightarrow> indexfs_monotonic_set_flag F fs flag m | _ \<Rightarrow> (False, m))"

section \<open>Bit fields\<close>

lemma and_0xF: "(x :: u32) AND 0xF = take_bit 4 x"
  by (simp add: take_bit_eq_mask mask_eq_exp_minus_1)

lemma and_0xFF: "(x :: u32) AND 0xFF = take_bit 8 x"
  by (simp add: take_bit_eq_mask mask_eq_exp_minus_1)

lemma bit_magic: "bit (0x5A :: u32) n \<longleftrightarrow> n < 8 \<and> bit (0x5A :: u32) n"
proof -
  have "(0x5A :: u32) = take_bit 8 0x5A" by simp
  then show ?thesis by (metis bit_take_bit_iff)
qed

lemma entry_magic_mk [simp]: "entry_magic (mk_entry c clr fl) = 0x5A"
proof (rule bit_word_eqI)
  fix n assume "n < LENGTH(32)"
  show "bit (entry_magic (mk_entry c clr fl)) n = bit (0x5A :: u32) n"
    unfolding entry_magic_def mk_entry_def and_0xFF and_0xF
    using bit_magic [of n] by (auto simp: bit_simps)
qed

lemma entry_count_mk [simp]: "entry_count (mk_entry c clr fl) = c"
proof (rule bit_word_eqI)
  fix n assume n: "n < LENGTH(16)"
  show "bit (entry_count (mk_entry c clr fl)) n = bit c n"
    unfolding entry_count_def mk_entry_def and_0xF
    using n bit_magic [of "8 + n"] by (auto simp: bit_simps)
qed

lemma entry_clear_mk [simp]: "entry_clear (mk_entry c clr fl) = clr AND 0xF"
proof (rule bit_word_eqI)
  fix n assume n: "n < LENGTH(32)"
  show "bit (entry_clear (mk_entry c clr fl)) n = bit (clr AND 0xF) n"
    unfolding entry_clear_def mk_entry_def and_0xF
    using n bit_magic [of "24 + n"] by (auto simp: bit_simps dest: bit_imp_le_length)
qed

lemma entry_flags_mk [simp]: "entry_flags (mk_entry c clr fl) = fl AND 0xF"
proof (rule bit_word_eqI)
  fix n assume n: "n < LENGTH(32)"
  show "bit (entry_flags (mk_entry c clr fl)) n = bit (fl AND 0xF) n"
    unfolding entry_flags_def mk_entry_def and_0xF
    using n bit_magic [of "28 + n"] by (auto simp: bit_simps dest: bit_imp_le_length)
qed

lemma erased_entry [simp]: "entry_magic (-1) = 0xFF" "entry_clear (-1) = 0xF" "entry_flags (-1) = 0xF"
  by (simp_all add: entry_magic_def entry_clear_def entry_flags_def mask_eq_exp_minus_1)

section \<open>The log of entries\<close>

locale nor_flash =
  fixes F :: flash_ops
  assumes write_law: "mcu_flash_write_word F m a ws = (ok, m') \<Longrightarrow>
      (\<forall>b. b \<notin> (\<lambda>i. a + 4 * word_of_nat i) ` {..<length ws} \<longrightarrow> m' b = m b) \<and>
      (ok \<longrightarrow> (\<forall>i < length ws. m' (a + 4 * word_of_nat i) = m (a + 4 * word_of_nat i) AND ws ! i))"
    and erase_law: "mcu_flash_erase_page F m a = (ok, m') \<Longrightarrow>
      (\<forall>b. \<not> addr_in_range b a (MCU_FLASH_PAGE_SIZE F) \<longrightarrow> m' b = m b) \<and>
      (ok \<longrightarrow> (\<forall>b. addr_in_range b a (MCU_FLASH_PAGE_SIZE F) \<longrightarrow> m' b = - 1))"

text \<open>
  The words from \<open>magic_offset\<close> on are the entries \<open>es\<close>, and after them the words below \<open>cap\<close>
  are erased.
\<close>

definition ix_log :: "indexfs_t \<Rightarrow> flash_mem \<Rightarrow> nat \<Rightarrow> u32 list \<Rightarrow> bool" where
  "ix_log fs m cap es =
     (ix_type fs = INDEXFS_TYPE_MONOTONIC \<and> cap \<le> ix_size fs \<and> ix_size fs \<le> 2 ^ 30 \<and>
      magic_offset + length es < cap \<and>
      (\<forall>i < length es. ix_word fs m (magic_offset + i) = es ! i \<and>
         entry_magic (es ! i) = INDEXFS_MONOTONIC_ENTRY_MAGIC) \<and>
      (\<forall>i. magic_offset + length es \<le> i \<longrightarrow> i < cap \<longrightarrow> ix_word fs m i = - 1))"

definition log_count :: "u32 list \<Rightarrow> u16" where
  "log_count es = foldl count_step 0 es"

definition log_flag :: "u32 list \<Rightarrow> u32" where
  "log_flag es = (if es = [] then 0 else entry_flags (last es))"

lemma count_loop_log:
  assumes "\<forall>i < length es. w (k + i) = es ! i \<and> entry_magic (es ! i) = INDEXFS_MONOTONIC_ENTRY_MAGIC"
    and "entry_magic (w (k + length es)) \<noteq> INDEXFS_MONOTONIC_ENTRY_MAGIC" "length es < n"
  shows "count_loop w n k c = foldl count_step c es"
  using assms
proof (induction es arbitrary: k n c)
  case Nil
  then show ?case by (cases n) auto
next
  case (Cons e es)
  then obtain n' where n: "n = Suc n'" by (cases n) auto
  have "w k = e" "entry_magic e = INDEXFS_MONOTONIC_ENTRY_MAGIC" using Cons.prems(1) by force+
  moreover have "count_loop w n' (Suc k) (count_step c e) = foldl count_step (count_step c e) es"
    using Cons.prems n by (intro Cons.IH) force+
  ultimately show ?case by (simp add: n)
qed

lemma index_loop_log:
  assumes "\<forall>i < length es. w (k + i) = es ! i \<and> entry_magic (es ! i) = INDEXFS_MONOTONIC_ENTRY_MAGIC"
    and "entry_magic (w (k + length es)) \<noteq> INDEXFS_MONOTONIC_ENTRY_MAGIC" "length es < n"
  shows "index_loop w n k = k + length es - magic_offset"
  using assms
proof (induction es arbitrary: k n)
  case Nil
  then show ?case by (cases n) auto
next
  case (Cons e es)
  then obtain n' where n: "n = Suc n'" by (cases n) auto
  have "w k = e" "entry_magic e = INDEXFS_MONOTONIC_ENTRY_MAGIC" using Cons.prems(1) by force+
  moreover have "index_loop w n' (Suc k) = Suc k + length es - magic_offset"
    using Cons.prems n by (intro Cons.IH) force+
  ultimately show ?case by (simp add: n)
qed

lemma log_type: "ix_log fs m cap es \<Longrightarrow> ix_type fs = INDEXFS_TYPE_MONOTONIC"
  by (simp add: ix_log_def)

lemma log_end: "ix_log fs m cap es \<Longrightarrow> ix_word fs m (magic_offset + length es) = - 1"
  by (simp add: ix_log_def)

lemma count_of_log: "ix_log fs m cap es \<Longrightarrow> indexfs_monotonic_count fs m = log_count es"
  unfolding indexfs_monotonic_count_def log_count_def
  by (rule count_loop_log) (auto simp: ix_log_def)

lemma index_of_log: "ix_log fs m cap es \<Longrightarrow> current_index fs m = length es"
  unfolding current_index_def
  by (subst index_loop_log [of es]) (auto simp: ix_log_def)

lemma flag_of_log: "ix_log fs m cap es \<Longrightarrow> indexfs_monotonic_get_flag fs m = log_flag es"
proof -
  assume log: "ix_log fs m cap es"
  show ?thesis
  proof (cases es rule: rev_cases)
    case Nil
    then show ?thesis using index_of_log [OF log] by (simp add: indexfs_monotonic_get_flag_def log_flag_def)
  next
    case (snoc es' e)
    then have "ix_word fs m (magic_offset + length es') = e"
      using log by (auto simp: ix_log_def nth_append dest: spec [of _ "length es'"])
    then show ?thesis
      using index_of_log [OF log] snoc by (simp add: indexfs_monotonic_get_flag_def log_flag_def)
  qed
qed

lemma ix_ptr_inj:
  assumes "i < 2 ^ 30" "j < 2 ^ 30" "ix_ptr fs i = ix_ptr fs j"
  shows "i = j"
proof -
  have "unat (4 * word_of_nat k :: u32) = 4 * k" if "k < 2 ^ 30" for k
    using that by (simp add: unat_word_ariths unat_of_nat_len)
  moreover have "(4 * word_of_nat i :: u32) = 4 * word_of_nat j" using assms(3) by (simp add: ix_ptr_def)
  ultimately show ?thesis using assms(1,2) by (metis mult_cancel1 zero_neq_numeral)
qed

context nor_flash
begin

text \<open>Writing one entry at the end of the log.\<close>

lemma append_entry:
  assumes log: "ix_log fs m cap es" and room: "Suc (magic_offset + length es) < cap"
    and w: "mcu_flash_write_word F m (ix_ptr fs (magic_offset + length es)) [e] = (True, m')"
    and e: "entry_magic e = INDEXFS_MONOTONIC_ENTRY_MAGIC"
  shows "ix_log fs m' cap (es @ [e])"
proof -
  let ?k = "magic_offset + length es"
  have end_word: "m' (ix_ptr fs ?k) = e"
    using write_law [OF w] log_end [OF log] by (simp add: ix_word_def)
  have other: "ix_word fs m' i = ix_word fs m i" if "i \<noteq> ?k" "i < cap" for i
  proof -
    have "i < 2 ^ 30" "?k < 2 ^ 30" using that log by (auto simp: ix_log_def)
    then have "ix_ptr fs i \<noteq> ix_ptr fs ?k" using ix_ptr_inj that(1) by blast
    then show ?thesis using write_law [OF w] by (auto simp: ix_word_def)
  qed
  show ?thesis
    unfolding ix_log_def
  proof (intro conjI allI impI)
    fix i assume i: "i < length (es @ [e])"
    show "ix_word fs m' (magic_offset + i) = (es @ [e]) ! i"
    proof (cases "i = length es")
      case True
      then show ?thesis using end_word by (simp add: ix_word_def)
    next
      case False
      then have "i < length es" using i by simp
      then show ?thesis using other [of "magic_offset + i"] log room by (simp add: ix_log_def nth_append)
    qed
    show "entry_magic ((es @ [e]) ! i) = INDEXFS_MONOTONIC_ENTRY_MAGIC"
      using i log e by (cases "i = length es") (auto simp: ix_log_def nth_append)
  next
    fix i assume "magic_offset + length (es @ [e]) \<le> i" "i < cap"
    then show "ix_word fs m' i = - 1" using other [of i] log by (simp add: ix_log_def)
  qed (use log room in \<open>auto simp: ix_log_def\<close>)
qed

lemma increment_log:
  assumes log: "ix_log fs m cap es" and room: "Suc (magic_offset + length es) < cap"
    and op: "indexfs_increment F fs m = (True, m')"
  shows "\<exists>es'. ix_log fs m' cap es' \<and> length es' = Suc (length es) \<and>
     log_count es' = log_count es + 1 \<and> unat (log_count es') = Suc (unat (log_count es)) \<and>
     log_flag es' = FLAGS_EMPTY"
proof -
  let ?e = "mk_entry (log_count es + 1) CLEAR_FALSE FLAGS_EMPTY"
  have "ix_type fs = INDEXFS_TYPE_MONOTONIC" using log by (rule log_type)
  then have w: "mcu_flash_write_word F m (ix_ptr fs (magic_offset + length es)) [?e] = (True, m')"
    and c: "unat (log_count es) + 1 \<le> 65535"
    using op count_of_log [OF log] index_of_log [OF log]
    by (auto simp: indexfs_increment_def indexfs_monotonic_increment_def Let_def split: if_splits)
  have "unat (log_count es + 1) = Suc (unat (log_count es))"
    using c by (subst unat_plus_no_wrap) simp_all
  then show ?thesis
    using append_entry [OF log room w]
    by (intro exI [of _ "es @ [?e]"]) (simp add: log_count_def log_flag_def count_step_def)
qed

lemma clear_log:
  assumes log: "ix_log fs m cap es" and room: "Suc (magic_offset + length es) < cap"
    and op: "indexfs_clear F fs m = (True, m')"
  shows "\<exists>es'. ix_log fs m' cap es' \<and> length es' = Suc (length es) \<and>
     log_count es \<noteq> 0 \<and> log_count es' = 0"
proof -
  let ?e = "mk_entry (log_count es) CLEAR_TRUE 0xF"
  have "ix_type fs = INDEXFS_TYPE_MONOTONIC" using log by (rule log_type)
  then have w: "mcu_flash_write_word F m (ix_ptr fs (magic_offset + length es)) [?e] = (True, m')"
    and c: "log_count es \<noteq> 0"
    using op count_of_log [OF log] index_of_log [OF log] log_end [OF log]
    by (auto simp: indexfs_clear_def indexfs_monotonic_clear_def Let_def split: if_splits)
  then show ?thesis
    using append_entry [OF log room w]
    by (intro exI [of _ "es @ [?e]"]) (simp add: log_count_def count_step_def)
qed

lemma set_flag_log:
  assumes log: "ix_log fs m cap es" and room: "Suc (magic_offset + length es) < cap"
    and op: "indexfs_set_flag F fs fl m = (True, m')"
  shows "\<exists>es'. ix_log fs m' cap es' \<and> length es' = Suc (length es) \<and>
     log_count es' = log_count es \<and> log_flag es' = fl"
proof -
  let ?e = "mk_entry (log_count es) CLEAR_FALSE (fl AND 0xF)"
  have "ix_type fs = INDEXFS_TYPE_MONOTONIC" using log by (rule log_type)
  then have w: "mcu_flash_write_word F m (ix_ptr fs (magic_offset + length es)) [?e] = (True, m')"
    and f: "fl \<le> 0xF"
    using op count_of_log [OF log] index_of_log [OF log] log_end [OF log]
    by (auto simp: indexfs_set_flag_def indexfs_monotonic_set_flag_def Let_def split: if_splits)
  have "fl AND 0xF = fl"
  proof -
    have "unat fl < 2 ^ 4" using f by (simp add: word_le_nat_alt)
    then have "take_bit 4 fl = fl" by (simp add: word_unat_eq_iff unsigned_take_bit_eq take_bit_nat_eq_self)
    then show ?thesis by (simp add: and_0xF)
  qed
  then show ?thesis
    using append_entry [OF log room w]
    by (intro exI [of _ "es @ [?e]"]) (simp add: log_count_def log_flag_def count_step_def)
qed

end

section \<open>A flash in memory\<close>

definition ram_write :: "flash_mem \<Rightarrow> u32 \<Rightarrow> u32 list \<Rightarrow> flash_mem" where
  "ram_write m a ws =
     (\<lambda>b. let d = unat (b - a)
          in if d mod 4 = 0 \<and> d div 4 < length ws then m b AND ws ! (d div 4) else m b)"

definition ram_flash :: flash_ops where
  "ram_flash = \<lparr>
     mcu_flash_write_word = (\<lambda>m a ws. if length ws \<le> 2048 then (True, ram_write m a ws) else (False, m)),
     mcu_flash_erase_page = (\<lambda>m a. (True, \<lambda>b. if addr_in_range b a 0x2000 then - 1 else m b)),
     MCU_FLASH_PAGE_SIZE = 0x2000\<rparr>"

lemma ram_write_other:
  assumes "b \<notin> (\<lambda>i. a + 4 * word_of_nat i) ` {..<length ws}"
  shows "ram_write m a ws b = m b"
proof -
  have "b = a + 4 * word_of_nat (unat (b - a) div 4)" if "unat (b - a) mod 4 = 0"
  proof -
    have "4 * word_of_nat (unat (b - a) div 4) = (word_of_nat (4 * (unat (b - a) div 4)) :: u32)" by simp
    also have "\<dots> = b - a" using that by (simp add: mult_div_mod_eq [symmetric] minus_mod_eq_mult_div [symmetric])
    finally show ?thesis by simp
  qed
  with assms show ?thesis by (auto simp: ram_write_def Let_def)
qed

lemma ram_write_at:
  assumes "i < length ws" "length ws \<le> 2048"
  shows "ram_write m a ws (a + 4 * word_of_nat i) = m (a + 4 * word_of_nat i) AND ws ! i"
proof -
  have "unat (4 * word_of_nat i :: u32) = 4 * i"
    using assms by (simp add: unat_word_ariths unat_of_nat_len)
  then show ?thesis using assms(1) by (simp add: ram_write_def)
qed

interpretation ramf: nor_flash ram_flash
  by unfold_locales
    (auto simp: ram_flash_def ram_write_other ram_write_at split: if_splits)

section \<open>Properties\<close>

lemma count_log_u32: "ix_log fs m cap es \<Longrightarrow> indexfs_count fs m = ucast (log_count es)"
  using count_of_log [of fs m cap es] log_type [of fs m cap es] by (simp add: indexfs_count_def)

lemma get_flag_log: "ix_log fs m cap es \<Longrightarrow> indexfs_get_flag fs m = Some (log_flag es)"
  using flag_of_log [of fs m cap es] log_type [of fs m cap es] by (simp add: indexfs_get_flag_def)

text \<open>C16: While the log has room, the flash file system behaves as a counter with a flag: an
  increment that reports success adds exactly one (never wrapping) and resets the flag to
  0xF, clearing sets the counter to zero, and setting the flag keeps the counter.\<close>

theorem indexfs_refines_counter:
  assumes "nor_flash F" "ix_log fs m cap es" "Suc (magic_offset + length es) < cap"
  shows "(indexfs_increment F fs m = (True, m') \<longrightarrow>
       unat (indexfs_count fs m') = unat (indexfs_count fs m) + 1 \<and>
       indexfs_get_flag fs m' = Some FLAGS_EMPTY) \<and>
     (indexfs_clear F fs m = (True, m') \<longrightarrow>
       indexfs_count fs m \<noteq> 0 \<and> indexfs_count fs m' = 0) \<and>
     (indexfs_set_flag F fs fl m = (True, m') \<longrightarrow>
       indexfs_count fs m' = indexfs_count fs m \<and> indexfs_get_flag fs m' = Some fl)"
proof (intro conjI impI)
  assume "indexfs_increment F fs m = (True, m')"
  from nor_flash.increment_log [OF assms this] obtain es' where
    "ix_log fs m' cap es'" "unat (log_count es') = Suc (unat (log_count es))" "log_flag es' = FLAGS_EMPTY"
    by blast
  then show "unat (indexfs_count fs m') = unat (indexfs_count fs m) + 1"
    "indexfs_get_flag fs m' = Some FLAGS_EMPTY"
    using assms(2) by (simp_all add: count_log_u32 get_flag_log)
next
  assume "indexfs_clear F fs m = (True, m')"
  from nor_flash.clear_log [OF assms this] obtain es' where
    es': "ix_log fs m' cap es'" "log_count es \<noteq> 0" "log_count es' = 0"
    by blast
  then show "indexfs_count fs m' = 0" by (simp add: count_log_u32)
  have "ucast (log_count es) \<noteq> (0 :: u32)"
    using es'(2) by (metis unat_0 unat_eq_zero unat_ucast_u16_u32)
  then show "indexfs_count fs m \<noteq> 0" using assms(2) by (simp add: count_log_u32)
next
  assume "indexfs_set_flag F fs fl m = (True, m')"
  from nor_flash.set_flag_log [OF assms this] assms(2)
  show "indexfs_count fs m' = indexfs_count fs m" "indexfs_get_flag fs m' = Some fl"
    by (auto simp: count_log_u32 get_flag_log)
qed

definition ix_example :: indexfs_t where
  "ix_example = \<lparr>ix_type = INDEXFS_TYPE_MONOTONIC, ix_address = 0x4000, ix_size = 16\<rparr>"

lemma ix_example_simps [simp]:
  "ix_type ix_example = INDEXFS_TYPE_MONOTONIC" "ix_address ix_example = 0x4000" "ix_size ix_example = 16"
  by (simp_all add: ix_example_def)

lemma ix_log_erased: "ix_log ix_example (\<lambda>_. - 1) 8 []"
  by (simp add: ix_log_def ix_word_def)

theorem indexfs_refines_counter_witness:
  "\<exists>m'. indexfs_increment ram_flash ix_example (\<lambda>_. - 1) = (True, m') \<and>
        unat (indexfs_count ix_example m') = unat (indexfs_count ix_example (\<lambda>_. - 1)) + 1"
proof -
  have "indexfs_monotonic_count ix_example (\<lambda>_. - 1) = 0"
    using count_of_log [OF ix_log_erased] by (simp add: log_count_def)
  then obtain m' where i: "indexfs_increment ram_flash ix_example (\<lambda>_. - 1) = (True, m')"
    by (simp add: indexfs_increment_def indexfs_monotonic_increment_def ram_flash_def Let_def)
  with indexfs_refines_counter [OF ramf.nor_flash_axioms ix_log_erased, of m' 0] show ?thesis by simp
qed

text \<open>C38: \<open>size\<close> is a number of bytes, but the loops and the write pointer count words, so
  the log is not confined to its page: when the page holds as many entries as fit, the next
  increment programs the first word after it.\<close>

theorem indexfs_increment_leaves_page:
  assumes "nor_flash F" "ix_log fs m cap es" "Suc (magic_offset + length es) < cap"
    and "4 * (magic_offset + length es) = ix_size fs"
    and "indexfs_increment F fs m = (True, m')"
  shows "m (ix_address fs + word_of_nat (ix_size fs)) = - 1 \<and>
     m' (ix_address fs + word_of_nat (ix_size fs)) = mk_entry (log_count es + 1) CLEAR_FALSE FLAGS_EMPTY"
proof -
  have ptr: "ix_ptr fs (magic_offset + length es) = ix_address fs + word_of_nat (ix_size fs)"
    unfolding ix_ptr_def assms(4) [symmetric] by simp
  have "ix_type fs = INDEXFS_TYPE_MONOTONIC" using assms(2) by (simp add: ix_log_def)
  then have w: "mcu_flash_write_word F m (ix_ptr fs (magic_offset + length es))
      [mk_entry (log_count es + 1) CLEAR_FALSE FLAGS_EMPTY] = (True, m')"
    using assms(5) count_of_log [OF assms(2)] index_of_log [OF assms(2)]
    by (auto simp: indexfs_increment_def indexfs_monotonic_increment_def Let_def split: if_splits)
  show ?thesis
    using nor_flash.write_law [OF assms(1) w] log_end [OF assms(2)]
    by (simp add: ptr ix_word_def)
qed

theorem indexfs_increment_leaves_page_witness:
  "\<exists>m m'. indexfs_increment ram_flash ix_example m = (True, m') \<and>
     m (0x4000 + 16) = - 1 \<and> m' (0x4000 + 16) = mk_entry 2 CLEAR_FALSE FLAGS_EMPTY"
proof -
  let ?e = "mk_entry 1 CLEAR_FALSE FLAGS_EMPTY"
  let ?m = "(\<lambda>_. - 1)(ix_ptr ix_example 3 := ?e)"
  have "ix_ptr ix_example i \<noteq> ix_ptr ix_example 3" if "4 \<le> i" "i < 8" for i
    using ix_ptr_inj [of i 3 ix_example] that by auto
  then have log: "ix_log ix_example ?m 8 [?e]"
    by (auto simp: ix_log_def ix_word_def)
  have c: "log_count [?e] = 1" by (simp add: log_count_def count_step_def)
  obtain m' where i: "indexfs_increment ram_flash ix_example ?m = (True, m')"
    using count_of_log [OF log] c
    by (simp add: indexfs_increment_def indexfs_monotonic_increment_def ram_flash_def Let_def)
  from indexfs_increment_leaves_page [OF ramf.nor_flash_axioms log _ _ i] c
  have "?m (0x4000 + 16) = - 1" "m' (0x4000 + 16) = mk_entry 2 CLEAR_FALSE FLAGS_EMPTY" by simp_all
  with i show ?thesis by blast
qed

end
