(* ===== verification/Wkek.thy ===== *)
theory Wkek
  imports Littlefs Mempool
begin

text \<open>
  The wallet key-encryption key and the files sealed with it: \<open>lib/wallet/src/wkek.c\<close>,
  \<open>wallet_storage.c\<close> and \<open>wallet.c\<close>.  The cryptographic primitives run in the secure engine,
  so they are a parameter, a record of functions on an engine state \<open>'c\<close>.  The wrapped key is
  the sequence of bytes held in \<open>encrypted_wkek_buffer\<close>.  The mutex of \<open>wkek_load\<close> has no
  effect on the sequential behaviour.  \<open>None\<close> is a failed assertion.
\<close>

section \<open>The secure engine\<close>

text \<open>
  \<open>generate_key\<close> and \<open>crypto_random\<close> return a status and what they left in the caller's
  buffer; \<open>aes_gcm_encrypt\<close> a status, the ciphertext and the tag; \<open>aes_gcm_decrypt\<close> a status and
  the contents of the output buffer.
\<close>

record 'c crypto_ops =
  generate_key :: "'c \<Rightarrow> bool \<times> bytes \<times> 'c"
  crypto_random :: "nat \<Rightarrow> 'c \<Rightarrow> bool \<times> bytes \<times> 'c"
  aes_gcm_encrypt :: "bytes \<Rightarrow> bytes \<Rightarrow> bytes \<Rightarrow> 'c \<Rightarrow> bool \<times> (bytes \<times> bytes) \<times> 'c"
  aes_gcm_decrypt :: "bytes \<Rightarrow> bytes \<Rightarrow> bytes \<Rightarrow> bytes \<Rightarrow> 'c \<Rightarrow> bool \<times> bytes \<times> 'c"

abbreviation AES_GCM_IV_LENGTH :: nat where "AES_GCM_IV_LENGTH \<equiv> 12"
abbreviation AES_GCM_TAG_LENGTH :: nat where "AES_GCM_TAG_LENGTH \<equiv> 16"
abbreviation AES_GCM_OVERHEAD :: nat where "AES_GCM_OVERHEAD \<equiv> 28"
abbreviation WKEK_SIZE :: nat where "WKEK_SIZE \<equiv> 60"
abbreviation CSEK_LENGTH :: nat where "CSEK_LENGTH \<equiv> 32"

definition WKEK_PATH :: string where
  "WKEK_PATH = ''encrypted-wkek.bin''"

definition SEED_PATH :: string where
  "SEED_PATH = ''bip32-seed.bin''"

record ('m, 'c) wallet_state =
  w_fs :: "'m fs_state"
  w_crypto :: 'c
  wallet_pool :: mempool_t
  wkek_key :: bytes
  wkek_loaded :: bool

section \<open>The key\<close>

definition wkek_generate_and_store ::
  "'m lfs_ops \<Rightarrow> 'c crypto_ops \<Rightarrow> ('m, 'c) wallet_state \<Rightarrow> (bool \<times> ('m, 'c) wallet_state) option" where
  "wkek_generate_and_store L C s =
     (case generate_key C (w_crypto s) of (ok, k, c) \<Rightarrow>
        let s = s\<lparr>w_crypto := c, wkek_key := k\<rparr>
        in if \<not> ok then Some (False, s)
           else do { (ok, fs) \<leftarrow> fs_util_write_global L WKEK_PATH (wkek_key s) (w_fs s);
                     Some (ok, s\<lparr>w_fs := fs\<rparr>) })"

definition wkek_load ::
  "'m lfs_ops \<Rightarrow> ('m, 'c) wallet_state \<Rightarrow> (bool \<times> ('m, 'c) wallet_state) option" where
  "wkek_load L s =
     (if wkek_loaded s then Some (True, s)
      else do { (ok, bs, fs) \<leftarrow> fs_util_read_global L WKEK_PATH WKEK_SIZE (w_fs s);
                let s = s\<lparr>w_fs := fs, wkek_key := mem_write (wkek_key s) 0 bs,
                          wkek_loaded := ok\<rparr>;
                Some (wkek_loaded s, s) })"

definition wkek_exists ::
  "'m lfs_ops \<Rightarrow> ('m, 'c) wallet_state \<Rightarrow> bool \<times> ('m, 'c) wallet_state" where
  "wkek_exists L s =
     (case fs_file_exists L WKEK_PATH (w_fs s) of (b, fs) \<Rightarrow> (b, s\<lparr>w_fs := fs\<rparr>))"

definition wallet_fs_remove ::
  "'m lfs_ops \<Rightarrow> string \<Rightarrow> ('m, 'c) wallet_state \<Rightarrow> int \<times> ('m, 'c) wallet_state" where
  "wallet_fs_remove L p s = (case fs_remove L p (w_fs s) of (r, fs) \<Rightarrow> (r, s\<lparr>w_fs := fs\<rparr>))"

definition wkek_remove_files ::
  "'m lfs_ops \<Rightarrow> ('m, 'c) wallet_state \<Rightarrow> int \<times> ('m, 'c) wallet_state" where
  "wkek_remove_files L s = wallet_fs_remove L WKEK_PATH s"

definition wkek_lazy_init ::
  "'m lfs_ops \<Rightarrow> 'c crypto_ops \<Rightarrow> ('m, 'c) wallet_state \<Rightarrow> (bool \<times> ('m, 'c) wallet_state) option" where
  "wkek_lazy_init L C s =
     (case wkek_exists L s of (ex, s) \<Rightarrow>
        do { (ok, s) \<leftarrow> (if ex then Some (True, s) else wkek_generate_and_store L C s);
             if \<not> ok then Some (False, s) else wkek_load L s })"

text \<open>Encryption returns the vector, the ciphertext and the tag, or \<open>None\<close> for \<open>false\<close>.\<close>

definition wkek_encrypt ::
  "'m lfs_ops \<Rightarrow> 'c crypto_ops \<Rightarrow> bytes \<Rightarrow> ('m, 'c) wallet_state \<Rightarrow>
   ((bytes \<times> bytes \<times> bytes) option \<times> ('m, 'c) wallet_state) option" where
  "wkek_encrypt L C plaintext s =
     do { (ok, s) \<leftarrow> wkek_lazy_init L C s;
          if \<not> ok then Some (None, s)
          else case crypto_random C AES_GCM_IV_LENGTH (w_crypto s) of (ok, iv, c) \<Rightarrow>
            if \<not> ok then Some (None, s\<lparr>w_crypto := c\<rparr>)
            else case aes_gcm_encrypt C (wkek_key s) iv plaintext c of (ok, (ct, tag), c) \<Rightarrow>
              Some (if ok then Some (iv, ct, tag) else None, s\<lparr>w_crypto := c\<rparr>) }"

text \<open>Decryption returns the status and the contents of the output buffer.\<close>

definition wkek_decrypt ::
  "'m lfs_ops \<Rightarrow> 'c crypto_ops \<Rightarrow> bytes \<Rightarrow> bytes \<Rightarrow> bytes \<Rightarrow> bytes \<Rightarrow> ('m, 'c) wallet_state \<Rightarrow>
   (bool \<times> bytes \<times> ('m, 'c) wallet_state) option" where
  "wkek_decrypt L C ciphertext plaintext iv tag s =
     do { (ok, s) \<leftarrow> wkek_lazy_init L C s;
          if \<not> ok then Some (False, plaintext, s)
          else case aes_gcm_decrypt C (wkek_key s) iv tag ciphertext (w_crypto s) of (ok, pt, c) \<Rightarrow>
            Some (ok, pt, s\<lparr>w_crypto := c\<rparr>) }"

section \<open>Sealed files\<close>

text \<open>
  The blob is the vector, the ciphertext and the tag in this order.  Its block in the pool is
  tracked; its bytes are local to the call, since \<open>mempool_free\<close> clears the block.
\<close>

definition wkek_encrypt_and_store ::
  "'m lfs_ops \<Rightarrow> 'c crypto_ops \<Rightarrow> string \<Rightarrow> bytes \<Rightarrow> ('m, 'c) wallet_state \<Rightarrow>
   (bool \<times> ('m, 'c) wallet_state) option" where
  "wkek_encrypt_and_store L C filename data s =
     do { (blob, pool) \<leftarrow> mempool_alloc (wallet_pool s) (length data + AES_GCM_OVERHEAD);
          (r, s) \<leftarrow> wkek_encrypt L C data (s\<lparr>wallet_pool := pool\<rparr>);
          (ok, s) \<leftarrow> (case r of
              None \<Rightarrow> Some (False, s)
            | Some (iv, ct, tag) \<Rightarrow>
                do { (ok, fs) \<leftarrow> fs_util_write_global L filename (iv @ ct @ tag) (w_fs s);
                     Some (ok, s\<lparr>w_fs := fs\<rparr>) });
          pool \<leftarrow> mempool_free (wallet_pool s) blob;
          Some (ok, s\<lparr>wallet_pool := pool\<rparr>) }"

definition wkek_read_and_decrypt ::
  "'m lfs_ops \<Rightarrow> 'c crypto_ops \<Rightarrow> string \<Rightarrow> bytes \<Rightarrow> ('m, 'c) wallet_state \<Rightarrow>
   (bool \<times> bytes \<times> ('m, 'c) wallet_state) option" where
  "wkek_read_and_decrypt L C filename data_out s =
     (let n = length data_out
      in do { (blob, pool) \<leftarrow> mempool_alloc (wallet_pool s) (n + AES_GCM_OVERHEAD);
              (ok, data_out, s) \<leftarrow>
                (case fs_file_exists L filename (w_fs s) of (ex, fs) \<Rightarrow>
                   let s = s\<lparr>wallet_pool := pool, w_fs := fs\<rparr>
                   in if \<not> ex then Some (False, data_out, s)
                      else do { (ok, b, fs) \<leftarrow> fs_util_read_global L filename (n + AES_GCM_OVERHEAD) (w_fs s);
                                let s = s\<lparr>w_fs := fs\<rparr>;
                                if \<not> ok then Some (False, data_out, s)
                                else wkek_decrypt L C (mem_read AES_GCM_IV_LENGTH n b) data_out
                                       (mem_read 0 AES_GCM_IV_LENGTH b)
                                       (mem_read (AES_GCM_IV_LENGTH + n) AES_GCM_TAG_LENGTH b) s });
              pool \<leftarrow> mempool_free (wallet_pool s) blob;
              Some (ok, data_out, s\<lparr>wallet_pool := pool\<rparr>) })"

section \<open>Wiping\<close>

definition wallet_files :: "string list" where
  "wallet_files =
     [''derived-keys.bin'', ''wallet-keyset.bin'', ''btc-network-type.bin'', SEED_PATH,
      ''encrypted-auth-key-active.bin'', ''encrypted-config-key-active.bin'',
      ''encrypted-spend-key-active.bin'', ''encrypted-auth-key-recovery.bin'',
      ''encrypted-config-key-recovery.bin'', ''encrypted-spend-key-recovery.bin'',
      ''encrypted-auth-key-inactive.bin'', ''encrypted-config-key-inactive.bin'',
      ''encrypted-spend-key-inactive.bin'', WKEK_PATH]"

text \<open>\<open>wallet_remove_files\<close> removes them one after the other and ignores every result.\<close>

definition wallet_remove_files ::
  "'m lfs_ops \<Rightarrow> ('m, 'c) wallet_state \<Rightarrow> ('m, 'c) wallet_state" where
  "wallet_remove_files L s = fold (\<lambda>p s. snd (wallet_fs_remove L p s)) wallet_files s"

definition wallet_is_initialized ::
  "'m lfs_ops \<Rightarrow> ('m, 'c) wallet_state \<Rightarrow> bool \<times> ('m, 'c) wallet_state" where
  "wallet_is_initialized L s =
     (case fs_file_exists L SEED_PATH (w_fs s) of (b, fs) \<Rightarrow> (b, s\<lparr>w_fs := fs\<rparr>))"

section \<open>Backup keys\<close>

datatype wallet_res_t =
  WALLET_RES_OK | WALLET_RES_ERR | WALLET_RES_ALREADY_CREATED | WALLET_RES_NOT_CREATED |
  WALLET_RES_WKEK_ERR | WALLET_RES_NO_WKEK | WALLET_RES_MASTER_KEY_ERR | WALLET_RES_STORAGE_ERR |
  WALLET_RES_KEY_DERIVATION_ERR | WALLET_RES_SIGNING_ERR | WALLET_RES_SEALING_ERR |
  WALLET_RES_UNSEALING_ERR | WALLET_RES_OOM | WALLET_RES_SERIALIZATION_ERR |
  WALLET_RES_UNIMPLEMENTED_ERR | WALLET_RES_NETWORK_ERR

definition wallet_csek_encrypt ::
  "'m lfs_ops \<Rightarrow> 'c crypto_ops \<Rightarrow> bytes \<Rightarrow> ('m, 'c) wallet_state \<Rightarrow>
   (wallet_res_t \<times> (bytes \<times> bytes \<times> bytes) option \<times> ('m, 'c) wallet_state) option" where
  "wallet_csek_encrypt L C unwrapped_csek s =
     (if length unwrapped_csek \<noteq> CSEK_LENGTH then None
      else do { (ok, s) \<leftarrow> wkek_lazy_init L C s;
                if \<not> ok then Some (WALLET_RES_WKEK_ERR, None, s)
                else do { (r, s) \<leftarrow> wkek_encrypt L C unwrapped_csek s;
                          Some (if r = None then WALLET_RES_SEALING_ERR else WALLET_RES_OK, r, s) } })"

definition wallet_csek_decrypt ::
  "'m lfs_ops \<Rightarrow> 'c crypto_ops \<Rightarrow> bytes \<Rightarrow> bytes \<Rightarrow> bytes \<Rightarrow> bytes \<Rightarrow> ('m, 'c) wallet_state \<Rightarrow>
   (wallet_res_t \<times> bytes \<times> ('m, 'c) wallet_state) option" where
  "wallet_csek_decrypt L C wrapped_csek unwrapped_out iv tag s =
     do { (ok, s) \<leftarrow> wkek_lazy_init L C s;
          if \<not> ok then Some (WALLET_RES_WKEK_ERR, unwrapped_out, s)
          else do { (ok, pt, s) \<leftarrow> wkek_decrypt L C wrapped_csek unwrapped_out iv tag s;
                    Some (if ok then WALLET_RES_OK else WALLET_RES_UNSEALING_ERR, pt, s) } }"

lemma in_take_before:
  assumes "distinct xs" "i < length xs" "xs ! i \<in> set (take n xs)" "j \<le> i"
  shows "xs ! j \<in> set (take n xs)"
proof -
  obtain k where "k < n" "k < length xs" "xs ! k = xs ! i"
    using assms(3) by (auto simp: in_set_conv_nth)
  then have "i < n" using assms(1,2) by (simp add: nth_eq_iff_index_eq)
  then show ?thesis using nth_mem [of j "take n xs"] assms(2,4) by simp
qed

lemma fs_util_read_global_Some:
  assumes "0 < n"
  obtains ok bs s' where "fs_util_read_global L p n s = Some (ok, bs, s')"
proof -
  have "fs_util_read_global L p n s \<noteq> None" using assms by (simp add: fs_util_read_global_def)
  then show thesis using that by (metis not_None_eq surj_pair)
qed

section \<open>What the wallet relies on\<close>

text \<open>The documented behaviour of the primitives: sizes, and that decryption of a genuine
  ciphertext can only give the plaintext.  Every call may fail.\<close>

locale aead =
  fixes C :: "'c crypto_ops"
  assumes key_size: "generate_key C c = (True, k, c') \<Longrightarrow> length k = WKEK_SIZE"
    and random_size: "crypto_random C n c = (True, bs, c') \<Longrightarrow> length bs = n"
    and encrypt_size: "aes_gcm_encrypt C k iv pt c = (True, (ct, tag), c') \<Longrightarrow>
      length ct = length pt \<and> length tag = AES_GCM_TAG_LENGTH"
    and decrypt_encrypt: "aes_gcm_encrypt C k iv pt c = (True, (ct, tag), c') \<Longrightarrow>
      aes_gcm_decrypt C k iv tag ct d = (True, pt', d') \<Longrightarrow> pt' = pt"

text \<open>A file system on which the existence test does not fail on an existing file.\<close>

locale littlefs_stat = littlefs +
  assumes stat_found: "lfs_stat L m p = (r, info, m') \<Longrightarrow> content m p \<noteq> None \<Longrightarrow> 0 \<le> r"
begin

lemma exists_iff:
  assumes i: "fs_idle opened s" and ex: "fs_file_exists L p s = (b, s')"
  shows "fs_idle opened s' \<and> fs_files content s' = fs_files content s \<and>
     (b \<longleftrightarrow> fs_files content s p \<noteq> None)"
proof -
  have u: "fs_usable s" using i by (simp add: fs_idle_def)
  obtain m where m: "fs_lfs s = Some m" using u by (rule fs_usable_obtain)
  obtain r info m' where st: "lfs_stat L m p = (r, info, m')" by (metis surj_pair)
  have "fs_stat_call L p s = (r, Some info, s\<lparr>fs_lfs := Some m', fs_lock_count := Suc (fs_lock_count s)\<rparr>)"
    using st m u by (simp add: fs_stat_call_def fs_call_def LOCK_UNLOCK_def fs_lock_def fs_usable_def)
  then have "b = (0 \<le> r \<and> info_type info = LFS_TYPE_REG)"
    using ex by (auto simp: fs_file_exists_def fs_get_filetype_def split: lfs_type.splits if_splits)
  then have "fs_files content s p \<noteq> None \<longrightarrow> b"
    using stat_law [OF st] stat_found [OF st] m by (auto simp: fs_files_def)
  with exists_idle [OF i ex] show ?thesis by auto
qed

end

section \<open>Sealed data\<close>

text \<open>The wallet key on file, and a file that holds data sealed with it.\<close>

definition key_file ::
  "('m \<Rightarrow> string \<Rightarrow> bytes option) \<Rightarrow> ('m, 'c) wallet_state \<Rightarrow> bytes \<Rightarrow> bool" where
  "key_file content s k =
     (\<exists>c. fs_files content (w_fs s) WKEK_PATH = Some c \<and> WKEK_SIZE \<le> length c \<and> k = take WKEK_SIZE c)"

definition wkek_ready ::
  "('m \<Rightarrow> string \<Rightarrow> bytes option) \<Rightarrow> ('m \<Rightarrow> file_addr \<Rightarrow> open_file option) \<Rightarrow>
   ('m, 'c) wallet_state \<Rightarrow> bool" where
  "wkek_ready content opened s =
     (fs_idle opened (w_fs s) \<and> pool_ok (wallet_pool s) \<and> length (wkek_key s) = WKEK_SIZE \<and>
      (\<exists>k. key_file content s k \<and> (wkek_loaded s \<longrightarrow> wkek_key s = k)))"

definition is_blob :: "'c crypto_ops \<Rightarrow> bytes \<Rightarrow> bytes \<Rightarrow> bytes \<Rightarrow> bool" where
  "is_blob C k data b =
     (\<exists>iv ct tag c c'. aes_gcm_encrypt C k iv data c = (True, (ct, tag), c') \<and>
        length iv = AES_GCM_IV_LENGTH \<and> b = iv @ ct @ tag)"

definition sealed ::
  "'c crypto_ops \<Rightarrow> ('m \<Rightarrow> string \<Rightarrow> bytes option) \<Rightarrow> ('m, 'c) wallet_state \<Rightarrow> string \<Rightarrow> bytes \<Rightarrow> bool" where
  "sealed C content s f data =
     (\<exists>k c. key_file content s k \<and> fs_files content (w_fs s) f = Some c \<and>
        is_blob C k data (take (length data + AES_GCM_OVERHEAD) c))"

text \<open>A later boot: the files are those of before, the key in RAM is not loaded and the pool, the
  engine and the contents of RAM are arbitrary.\<close>

definition rebooted ::
  "('m \<Rightarrow> string \<Rightarrow> bytes option) \<Rightarrow> ('m \<Rightarrow> file_addr \<Rightarrow> open_file option) \<Rightarrow>
   ('m, 'c) wallet_state \<Rightarrow> ('m, 'c) wallet_state \<Rightarrow> bool" where
  "rebooted content opened s t =
     (fs_idle opened (w_fs t) \<and> fs_files content (w_fs t) = fs_files content (w_fs s) \<and>
      pool_ok (wallet_pool t) \<and> length (wkek_key t) = WKEK_SIZE \<and> \<not> wkek_loaded t)"

lemma rebooted_ready:
  "rebooted content opened s t \<Longrightarrow> wkek_ready content opened s \<Longrightarrow> wkek_ready content opened t"
  by (auto simp: rebooted_def wkek_ready_def key_file_def)

lemma rebooted_sealed:
  "rebooted content opened s t \<Longrightarrow> sealed C content s f d \<Longrightarrow> sealed C content t f d"
  by (simp add: rebooted_def sealed_def key_file_def)

lemma key_file_frame [simp]:
  "key_file content (s\<lparr>w_crypto := c\<rparr>) = key_file content s"
  "key_file content (s\<lparr>wallet_pool := p\<rparr>) = key_file content s"
  by (simp_all add: key_file_def fun_eq_iff)

lemma wkek_ready_frame [simp]:
  "wkek_ready content opened (s\<lparr>w_crypto := c\<rparr>) = wkek_ready content opened s"
  by (simp add: wkek_ready_def)

lemma wkek_ready_pool [simp]:
  "pool_ok p \<Longrightarrow> wkek_ready content opened s \<Longrightarrow> wkek_ready content opened (s\<lparr>wallet_pool := p\<rparr>)"
  by (simp add: wkek_ready_def)

lemma is_blobI:
  "aes_gcm_encrypt C k iv data c = (True, (ct, tag), c') \<Longrightarrow> length iv = AES_GCM_IV_LENGTH \<Longrightarrow>
   is_blob C k data (iv @ ct @ tag)"
  unfolding is_blob_def by blast

lemma w_crypto_self [simp]: "\<exists>c. s = s\<lparr>w_crypto := c\<rparr>"
  by (rule exI [of _ "w_crypto s"]) simp

locale wkek_env = littlefs_stat + aead C for C
begin

text \<open>With the key on file \<open>wkek_lazy_init\<close> changes no file, and on success the key in RAM is
  the one on file.\<close>

lemma lazy_init_ready:
  assumes r: "wkek_ready content opened s" and z: "wkek_lazy_init L C s = Some (ok, s')"
  shows "wkek_ready content opened s' \<and> fs_files content (w_fs s') = fs_files content (w_fs s) \<and>
    wallet_pool s' = wallet_pool s \<and> w_crypto s' = w_crypto s \<and>
    (ok \<longrightarrow> wkek_loaded s' \<and> key_file content s (wkek_key s'))"
proof -
  obtain k where i: "fs_idle opened (w_fs s)" and k: "key_file content s k"
    "wkek_loaded s \<longrightarrow> wkek_key s = k" and len: "length (wkek_key s) = WKEK_SIZE"
    and po: "pool_ok (wallet_pool s)"
    using r by (auto simp: wkek_ready_def)
  obtain b fs1 where e: "fs_file_exists L WKEK_PATH (w_fs s) = (b, fs1)" by fastforce
  note ec = exists_iff [OF i e]
  have b: "b" using ec k by (auto simp: key_file_def)
  let ?s1 = "s\<lparr>w_fs := fs1\<rparr>"
  have z1: "wkek_load L ?s1 = Some (ok, s')"
    using z b e by (simp add: wkek_lazy_init_def wkek_exists_def)
  have k1: "key_file content ?s1 k" using k ec by (simp add: key_file_def)
  show ?thesis
  proof (cases "wkek_loaded s")
    case True
    then have "s' = ?s1" "ok" using z1 by (auto simp: wkek_load_def)
    with True k k1 len po ec show ?thesis by (auto simp: wkek_ready_def)
  next
    case False
    then obtain bs fs2 where rd: "fs_util_read_global L WKEK_PATH WKEK_SIZE fs1 = Some (ok, bs, fs2)"
      and s': "s' = ?s1\<lparr>w_fs := fs2, wkek_key := mem_write (wkek_key s) 0 bs, wkek_loaded := ok\<rparr>"
      using z1 by (auto simp: wkek_load_def bind_eq_Some_conv)
    note rc = read_global [OF conjunct1 [OF ec] rd]
    have fl: "fs_files content fs2 = fs_files content (w_fs s)"
      using rc ec k by (auto simp: key_file_def)
    have lb: "length bs \<le> WKEK_SIZE" using rc by blast
    have kf: "key_file content s' k" using k fl s' by (simp add: key_file_def)
    have "ok \<longrightarrow> wkek_key s' = k"
    proof
      assume ok
      then obtain c where "fs_files content (w_fs s) WKEK_PATH = Some c" "WKEK_SIZE \<le> length c"
        "bs = take WKEK_SIZE c" using rc ec by auto
      then show "wkek_key s' = k" using k s' len by (auto simp: key_file_def mem_write_def)
    qed
    then show ?thesis
      using kf rc fl lb len po s' k by (auto simp: wkek_ready_def)
  qed
qed

lemma key_file_unique:
  "key_file content s k \<Longrightarrow> key_file content s k' \<Longrightarrow> k = k'"
  by (auto simp: key_file_def)

lemma key_file_cong:
  "fs_files content (w_fs s') WKEK_PATH = fs_files content (w_fs s) WKEK_PATH \<Longrightarrow>
   key_file content s' k = key_file content s k"
  by (simp add: key_file_def)

lemma ready_cong:
  assumes "wkek_ready content opened s" "fs_idle opened (w_fs s')" "pool_ok (wallet_pool s')"
    "fs_files content (w_fs s') WKEK_PATH = fs_files content (w_fs s) WKEK_PATH"
    "wkek_key s' = wkek_key s" "wkek_loaded s' = wkek_loaded s"
  shows "wkek_ready content opened s'"
  using assms by (simp add: wkek_ready_def key_file_def)

lemma encrypt_ready:
  assumes r: "wkek_ready content opened s" and e: "wkek_encrypt L C pt s = Some (res, s')"
  shows "wkek_ready content opened s' \<and> fs_files content (w_fs s') = fs_files content (w_fs s) \<and>
    wallet_pool s' = wallet_pool s \<and>
    (\<forall>iv ct tag. res = Some (iv, ct, tag) \<longrightarrow>
      (\<exists>k. key_file content s k \<and> is_blob C k pt (iv @ ct @ tag) \<and>
        length (iv @ ct @ tag) = length pt + AES_GCM_OVERHEAD))"
proof -
  obtain ok s1 where z: "wkek_lazy_init L C s = Some (ok, s1)"
    using e by (auto simp: wkek_encrypt_def bind_eq_Some_conv)
  note zc = lazy_init_ready [OF r z]
  obtain ok2 iv c2 where rn: "crypto_random C AES_GCM_IV_LENGTH (w_crypto s1) = (ok2, iv, c2)"
    by (metis surj_pair)
  obtain ok3 ct tag c3 where en: "aes_gcm_encrypt C (wkek_key s1) iv pt c2 = (ok3, (ct, tag), c3)"
    by (metis surj_pair)
  have s': "\<exists>c. s' = s1\<lparr>w_crypto := c\<rparr>"
    "res = (if ok \<and> ok2 \<and> ok3 then Some (iv, ct, tag) else None)"
    using e z rn en by (auto simp: wkek_encrypt_def split: if_splits)
  have "is_blob C (wkek_key s1) pt (iv @ ct @ tag) \<and>
      length (iv @ ct @ tag) = length pt + AES_GCM_OVERHEAD" if "ok2" "ok3"
    using that random_size [of AES_GCM_IV_LENGTH "w_crypto s1" iv c2] rn en
      encrypt_size [of "wkek_key s1" iv pt c2 ct tag c3]
    by (auto intro: is_blobI)
  then show ?thesis
    using zc s' by (auto split: if_splits)
qed

lemma decrypt_ready:
  assumes r: "wkek_ready content opened s"
    and e: "wkek_decrypt L C ct out iv tag s = Some (ok, pt, s')"
  shows "wkek_ready content opened s' \<and> fs_files content (w_fs s') = fs_files content (w_fs s) \<and>
    wallet_pool s' = wallet_pool s \<and>
    (ok \<longrightarrow> (\<exists>k c c'. key_file content s k \<and> aes_gcm_decrypt C k iv tag ct c = (True, pt, c')))"
proof -
  obtain ok1 s1 where z: "wkek_lazy_init L C s = Some (ok1, s1)"
    using e by (auto simp: wkek_decrypt_def bind_eq_Some_conv)
  note zc = lazy_init_ready [OF r z]
  obtain ok2 p2 c2 where d: "aes_gcm_decrypt C (wkek_key s1) iv tag ct (w_crypto s1) = (ok2, p2, c2)"
    by (metis surj_pair)
  have "\<exists>c. s' = s1\<lparr>w_crypto := c\<rparr>" "ok \<longrightarrow> ok1 \<and> ok2 \<and> pt = p2"
    using e z d by (auto simp: wkek_decrypt_def split: if_splits)
  moreover have "\<exists>k c c'. key_file content s k \<and> aes_gcm_decrypt C k iv tag ct c = (True, pt, c')"
    if ok
  proof (intro exI conjI)
    show "key_file content s (wkek_key s1)" using that calculation zc by simp
    show "aes_gcm_decrypt C (wkek_key s1) iv tag ct (w_crypto s1) = (True, pt, c2)"
      using that calculation d by simp
  qed
  ultimately show ?thesis using zc by auto
qed

lemma store_sealed:
  assumes r: "wkek_ready content opened s" and f: "f \<noteq> WKEK_PATH"
    and st: "wkek_encrypt_and_store L C f d s = Some (ok, s')"
  shows "wkek_ready content opened s' \<and> in_use (wallet_pool s') = in_use (wallet_pool s) \<and>
    (\<forall>q. q \<noteq> f \<longrightarrow> fs_files content (w_fs s') q = fs_files content (w_fs s) q) \<and>
    (if ok then sealed C content s' f d
     else fs_files content (w_fs s') f = fs_files content (w_fs s) f \<or>
          fs_files content (w_fs s) f = None \<and> fs_files content (w_fs s') f = Some [])"
proof -
  obtain blob pool res s1 s2 pool2 where
    al: "mempool_alloc (wallet_pool s) (length d + AES_GCM_OVERHEAD) = Some (blob, pool)"
    and en: "wkek_encrypt L C d (s\<lparr>wallet_pool := pool\<rparr>) = Some (res, s1)"
    and w: "(case res of None \<Rightarrow> Some (False, s1) | Some (iv, ct, tag) \<Rightarrow>
                do { (ok, fs) \<leftarrow> fs_util_write_global L f (iv @ ct @ tag) (w_fs s1);
                     Some (ok, s1\<lparr>w_fs := fs\<rparr>) }) = Some (ok, s2)"
    and fr: "mempool_free (wallet_pool s2) blob = Some pool2"
    and s': "s' = s2\<lparr>wallet_pool := pool2\<rparr>"
    using st by (auto simp: wkek_encrypt_and_store_def bind_eq_Some_conv)
  have po: "pool_ok (wallet_pool s)" using r by (simp add: wkek_ready_def)
  obtain i e where "pool_ok pool" by (rule alloc_result [OF po al])
  then have r1: "wkek_ready content opened (s\<lparr>wallet_pool := pool\<rparr>)"
    using r by (simp add: wkek_ready_def)
  note ec = encrypt_ready [OF r1 en]
  have p2: "wallet_pool s2 = pool" "wkek_key s2 = wkek_key s1" "wkek_loaded s2 = wkek_loaded s1"
    using w ec by (auto simp: bind_eq_Some_conv split: option.splits)
  have fr2: "pool_ok pool2 \<and> in_use pool2 = in_use (wallet_pool s)"
    by (rule alloc_free [OF po al]) (use fr p2 in simp)
  have i1: "fs_idle opened (w_fs s1)" using ec by (simp add: wkek_ready_def)
  have w2: "fs_idle opened (w_fs s2) \<and>
    (\<forall>q. q \<noteq> f \<longrightarrow> fs_files content (w_fs s2) q = fs_files content (w_fs s) q) \<and>
    (if ok then \<exists>k x. key_file content s k \<and> fs_files content (w_fs s2) f = Some x \<and>
        is_blob C k d (take (length d + AES_GCM_OVERHEAD) x)
     else fs_files content (w_fs s2) f = fs_files content (w_fs s) f \<or>
          fs_files content (w_fs s) f = None \<and> fs_files content (w_fs s2) f = Some [])"
  proof (cases res)
    case None
    then show ?thesis using w i1 ec by auto
  next
    case (Some x)
    obtain iv ct tag where x: "res = Some (iv, ct, tag)" using Some by (cases x) auto
    then obtain fs where wr: "fs_util_write_global L f (iv @ ct @ tag) (w_fs s1) = Some (ok, fs)"
      "w_fs s2 = fs" using w by (auto simp: bind_eq_Some_conv)
    let ?b = "iv @ ct @ tag"
    obtain k where k: "key_file content s k" "is_blob C k d ?b"
      and len: "length ?b = length d + AES_GCM_OVERHEAD"
      using ec x by auto
    have "take (length d + AES_GCM_OVERHEAD) (?b @ y) = ?b" for y
      unfolding len [symmetric] by simp
    then have "is_blob C k d (take (length d + AES_GCM_OVERHEAD) (?b @ y))" for y
      using k(2) by simp
    with k(1) write_global [OF i1 wr(1)] ec show ?thesis unfolding wr(2)
      by (cases ok) (simp, blast, simp)
  qed
  have "wkek_ready content opened s'"
    using w2 f p2 fr2 ec unfolding s' by (intro ready_cong [OF conjunct1 [OF ec]]) simp_all
  then show ?thesis
    using w2 f s' fr2 by (auto simp: sealed_def key_file_def)
qed

lemma blob_parts:
  assumes "is_blob C k d b"
  obtains iv ct tag c c' where "aes_gcm_encrypt C k iv d c = (True, (ct, tag), c')"
    "mem_read 0 AES_GCM_IV_LENGTH b = iv" "mem_read AES_GCM_IV_LENGTH (length d) b = ct"
    "mem_read (AES_GCM_IV_LENGTH + length d) AES_GCM_TAG_LENGTH b = tag"
proof -
  obtain iv ct tag c c' where e: "aes_gcm_encrypt C k iv d c = (True, (ct, tag), c')"
    and iv: "length iv = AES_GCM_IV_LENGTH" and b: "b = iv @ ct @ tag"
    using assms by (auto simp: is_blob_def)
  show thesis
    using that [OF e] encrypt_size [OF e] iv unfolding b by (simp add: mem_read_def)
qed

lemma read_sealed:
  assumes r: "wkek_ready content opened s" and se: "sealed C content s f d"
    and n: "length out = length d"
    and rd: "wkek_read_and_decrypt L C f out s = Some (ok, res, s')"
  shows "wkek_ready content opened s' \<and> in_use (wallet_pool s') = in_use (wallet_pool s) \<and>
    fs_files content (w_fs s') = fs_files content (w_fs s) \<and> (ok \<longrightarrow> res = d)"
proof -
  obtain k c where k: "key_file content s k" and c: "fs_files content (w_fs s) f = Some c"
    and b: "is_blob C k d (take (length d + AES_GCM_OVERHEAD) c)"
    using se by (auto simp: sealed_def)
  obtain ex fs1 where e: "fs_file_exists L f (w_fs s) = (ex, fs1)" by fastforce
  have i: "fs_idle opened (w_fs s)" and po: "pool_ok (wallet_pool s)"
    using r by (simp_all add: wkek_ready_def)
  note ec = exists_iff [OF i e]
  have ex: ex using ec c by simp
  obtain blob pool ok1 bs fs2 s2 pool2 where
    al: "mempool_alloc (wallet_pool s) (length d + AES_GCM_OVERHEAD) = Some (blob, pool)"
    and re: "fs_util_read_global L f (length d + AES_GCM_OVERHEAD) fs1 = Some (ok1, bs, fs2)"
    and de: "(if \<not> ok1 then Some (False, out, s\<lparr>wallet_pool := pool, w_fs := fs2\<rparr>)
      else wkek_decrypt L C (mem_read AES_GCM_IV_LENGTH (length d) bs) out
             (mem_read 0 AES_GCM_IV_LENGTH bs)
             (mem_read (AES_GCM_IV_LENGTH + length d) AES_GCM_TAG_LENGTH bs)
             (s\<lparr>wallet_pool := pool, w_fs := fs2\<rparr>)) = Some (ok, res, s2)"
    and fr: "mempool_free (wallet_pool s2) blob = Some pool2"
    and s': "s' = s2\<lparr>wallet_pool := pool2\<rparr>"
    using rd ex e n by (auto simp: wkek_read_and_decrypt_def bind_eq_Some_conv Let_def)
  let ?s1 = "s\<lparr>wallet_pool := pool, w_fs := fs2\<rparr>"
  note rc = read_global [OF conjunct1 [OF ec] re]
  have fl: "fs_files content fs2 = fs_files content (w_fs s)" using rc ec c by simp
  have "pool_ok pool" by (rule alloc_result [OF po al])
  then have r1: "wkek_ready content opened ?s1"
    using rc fl by (intro ready_cong [OF r]) simp_all
  have d1: "wkek_ready content opened s2 \<and> wallet_pool s2 = pool \<and>
      fs_files content (w_fs s2) = fs_files content (w_fs s) \<and> (ok \<longrightarrow> res = d)"
  proof (cases ok1)
    case False
    then show ?thesis using de r1 fl by auto
  next
    case True
    have bs: "bs = take (length d + AES_GCM_OVERHEAD) c" using rc True ec c by auto
    obtain iv ct tag c1 c2 where en: "aes_gcm_encrypt C k iv d c1 = (True, (ct, tag), c2)"
      and pt: "mem_read 0 AES_GCM_IV_LENGTH bs = iv" "mem_read AES_GCM_IV_LENGTH (length d) bs = ct"
        "mem_read (AES_GCM_IV_LENGTH + length d) AES_GCM_TAG_LENGTH bs = tag"
      using b bs by (auto elim: blob_parts)
    have "wkek_decrypt L C ct out iv tag ?s1 = Some (ok, res, s2)" using de True pt by simp
    note dc = decrypt_ready [OF r1 this]
    have "key_file content ?s1 k" using k fl by (simp add: key_file_def)
    then have "ok \<longrightarrow> res = d"
      using dc decrypt_encrypt [OF en] key_file_unique by blast
    then show ?thesis using dc fl by simp
  qed
  have "pool_ok pool2 \<and> in_use pool2 = in_use (wallet_pool s)"
    by (rule alloc_free [OF po al]) (use fr d1 in simp)
  then show ?thesis
    using d1 unfolding s' by simp
qed

text \<open>First use: with no key on file a successful \<open>wkek_lazy_init\<close> leaves the fresh key both
  on file and in RAM.\<close>

lemma lazy_init_first:
  assumes i: "fs_idle opened (w_fs s)" "pool_ok (wallet_pool s)" "length (wkek_key s) = WKEK_SIZE"
    and n: "fs_files content (w_fs s) WKEK_PATH = None"
    and z: "wkek_lazy_init L C s = Some (True, s')"
  shows "wkek_ready content opened s' \<and> wkek_loaded s' \<and> wallet_pool s' = wallet_pool s \<and>
    (\<forall>q. q \<noteq> WKEK_PATH \<longrightarrow> fs_files content (w_fs s') q = fs_files content (w_fs s) q)"
proof -
  obtain b fs1 where e: "fs_file_exists L WKEK_PATH (w_fs s) = (b, fs1)" by fastforce
  note ec = exists_iff [OF i(1) e]
  have b: "\<not> b" using ec n by simp
  obtain ok k c where g: "generate_key C (w_crypto s) = (ok, k, c)" by (metis surj_pair)
  let ?s1 = "s\<lparr>w_fs := fs1, w_crypto := c, wkek_key := k\<rparr>"
  obtain fs2 where ok: ok and w: "fs_util_write_global L WKEK_PATH k fs1 = Some (True, fs2)"
    and l: "wkek_load L (?s1\<lparr>w_fs := fs2\<rparr>) = Some (True, s')"
    using z b e g
    by (auto simp: wkek_lazy_init_def wkek_exists_def wkek_generate_and_store_def bind_eq_Some_conv
        Let_def split: if_splits)
  have len: "length k = WKEK_SIZE" using key_size g ok by simp
  note wc = write_global [OF conjunct1 [OF ec] w]
  have k2: "fs_files content fs2 WKEK_PATH = Some k" using wc ec n by simp
  have ready: "wkek_ready content opened (?s1\<lparr>w_fs := fs2\<rparr>)"
    using wc k2 len i(2) by (simp add: wkek_ready_def key_file_def)
  show ?thesis
  proof (cases "wkek_loaded s")
    case True
    then have "s' = ?s1\<lparr>w_fs := fs2\<rparr>" using l by (simp add: wkek_load_def)
    with True ready wc ec show ?thesis by simp
  next
    case False
    then obtain bs fs3 where rd: "fs_util_read_global L WKEK_PATH WKEK_SIZE fs2 = Some (True, bs, fs3)"
      and s': "s' = ?s1\<lparr>w_fs := fs3, wkek_key := mem_write k 0 bs, wkek_loaded := True\<rparr>"
      using l by (auto simp: wkek_load_def bind_eq_Some_conv)
    note rc = read_global [OF conjunct1 [OF wc] rd]
    have "bs = k" using rc k2 len by simp
    then have "wkek_key s' = k" using s' by (simp add: mem_write_def)
    then show ?thesis
      using s' rc k2 len i(2) wc ec by (auto simp: wkek_ready_def key_file_def)
  qed
qed

end

section \<open>An instance\<close>

text \<open>An engine that numbers its keys and vectors and masks with the first key byte.\<close>

definition ram_crypto :: "nat crypto_ops" where
  "ram_crypto = \<lparr>
     generate_key = (\<lambda>c. (True, replicate WKEK_SIZE (word_of_nat c), Suc c)),
     crypto_random = (\<lambda>n c. (True, replicate n (word_of_nat c), Suc c)),
     aes_gcm_encrypt = (\<lambda>k iv pt c. (True, (map (\<lambda>b. b XOR hd k) pt, replicate AES_GCM_TAG_LENGTH (hd k)), c)),
     aes_gcm_decrypt = (\<lambda>k iv tag ct c.
       (tag = replicate AES_GCM_TAG_LENGTH (hd k), map (\<lambda>b. b XOR hd k) ct, c))\<rparr>"

interpretation ramw: wkek_env ram_lfs ram_files ram_open ram_crypto
  by unfold_locales
    (auto simp: ram_crypto_def ram_stat_def comp_def xor.assoc split: option.splits)

definition wallet_example :: "(string \<Rightarrow> bytes option) \<Rightarrow> bool \<Rightarrow> (ram_t, nat) wallet_state" where
  "wallet_example files loaded = \<lparr>w_fs = ram_fs files, w_crypto = 7,
     wallet_pool = \<lparr>regions = [\<lparr>entry_size = 70, rg_count = 1, total_size = 70, rg_base = 100,
       rg_mem = replicate 70 0, freelist = [True]\<rparr>]\<rparr>,
     wkek_key = replicate WKEK_SIZE 0, wkek_loaded = loaded\<rparr>"

lemma wallet_example_ready:
  "wkek_ready ram_files ram_open (wallet_example [WKEK_PATH \<mapsto> replicate WKEK_SIZE 5] False)"
  by (simp add: wkek_ready_def wallet_example_def ram_fs_idle key_file_def pool_ok_def region_ok_def)

lemmas wkek_exec_defs = wkek_encrypt_and_store_def wkek_read_and_decrypt_def wkek_encrypt_def
  wkek_decrypt_def wkek_lazy_init_def wkek_exists_def wkek_load_def wkek_generate_and_store_def
  mempool_alloc_def mempool_free_def mempool_region_for_size_def mempool_region_for_buf_def
  get_first_free_buffer_def mempool_region_contains_buf_def mempool_region_start_addr_def
  mempool_region_end_addr_def ram_crypto_def mem_read_def mem_write_def

section \<open>Properties\<close>

text \<open>C14: Data stored sealed under the wallet key can only be read back as stored: if storing
  reports success, a later successful read, in the same session or after a reboot, returns exactly
  the data.  The file remains sealed, and both calls return every pool block they took.  The
  existence test of files is taken to work, since a key file that is not found is replaced.\<close>

theorem wkek_store_roundtrip:
  assumes "wkek_env L content opened C" "wkek_ready content opened s" "f \<noteq> WKEK_PATH"
    and "wkek_encrypt_and_store L C f d s = Some (True, s1)"
    and "t = s1 \<or> rebooted content opened s1 t"
    and "length out = length d" "wkek_read_and_decrypt L C f out t = Some (ok, res, s2)"
  shows "(ok \<longrightarrow> res = d) \<and> sealed C content s2 f d \<and> wkek_ready content opened s2 \<and>
    in_use (wallet_pool s1) = in_use (wallet_pool s) \<and> in_use (wallet_pool s2) = in_use (wallet_pool t)"
proof -
  note st = wkek_env.store_sealed [OF assms(1-4)]
  then have se: "wkek_ready content opened s1" "sealed C content s1 f d" by simp_all
  then have t: "wkek_ready content opened t" "sealed C content t f d"
    using assms(5) by (auto simp: rebooted_ready rebooted_sealed)
  note rd = wkek_env.read_sealed [OF assms(1) t assms(6,7)]
  then have "sealed C content s2 f d" using t(2) by (simp add: sealed_def key_file_def)
  with rd st show ?thesis by simp
qed

theorem wkek_store_roundtrip_witness:
  "\<exists>s1 s2. wkek_encrypt_and_store ram_lfs ram_crypto ''f'' [1, 2, 3]
       (wallet_example [WKEK_PATH \<mapsto> replicate WKEK_SIZE 5] False) = Some (True, s1) \<and>
     wkek_loaded s1 \<and> wkek_read_and_decrypt ram_lfs ram_crypto ''f'' [0, 0, 0]
       (s1\<lparr>wkek_loaded := False, wkek_key := replicate WKEK_SIZE 0\<rparr>) = Some (True, [1, 2, 3], s2) \<and>
     sealed ram_crypto ram_files s2 ''f'' [1, 2, 3]"
proof -
  let ?s = "wallet_example [WKEK_PATH \<mapsto> replicate WKEK_SIZE 5] False"
  let ?boot = "\<lambda>s. s\<lparr>wkek_loaded := False, wkek_key := replicate WKEK_SIZE 0\<rparr>"
  obtain s1 where st: "wkek_encrypt_and_store ram_lfs ram_crypto ''f'' [1, 2, 3] ?s = Some (True, s1)" "wkek_loaded s1"
    and "\<exists>res s2. wkek_read_and_decrypt ram_lfs ram_crypto ''f'' [0, 0, 0] (?boot s1) = Some (True, res, s2)"
    by (simp add: wkek_exec_defs wallet_example_def fs_exec_defs ram_defs ram_fs_def WKEK_PATH_def)
  then obtain res s2 where
    rd: "wkek_read_and_decrypt ram_lfs ram_crypto ''f'' [0, 0, 0] (?boot s1) = Some (True, res, s2)" by blast
  have "wkek_ready ram_files ram_open s1"
    using ramw.store_sealed [OF wallet_example_ready _ st(1)] by (simp add: WKEK_PATH_def)
  then have "s1 = ?boot s1 \<or> rebooted ram_files ram_open s1 (?boot s1)"
    by (simp add: rebooted_def wkek_ready_def)
  then have "?boot s1 = s1 \<or> rebooted ram_files ram_open s1 (?boot s1)" by metis
  from wkek_store_roundtrip [OF ramw.wkek_env_axioms wallet_example_ready _ st(1) this _ rd] st rd
  show ?thesis by (auto simp: WKEK_PATH_def)
qed

text \<open>C36: The existence test decides alone whether the wallet key is created: whenever
  \<open>fs_file_exists\<close> reports false -- also because of a transient error on an existing file -- a
  successful \<open>wkek_lazy_init\<close> has overwritten the key on file with a fresh one.\<close>

theorem wkek_replaced_when_not_found:
  assumes "littlefs L content opened" "aead C" "fs_idle opened (w_fs s)" "\<not> wkek_loaded s"
    and "fs_file_exists L WKEK_PATH (w_fs s) = (False, fs1)"
    and "wkek_lazy_init L C s = Some (True, s')"
  shows "\<exists>k c. generate_key C (w_crypto s) = (True, k, c) \<and> key_file content s' k"
proof -
  obtain ok k c where g: "generate_key C (w_crypto s) = (ok, k, c)" by (metis surj_pair)
  obtain fs2 bs fs3 where ok: ok and w: "fs_util_write_global L WKEK_PATH k fs1 = Some (True, fs2)"
    and rd: "fs_util_read_global L WKEK_PATH WKEK_SIZE fs2 = Some (True, bs, fs3)" "w_fs s' = fs3"
    using assms(4-6) g
    by (auto simp: wkek_lazy_init_def wkek_exists_def wkek_generate_and_store_def wkek_load_def
        bind_eq_Some_conv Let_def split: if_splits)
  have len: "length k = WKEK_SIZE" using aead.key_size [OF assms(2)] g ok by simp
  have i: "fs_idle opened fs1" using littlefs.exists_idle [OF assms(1,3,5)] by simp
  note wc = littlefs.write_global [OF assms(1) i w]
  note rc = littlefs.read_global [OF assms(1) conjunct1 [OF wc] rd(1)]
  have "key_file content s' k" using wc rc rd(2) len by (auto simp: key_file_def)
  with g ok show ?thesis by simp
qed

text \<open>A file system whose \<open>lfs_stat\<close> fails once the medium reports an error.\<close>

definition flaky_lfs :: "ram_t lfs_ops" where
  "flaky_lfs = ram_lfs\<lparr>lfs_stat := (\<lambda>m p. (-5, \<lparr>info_type = LFS_TYPE_REG, info_size = 0, info_name = p\<rparr>, m))\<rparr>"

interpretation flaky: littlefs flaky_lfs ram_files ram_open
  by unfold_locales
    (auto simp: flaky_lfs_def ram_lfs_def ram_opencfg_def ram_read_def ram_close_def ram_upd_def
      Let_def fun_upd_idem split: option.splits if_splits)

theorem wkek_replaced_when_not_found_witness:
  "\<exists>s'. wkek_lazy_init flaky_lfs ram_crypto (wallet_example [WKEK_PATH \<mapsto> replicate WKEK_SIZE 5] False)
         = Some (True, s') \<and> key_file ram_files s' (replicate WKEK_SIZE 7)"
proof -
  let ?s = "wallet_example [WKEK_PATH \<mapsto> replicate WKEK_SIZE 5] False"
  obtain fs1 where e: "fs_file_exists flaky_lfs WKEK_PATH (w_fs ?s) = (False, fs1)"
    by (simp add: wallet_example_def fs_exec_defs ram_fs_def flaky_lfs_def)
  obtain s' where z: "wkek_lazy_init flaky_lfs ram_crypto ?s = Some (True, s')"
    by (simp add: wkek_exec_defs wallet_example_def fs_exec_defs ram_defs ram_fs_def flaky_lfs_def)
  have i: "fs_idle ram_open (w_fs ?s)" "\<not> wkek_loaded ?s"
    by (simp_all add: wallet_example_def ram_fs_idle)
  from wkek_replaced_when_not_found [OF flaky.littlefs_axioms ramw.aead_axioms i e z] z
  show ?thesis by (auto simp: ram_crypto_def wallet_example_def)
qed

text \<open>C37: A key file that was created but never filled is never repaired: as long as the file is
  shorter than a key, the key is not in RAM and the existence test works (\<open>lfs_stat\<close> finds every
  file there is), \<open>wkek_lazy_init\<close> fails and leaves every file as it is.\<close>

theorem wkek_short_file_stuck:
  assumes "littlefs_stat L content opened" "fs_idle opened (w_fs s)" "\<not> wkek_loaded s"
    and "fs_files content (w_fs s) WKEK_PATH = Some c" "length c < WKEK_SIZE"
  shows "\<exists>s'. wkek_lazy_init L C s = Some (False, s') \<and> \<not> wkek_loaded s' \<and>
    fs_idle opened (w_fs s') \<and> fs_files content (w_fs s') = fs_files content (w_fs s)"
proof -
  have L: "littlefs L content opened" using assms(1) by (simp add: littlefs_stat_def)
  obtain b fs1 where e: "fs_file_exists L WKEK_PATH (w_fs s) = (b, fs1)" by fastforce
  note ec = littlefs_stat.exists_iff [OF assms(1,2) e]
  obtain ok bs fs2 where rd: "fs_util_read_global L WKEK_PATH WKEK_SIZE fs1 = Some (ok, bs, fs2)"
    by (rule fs_util_read_global_Some [of WKEK_SIZE L WKEK_PATH fs1]) simp_all
  note rc = littlefs.read_global [OF L conjunct1 [OF ec] rd]
  have "\<not> ok" using rc ec assms(4,5) by auto
  then show ?thesis
    using rc rd e ec assms(3,4) by (auto simp: wkek_lazy_init_def wkek_exists_def wkek_load_def)
qed

theorem wkek_short_file_stuck_witness:
  "\<exists>s'. wkek_lazy_init ram_lfs ram_crypto (wallet_example [WKEK_PATH \<mapsto> []] False) = Some (False, s') \<and>
     fs_files ram_files (w_fs s') = [WKEK_PATH \<mapsto> []]"
proof -
  let ?s = "wallet_example [WKEK_PATH \<mapsto> []] False"
  have "fs_idle ram_open (w_fs ?s)" "\<not> wkek_loaded ?s"
    "fs_files ram_files (w_fs ?s) = [WKEK_PATH \<mapsto> []]"
    by (simp_all add: wallet_example_def ram_fs_idle)
  with wkek_short_file_stuck [OF ramw.littlefs_stat_axioms, of ?s "[]" ram_crypto] show ?thesis by auto
qed

text \<open>The first removals of a wipe and the result \<open>fs_remove\<close> gave for each file.\<close>

fun removals ::
  "'m lfs_ops \<Rightarrow> string list \<Rightarrow> ('m, 'c) wallet_state \<Rightarrow> (string \<times> int) list \<times> ('m, 'c) wallet_state" where
  "removals L [] s = ([], s)"
| "removals L (p # ps) s =
     (case wallet_fs_remove L p s of (r, s1) \<Rightarrow>
        case removals L ps s1 of (rs, s2) \<Rightarrow> ((p, r) # rs, s2))"

lemma removals_paths: "map fst (fst (removals L ps s)) = ps"
  by (induction ps arbitrary: s) (simp_all add: case_prod_beta)

lemma removals_fold: "snd (removals L ps s) = fold (\<lambda>p s. snd (wallet_fs_remove L p s)) ps s"
  by (induction ps arbitrary: s) (simp_all add: case_prod_beta)

lemma removals_files:
  assumes "littlefs L content opened" "fs_idle opened (w_fs s)" "removals L ps s = (log, s')"
  shows "fs_idle opened (w_fs s') \<and> fs_files content (w_fs s') =
      (\<lambda>p. if (p, 0) \<in> set log then None else fs_files content (w_fs s) p)"
  using assms(2,3)
proof (induction ps arbitrary: s log)
  case (Cons p ps)
  obtain r fs1 where r: "fs_remove L p (w_fs s) = (r, fs1)" by fastforce
  obtain log1 where g: "removals L ps (s\<lparr>w_fs := fs1\<rparr>) = (log1, s')" "log = (p, r) # log1"
    using Cons.prems(2) r by (auto simp: wallet_fs_remove_def split: prod.splits)
  note rc = littlefs.remove_idle [OF assms(1) Cons.prems(1) r]
  show ?case using Cons.IH [OF _ g(1)] rc g(2) by (auto simp: fun_eq_iff)
qed simp

lemma wipe_order:
  "SEED_PATH \<in> set (take n wallet_files) \<Longrightarrow>
     ''derived-keys.bin'' \<in> set (take n wallet_files) \<and> ''wallet-keyset.bin'' \<in> set (take n wallet_files)"
  "WKEK_PATH \<in> set (take n wallet_files) \<Longrightarrow> set wallet_files \<subseteq> set (take n wallet_files)"
proof -
  let ?P = "set (take n wallet_files)"
  have d: "distinct wallet_files" by (simp add: wallet_files_def SEED_PATH_def WKEK_PATH_def)
  have a: "SEED_PATH \<in> ?P \<Longrightarrow> wallet_files ! j \<in> ?P" if "j \<le> 3" for j
    using in_take_before [OF d, of 3 n j] that by (simp add: wallet_files_def)
  have b: "WKEK_PATH \<in> ?P \<Longrightarrow> wallet_files ! j \<in> ?P" if "j \<le> 13" for j
    using in_take_before [OF d, of 13 n j] that by (simp add: wallet_files_def)
  show "SEED_PATH \<in> ?P \<Longrightarrow> ''derived-keys.bin'' \<in> ?P \<and> ''wallet-keyset.bin'' \<in> ?P"
    using a [of 0] a [of 1] by (simp add: wallet_files_def)
  have len: "length wallet_files = 14" by (simp add: wallet_files_def)
  show "WKEK_PATH \<in> ?P \<Longrightarrow> set wallet_files \<subseteq> ?P" using b by (auto simp: in_set_conv_nth len)
qed

text \<open>What a removal that was made has left: nothing, or the file as it was and an error that the
  wipe ignores.\<close>

definition gone_or_failed ::
  "('m \<Rightarrow> string \<Rightarrow> bytes option) \<Rightarrow> (string \<times> int) list \<Rightarrow> ('m, 'c) wallet_state \<Rightarrow>
   ('m, 'c) wallet_state \<Rightarrow> string \<Rightarrow> bool" where
  "gone_or_failed content log s s' p =
     (fs_files content (w_fs s') p = None \<or>
      (\<exists>r. r \<noteq> 0 \<and> (p, r) \<in> set log) \<and> fs_files content (w_fs s') p = fs_files content (w_fs s) p)"

text \<open>C9: A wipe interrupted after any number of its removals: exactly the files whose removal
  reported success are gone and every other file is as before.  Once the seed is gone, the cached
  keys have been removed before it, and once the wallet key is gone every file encrypted under it
  has been; such a file is still there only if its own removal reported an error, which the code
  ignores.  With all removals made the state is that of \<open>wallet_remove_files\<close>.\<close>

theorem wallet_wipe_interrupted:
  assumes "littlefs L content opened" "fs_idle opened (w_fs s)"
    and "removals L (take n wallet_files) s = (log, s')"
  shows "fs_idle opened (w_fs s') \<and> map fst log = take n wallet_files \<and>
    fs_files content (w_fs s') =
      (\<lambda>p. if (p, 0) \<in> set log then None else fs_files content (w_fs s) p) \<and>
    ((SEED_PATH, 0) \<in> set log \<longrightarrow>
       gone_or_failed content log s s' ''derived-keys.bin'' \<and>
       gone_or_failed content log s s' ''wallet-keyset.bin'') \<and>
    ((WKEK_PATH, 0) \<in> set log \<longrightarrow> (\<forall>p\<in>set wallet_files. gone_or_failed content log s s' p)) \<and>
    (length wallet_files \<le> n \<longrightarrow> s' = wallet_remove_files L s)"
proof -
  note f = removals_files [OF assms]
  have paths: "map fst log = take n wallet_files"
    using removals_paths [of L "take n wallet_files" s] assms(3) by simp
  have att: "gone_or_failed content log s s' p" if p: "p \<in> set (take n wallet_files)" for p
  proof -
    obtain r where "(p, r) \<in> set log" using p unfolding paths [symmetric] by auto
    then show ?thesis using f by (cases "r = 0") (auto simp: gone_or_failed_def)
  qed
  have "(p, 0) \<in> set log \<Longrightarrow> p \<in> set (take n wallet_files)" for p
    unfolding paths [symmetric] by force
  moreover have "length wallet_files \<le> n \<Longrightarrow> s' = wallet_remove_files L s"
    using removals_fold [of L wallet_files s] assms(3) by (simp add: wallet_remove_files_def)
  ultimately show ?thesis using f paths att wipe_order [of n] by blast
qed

theorem wallet_wipe_interrupted_witness:
  "\<exists>log s'. removals ram_lfs (take 4 wallet_files)
      (wallet_example [WKEK_PATH \<mapsto> [1], SEED_PATH \<mapsto> [2], ''derived-keys.bin'' \<mapsto> [3]] False) = (log, s') \<and>
     fs_files ram_files (w_fs s') ''derived-keys.bin'' = None \<and>
     fs_files ram_files (w_fs s') WKEK_PATH = Some [1]"
proof -
  let ?s = "wallet_example [WKEK_PATH \<mapsto> [1], SEED_PATH \<mapsto> [2], ''derived-keys.bin'' \<mapsto> [3]] False"
  have i: "fs_idle ram_open (w_fs ?s)" by (simp add: wallet_example_def ram_fs_idle)
  have t: "take 4 wallet_files =
      [''derived-keys.bin'', ''wallet-keyset.bin'', ''btc-network-type.bin'', SEED_PATH]"
    by (simp add: wallet_files_def)
  obtain log s' where g: "removals ram_lfs (take 4 wallet_files) ?s = (log, s')" by fastforce
  have d: "(''derived-keys.bin'', 0) \<in> set log"
    using g by (auto simp: t wallet_fs_remove_def wallet_example_def fs_exec_defs ram_defs ram_fs_def split: prod.splits)
  from wallet_wipe_interrupted [OF ram.littlefs_axioms i g]
  have f: "map fst log = take 4 wallet_files" "fs_files ram_files (w_fs s') =
      (\<lambda>p. if (p, 0) \<in> set log then None else fs_files ram_files (w_fs ?s) p)" by blast+
  have "WKEK_PATH \<notin> fst ` set log"
    unfolding set_map [symmetric] f(1) t by (simp add: SEED_PATH_def WKEK_PATH_def)
  then have "(WKEK_PATH, 0) \<notin> set log" by force
  with d f(2) g show ?thesis by (simp add: wallet_example_def SEED_PATH_def WKEK_PATH_def)
qed

end
