(* ===== verification/Unlock.thy ===== *)
theory Unlock
  imports Wkek Indexfs Auth
begin

text \<open>
  Unlocking with a secret: \<open>lib/unlock/src/unlock.c\<close> and \<open>unlock_storage.c\<close>.  The retry counter
  and the delay flag are in the flash log of \<open>Indexfs\<close>, the secret is a sealed file of
  \<open>Wkek\<close>, and a successful attempt authenticates through \<open>Auth\<close>.  An enumeration takes one byte,
  as the calls that pass \<open>unlock_delay_status_t *\<close> for \<open>uint8_t *\<close> require.  \<open>flip\<close> is the set of
  faults injected into the \<open>SECURE_DO_FAILOUT\<close> around the comparison.  The wait for the file
  system in \<open>unlock_storage_init\<close> is left out.  \<open>None\<close> is a failed assertion.
\<close>

record ('m, 'c, 'k) platform =
  p_lfs :: "'m lfs_ops"
  p_crypto :: "'c crypto_ops"
  p_flash :: flash_ops
  p_layout :: fw_layout
  p_rtos :: "'k rtos_ops"

datatype unlock_err_t =
  UNLOCK_OK | UNLOCK_WRONG_SECRET | UNLOCK_STORAGE_ERR | UNLOCK_NO_SECRET_PROVISIONED |
  UNLOCK_WAITING_ON_DELAY | UNLOCK_LIMIT_RESPONSE_TAKEN | UNLOCK_NOT_INITIALIZED

abbreviation RESPONSE_DELAY :: u8 where "RESPONSE_DELAY \<equiv> 0"
abbreviation RESPONSE_WIPE_STATE :: u8 where "RESPONSE_WIPE_STATE \<equiv> 1"
abbreviation DEFAULT_LIMIT_RESPONSE :: u8 where "DEFAULT_LIMIT_RESPONSE \<equiv> RESPONSE_WIPE_STATE"
abbreviation DELAY_COMPLETE :: u32 where "DELAY_COMPLETE \<equiv> 0"
abbreviation DELAY_INCOMPLETE :: u32 where "DELAY_INCOMPLETE \<equiv> 0xF"
abbreviation ATTEMPT_LIMIT :: nat where "ATTEMPT_LIMIT \<equiv> 10"
abbreviation UNLOCK_SECRET_SIZE :: nat where "UNLOCK_SECRET_SIZE \<equiv> 32"

definition UNLOCK_SECRET_PATH :: string where
  "UNLOCK_SECRET_PATH = ''unlock-secret.bin''"

definition LIMIT_RESPONSE_PATH :: string where
  "LIMIT_RESPONSE_PATH = ''limit-response.bin''"

text \<open>\<open>unlock_ctx\<close> and \<open>unlock_retry_counter_fs\<close>, the libraries below, the number of wipe messages
  sent to the key manager and of reported glitches.\<close>

record ('m, 'c, 'k) unlock_sys =
  u_wallet :: "('m, 'c) wallet_state"
  u_flash :: flash_mem
  u_auth :: "'k auth_sys"
  u_counter_fs :: indexfs_t
  limit_response :: u8
  delay_timer :: rtos_timer_t
  unlock_initialized :: bool
  u_wipes :: nat
  u_glitches :: nat

section \<open>Storage\<close>

definition write_to_filesystem ::
  "'m lfs_ops \<Rightarrow> string \<Rightarrow> bytes \<Rightarrow> 'm fs_state \<Rightarrow> (unlock_err_t \<times> 'm fs_state) option" where
  "write_to_filesystem L path data s =
     (if data = [] then None
      else Some (case fs_open_global L path (FS_O_CREAT OR FS_O_RDWR) s of (ret, s) \<Rightarrow>
        if ret \<noteq> 0 then (UNLOCK_STORAGE_ERR, s)
        else case fs_file_write L g_file data s of (ret, s) \<Rightarrow>
          case fs_close_global L s of (_, s) \<Rightarrow>
            (if ret \<noteq> int (length data) then UNLOCK_STORAGE_ERR else UNLOCK_OK, s)))"

definition read_from_filesystem ::
  "'m lfs_ops \<Rightarrow> string \<Rightarrow> bytes \<Rightarrow> 'm fs_state \<Rightarrow> (unlock_err_t \<times> bytes \<times> 'm fs_state) option" where
  "read_from_filesystem L path data s =
     (if data = [] then None
      else Some (case fs_open_global L path FS_O_RDONLY s of (ret, s) \<Rightarrow>
        if ret \<noteq> 0 then (UNLOCK_STORAGE_ERR, data, s)
        else case fs_file_read L g_file (length data) s of (ret, bs, s) \<Rightarrow>
          case fs_close_global L s of (_, s) \<Rightarrow>
            (if ret \<noteq> int (length data) then UNLOCK_STORAGE_ERR else UNLOCK_OK,
             mem_write data 0 bs, s)))"

abbreviation u_fs :: "('m, 'c, 'k) unlock_sys \<Rightarrow> 'm fs_state" where
  "u_fs s \<equiv> w_fs (u_wallet s)"

definition set_fs :: "'m fs_state \<Rightarrow> ('m, 'c, 'k) unlock_sys \<Rightarrow> ('m, 'c, 'k) unlock_sys" where
  "set_fs fs s = s\<lparr>u_wallet := (u_wallet s)\<lparr>w_fs := fs\<rparr>\<rparr>"

lemma set_fs_simps [simp]:
  "u_wallet (set_fs fs s) = (u_wallet s)\<lparr>w_fs := fs\<rparr>" "u_flash (set_fs fs s) = u_flash s"
  "u_auth (set_fs fs s) = u_auth s" "u_counter_fs (set_fs fs s) = u_counter_fs s"
  "limit_response (set_fs fs s) = limit_response s" "delay_timer (set_fs fs s) = delay_timer s"
  "unlock_initialized (set_fs fs s) = unlock_initialized s" "u_wipes (set_fs fs s) = u_wipes s"
  by (simp_all add: set_fs_def)

text \<open>The macro \<open>indexfs_create\<close> returns the address of its static object whatever
  \<open>indexfs_create_static\<close> returned, so the check for \<open>NULL\<close> never fires.\<close>

definition unlock_storage_init ::
  "('m, 'c, 'k) platform \<Rightarrow> ('m, 'c, 'k) unlock_sys \<Rightarrow> (unlock_err_t \<times> ('m, 'c, 'k) unlock_sys) option" where
  "unlock_storage_init P s =
     do { a \<leftarrow> fwup_target_slot_address (p_layout P);
          let fs = \<lparr>ix_type = INDEXFS_TYPE_MONOTONIC, ix_address = a,
                    ix_size = unat (MCU_FLASH_PAGE_SIZE (p_flash P))\<rparr>;
          (_, m) \<leftarrow> indexfs_create_static (p_flash P) (p_layout P) fs (u_flash s);
          Some (UNLOCK_OK, s\<lparr>u_counter_fs := fs, u_flash := m\<rparr>) }"

definition retry_counter_read :: "('m, 'c, 'k) unlock_sys \<Rightarrow> unlock_err_t \<times> u32" where
  "retry_counter_read s = (UNLOCK_OK, indexfs_count (u_counter_fs s) (u_flash s))"

definition retry_counter_write ::
  "('m, 'c, 'k) platform \<Rightarrow> u32 \<Rightarrow> ('m, 'c, 'k) unlock_sys \<Rightarrow> unlock_err_t \<times> ('m, 'c, 'k) unlock_sys" where
  "retry_counter_write P new_value s =
     (case (if new_value = 0 then indexfs_clear (p_flash P) (u_counter_fs s) (u_flash s)
            else indexfs_increment (p_flash P) (u_counter_fs s) (u_flash s)) of (ok, m) \<Rightarrow>
        (if \<not> ok \<or> indexfs_count (u_counter_fs s) m \<noteq> new_value
         then UNLOCK_STORAGE_ERR else UNLOCK_OK, s\<lparr>u_flash := m\<rparr>))"

definition retry_counter_read_delay_period_status :: "('m, 'c, 'k) unlock_sys \<Rightarrow> u32 option" where
  "retry_counter_read_delay_period_status s = indexfs_get_flag (u_counter_fs s) (u_flash s)"

definition retry_counter_write_delay_period_status ::
  "('m, 'c, 'k) platform \<Rightarrow> u32 \<Rightarrow> ('m, 'c, 'k) unlock_sys \<Rightarrow> unlock_err_t \<times> ('m, 'c, 'k) unlock_sys" where
  "retry_counter_write_delay_period_status P status s =
     (case indexfs_set_flag (p_flash P) (u_counter_fs s) status (u_flash s) of (ok, m) \<Rightarrow>
        (if ok then UNLOCK_OK else UNLOCK_STORAGE_ERR, s\<lparr>u_flash := m\<rparr>))"

definition unlock_secret_read ::
  "('m, 'c, 'k) platform \<Rightarrow> bytes \<Rightarrow> ('m, 'c, 'k) unlock_sys \<Rightarrow>
   (unlock_err_t \<times> bytes \<times> ('m, 'c, 'k) unlock_sys) option" where
  "unlock_secret_read P secret s =
     do { (ok, bs, w) \<leftarrow> wkek_read_and_decrypt (p_lfs P) (p_crypto P) UNLOCK_SECRET_PATH secret (u_wallet s);
          Some (if ok then UNLOCK_OK else UNLOCK_STORAGE_ERR, bs, s\<lparr>u_wallet := w\<rparr>) }"

definition unlock_secret_write ::
  "('m, 'c, 'k) platform \<Rightarrow> bytes \<Rightarrow> ('m, 'c, 'k) unlock_sys \<Rightarrow>
   (unlock_err_t \<times> ('m, 'c, 'k) unlock_sys) option" where
  "unlock_secret_write P secret s =
     do { (ok, w) \<leftarrow> wkek_encrypt_and_store (p_lfs P) (p_crypto P) UNLOCK_SECRET_PATH secret (u_wallet s);
          Some (if ok then UNLOCK_OK else UNLOCK_STORAGE_ERR, s\<lparr>u_wallet := w\<rparr>) }"

definition unlock_secret_exists ::
  "('m, 'c, 'k) platform \<Rightarrow> ('m, 'c, 'k) unlock_sys \<Rightarrow> bool \<times> ('m, 'c, 'k) unlock_sys" where
  "unlock_secret_exists P s =
     (case fs_file_exists (p_lfs P) UNLOCK_SECRET_PATH (u_fs s) of (b, fs) \<Rightarrow> (b, set_fs fs s))"

definition limit_response_read ::
  "('m, 'c, 'k) platform \<Rightarrow> ('m, 'c, 'k) unlock_sys \<Rightarrow>
   (unlock_err_t \<times> u8 \<times> ('m, 'c, 'k) unlock_sys) option" where
  "limit_response_read P s =
     do { (result, bs, fs) \<leftarrow> read_from_filesystem (p_lfs P) LIMIT_RESPONSE_PATH [0] (u_fs s);
          if result \<noteq> UNLOCK_OK
          then do { (_, fs) \<leftarrow> write_to_filesystem (p_lfs P) LIMIT_RESPONSE_PATH [DEFAULT_LIMIT_RESPONSE] fs;
                    Some (result, DEFAULT_LIMIT_RESPONSE, set_fs fs s) }
          else Some (result, hd bs, set_fs fs s) }"

definition limit_response_write ::
  "('m, 'c, 'k) platform \<Rightarrow> u8 \<Rightarrow> ('m, 'c, 'k) unlock_sys \<Rightarrow>
   (unlock_err_t \<times> ('m, 'c, 'k) unlock_sys) option" where
  "limit_response_write P response s =
     do { (r, fs) \<leftarrow> write_to_filesystem (p_lfs P) LIMIT_RESPONSE_PATH [response] (u_fs s);
          Some (r, set_fs fs s) }"

section \<open>Attempts and delays\<close>

text \<open>Indexed by the number of attempts; entry 0 is unused.\<close>

definition delay_table :: "u32 list" where
  "delay_table = [0, 0, 0, 0, 10 * 1000, 10 * 1000, 60 * 1000, 60 * 1000 * 5, 60 * 1000 * 10,
     60 * 1000 * 30, 60 * 1000 * 30]"

definition unlock_perform_wipe_state :: "('m, 'c, 'k) unlock_sys \<Rightarrow> ('m, 'c, 'k) unlock_sys" where
  "unlock_perform_wipe_state s = s\<lparr>u_wipes := Suc (u_wipes s)\<rparr>"

definition get_delay_for_retry_count :: "u32 \<Rightarrow> ('m, 'c, 'k) unlock_sys \<Rightarrow> u32" where
  "get_delay_for_retry_count count s =
     (if count = 0 then 0
      else if retry_counter_read_delay_period_status s = Some DELAY_COMPLETE then 0
      else if ATTEMPT_LIMIT \<le> unat count then delay_table ! ATTEMPT_LIMIT
      else delay_table ! unat count)"

definition unlock_stop_timer ::
  "('m, 'c, 'k) platform \<Rightarrow> ('m, 'c, 'k) unlock_sys \<Rightarrow> ('m, 'c, 'k) unlock_sys option" where
  "unlock_stop_timer P s =
     do { (t, k) \<leftarrow> rtos_timer_stop (p_rtos P) (delay_timer s) (sys_kernel (u_auth s));
          Some (s\<lparr>delay_timer := t, u_auth := (u_auth s)\<lparr>sys_kernel := k\<rparr>\<rparr>) }"

definition delay_callback ::
  "('m, 'c, 'k) platform \<Rightarrow> ('m, 'c, 'k) unlock_sys \<Rightarrow> ('m, 'c, 'k) unlock_sys option" where
  "delay_callback P s =
     (case retry_counter_write_delay_period_status P DELAY_COMPLETE s of (_, s) \<Rightarrow>
        unlock_stop_timer P s)"

definition begin_delay ::
  "('m, 'c, 'k) platform \<Rightarrow> u32 \<Rightarrow> ('m, 'c, 'k) unlock_sys \<Rightarrow> ('m, 'c, 'k) unlock_sys option" where
  "begin_delay P current_count s =
     (let delay_ms = get_delay_for_retry_count current_count s
      in if delay_ms = 0 then Some s
         else do { (c, k) \<leftarrow> sleep_inhibit (p_rtos P) delay_ms (sys_sleep (u_auth s)) (sys_kernel (u_auth s));
                   (t, k) \<leftarrow> rtos_timer_start (p_rtos P) (delay_timer s) delay_ms k;
                   Some (s\<lparr>delay_timer := t,
                           u_auth := (u_auth s)\<lparr>sys_sleep := c, sys_kernel := k\<rparr>\<rparr>) })"

definition get_remaining_delay_ms ::
  "('m, 'c, 'k) platform \<Rightarrow> ('m, 'c, 'k) unlock_sys \<Rightarrow> u32 option" where
  "get_remaining_delay_ms P s =
     do { e \<leftarrow> rtos_timer_expired (p_rtos P) (delay_timer s) (sys_kernel (u_auth s));
          if e then Some 0
          else rtos_timer_remaining_ms (p_rtos P) (delay_timer s) (sys_kernel (u_auth s)) }"

definition compare_secrets :: "bytes \<Rightarrow> bytes \<Rightarrow> secure_bool_t" where
  "compare_secrets secret stored_secret =
     (if memcmp_s secret stored_secret UNLOCK_SECRET_SIZE = 0 then SECURE_TRUE else SECURE_FALSE)"

definition perform_limit_response :: "('m, 'c, 'k) unlock_sys \<Rightarrow> ('m, 'c, 'k) unlock_sys" where
  "perform_limit_response s =
     (if limit_response s = RESPONSE_DELAY then s
      else if limit_response s = RESPONSE_WIPE_STATE then unlock_perform_wipe_state s
      else s)"

definition unlock_init_and_begin_delay ::
  "('m, 'c, 'k) platform \<Rightarrow> ('m, 'c, 'k) unlock_sys \<Rightarrow> ('m, 'c, 'k) unlock_sys option" where
  "unlock_init_and_begin_delay P s =
     do { (_, s) \<leftarrow> unlock_storage_init P s;
          (t, k) \<leftarrow> rtos_timer_create_static (p_rtos P) (delay_timer s) (sys_kernel (u_auth s));
          let s = s\<lparr>unlock_initialized := True, delay_timer := t,
                    u_auth := (u_auth s)\<lparr>sys_kernel := k\<rparr>\<rparr>;
          (err, response, s) \<leftarrow> limit_response_read P s;
          let s = (if err = UNLOCK_OK then s\<lparr>limit_response := response\<rparr> else s);
          let current_count = (case retry_counter_read s of (err, c) \<Rightarrow>
                if err \<noteq> UNLOCK_OK then of_nat ATTEMPT_LIMIT else c);
          begin_delay P current_count s }"

text \<open>The code from the label \<open>success\<close> on, and the code for a wrong secret.  The pair is
  \<open>*remaining_delay_ms\<close> and \<open>*retry_counter\<close>.\<close>

definition unlock_success ::
  "('m, 'c, 'k) platform \<Rightarrow> u32 \<times> u32 \<Rightarrow> ('m, 'c, 'k) unlock_sys \<Rightarrow>
   (unlock_err_t \<times> (u32 \<times> u32) \<times> ('m, 'c, 'k) unlock_sys) option" where
  "unlock_success P out s =
     (case retry_counter_write P 0 s of (err, s) \<Rightarrow>
        if err \<noteq> UNLOCK_OK then Some (UNLOCK_STORAGE_ERR, out, s)
        else do { (c, k) \<leftarrow> sleep_clear_inhibit (p_rtos P) (sys_sleep (u_auth s)) (sys_kernel (u_auth s));
                  s \<leftarrow> unlock_stop_timer P (s\<lparr>u_auth := (u_auth s)\<lparr>sys_sleep := c, sys_kernel := k\<rparr>\<rparr>);
                  a \<leftarrow> auth_authenticate_unlock_secret (p_rtos P) (u_auth s);
                  Some (UNLOCK_OK, (0, 0), s\<lparr>u_auth := a\<rparr>) })"

definition unlock_wrong_secret ::
  "('m, 'c, 'k) platform \<Rightarrow> u32 \<Rightarrow> ('m, 'c, 'k) unlock_sys \<Rightarrow>
   (unlock_err_t \<times> (u32 \<times> u32) \<times> ('m, 'c, 'k) unlock_sys) option" where
  "unlock_wrong_secret P current_count s =
     do { s \<leftarrow> begin_delay P current_count s;
          remaining \<leftarrow> get_remaining_delay_ms P s;
          if ATTEMPT_LIMIT < unat current_count
          then Some (UNLOCK_LIMIT_RESPONSE_TAKEN, (remaining, current_count), perform_limit_response s)
          else Some (UNLOCK_WRONG_SECRET, (remaining, current_count), s) }"

definition unlock_check_secret ::
  "('m, 'c, 'k) platform \<Rightarrow> nat set \<Rightarrow> bytes \<Rightarrow> u32 \<times> u32 \<Rightarrow> ('m, 'c, 'k) unlock_sys \<Rightarrow>
   (unlock_err_t \<times> (u32 \<times> u32) \<times> ('m, 'c, 'k) unlock_sys) option" where
  "unlock_check_secret P flip secret out s =
     (case unlock_secret_exists P s of (provisioned, s) \<Rightarrow>
      if \<not> provisioned then Some (UNLOCK_NO_SECRET_PROVISIONED, out, s)
      else case retry_counter_read s of (err, current_count) \<Rightarrow>
      if err \<noteq> UNLOCK_OK then Some (UNLOCK_STORAGE_ERR, out, s)
      else do { remaining \<leftarrow> get_remaining_delay_ms P s;
        if 0 < remaining then Some (UNLOCK_WAITING_ON_DELAY, (remaining, current_count), s)
        else let current_count = (if current_count < UINT32_MAX then current_count + 1 else current_count)
        in case retry_counter_write P current_count s of (err, s) \<Rightarrow>
        if err \<noteq> UNLOCK_OK then Some (UNLOCK_STORAGE_ERR, (remaining, snd out), s)
        else do { (err, stored_secret, s) \<leftarrow> unlock_secret_read P (replicate UNLOCK_SECRET_SIZE 0) s;
          if err \<noteq> UNLOCK_OK then Some (err, (remaining, snd out), s)
          else case SECURE_DO_FAILOUT flip (compare_secrets secret stored_secret = SECURE_TRUE) of
            (glitches, match) \<Rightarrow>
              let s = s\<lparr>u_glitches := u_glitches s + glitches\<rparr>
              in if match then unlock_success P (remaining, snd out) s
                 else unlock_wrong_secret P current_count s } })"

definition unlock_provision_secret ::
  "('m, 'c, 'k) platform \<Rightarrow> bytes \<Rightarrow> ('m, 'c, 'k) unlock_sys \<Rightarrow>
   (unlock_err_t \<times> ('m, 'c, 'k) unlock_sys) option" where
  "unlock_provision_secret P secret s = unlock_secret_write P secret s"

definition unlock_set_configured_limit_response ::
  "('m, 'c, 'k) platform \<Rightarrow> u8 \<Rightarrow> ('m, 'c, 'k) unlock_sys \<Rightarrow>
   (unlock_err_t \<times> ('m, 'c, 'k) unlock_sys) option" where
  "unlock_set_configured_limit_response P response s =
     do { (err, s) \<leftarrow> limit_response_write P response s;
          if err \<noteq> UNLOCK_OK then Some (UNLOCK_STORAGE_ERR, s)
          else do { (err, read_back, s) \<leftarrow> limit_response_read P s;
                    Some (if err \<noteq> UNLOCK_OK \<or> read_back \<noteq> response
                          then UNLOCK_STORAGE_ERR else UNLOCK_OK, s) } }"

definition unlock_reset_retry_counter ::
  "('m, 'c, 'k) platform \<Rightarrow> ('m, 'c, 'k) unlock_sys \<Rightarrow> unlock_err_t \<times> ('m, 'c, 'k) unlock_sys" where
  "unlock_reset_retry_counter P s =
     (if \<not> unlock_initialized s then (UNLOCK_NOT_INITIALIZED, s)
      else case retry_counter_read s of (err, c) \<Rightarrow>
        if err \<noteq> UNLOCK_OK then (UNLOCK_STORAGE_ERR, s)
        else if c = 0 then (UNLOCK_OK, s)
        else retry_counter_write P 0 s)"

definition unlock_wipe_state ::
  "('m, 'c, 'k) platform \<Rightarrow> ('m, 'c, 'k) unlock_sys \<Rightarrow> ('m, 'c, 'k) unlock_sys" where
  "unlock_wipe_state P s =
     (case fs_remove (p_lfs P) UNLOCK_SECRET_PATH (u_fs s) of (_, fs) \<Rightarrow>
      case fs_remove (p_lfs P) LIMIT_RESPONSE_PATH fs of (_, fs) \<Rightarrow>
        snd (unlock_reset_retry_counter P (set_fs fs s)))"

section \<open>Correctness of an attempt\<close>

locale unlock_env =
  wkek_env "p_lfs P" content opened "p_crypto P" + fl: nor_flash "p_flash P" +
  os: freertos "p_rtos P" armed
  for P :: "('m, 'c, 'k) platform" and content opened armed

text \<open>A provisioned device: \<open>stored\<close> is the sealed secret, \<open>es\<close> the entries of the counter log.\<close>

definition provisioned ::
  "('m, 'c, 'k) platform \<Rightarrow> ('m \<Rightarrow> string \<Rightarrow> bytes option) \<Rightarrow> ('m \<Rightarrow> file_addr \<Rightarrow> open_file option) \<Rightarrow>
   bytes \<Rightarrow> nat \<Rightarrow> u32 list \<Rightarrow> ('m, 'c, 'k) unlock_sys \<Rightarrow> bool" where
  "provisioned P content opened stored cap es s =
     (wkek_ready content opened (u_wallet s) \<and>
      sealed (p_crypto P) content (u_wallet s) UNLOCK_SECRET_PATH stored \<and>
      length stored = UNLOCK_SECRET_SIZE \<and>
      ix_log (u_counter_fs s) (u_flash s) cap es)"

abbreviation u_count :: "('m, 'c, 'k) unlock_sys \<Rightarrow> u32" where
  "u_count s \<equiv> indexfs_count (u_counter_fs s) (u_flash s)"

text \<open>The delay a count asks for when the delay of the last attempt was not waited out.\<close>

definition delay_for :: "nat \<Rightarrow> u32" where
  "delay_for n = (if n = 0 then 0 else delay_table ! min n ATTEMPT_LIMIT)"

lemma delay_for_positive: "4 \<le> n \<Longrightarrow> 10000 \<le> delay_for n"
proof -
  assume "4 \<le> n"
  then have "min n ATTEMPT_LIMIT \<in> {4..10}" by simp
  then have "min n ATTEMPT_LIMIT \<in> set [4, 5, 6, 7, 8, 9, 10]" by (simp add: atLeastAtMost_upt upt_rec)
  with \<open>4 \<le> n\<close> show ?thesis by (auto simp: delay_for_def delay_table_def)
qed

lemma get_delay_incomplete:
  assumes "ix_log (u_counter_fs s) (u_flash s) cap es" "log_flag es \<noteq> DELAY_COMPLETE"
  shows "get_delay_for_retry_count (u_count s) s = delay_for (unat (u_count s))"
  using assms get_flag_log [OF assms(1)]
  by (auto simp: get_delay_for_retry_count_def retry_counter_read_delay_period_status_def
      delay_for_def min_def unat_eq_zero)

text \<open>The delay timer has just been started with the delay of the current count.\<close>

definition delay_started ::
  "('m, 'c, 'k) platform \<Rightarrow> ('k \<Rightarrow> timer_id \<Rightarrow> u32 option) \<Rightarrow> timer_id \<Rightarrow> ('m, 'c, 'k) unlock_sys \<Rightarrow> bool" where
  "delay_started P armed h s =
     (tm_handle (delay_timer s) = Some h \<and> tm_active (delay_timer s) \<and>
      armed (sys_kernel (u_auth s)) h =
        Some (xTaskGetTickCount (p_rtos P) (sys_kernel (u_auth s)) + delay_for (unat (u_count s))))"

lemma provisioned_frame [simp]:
  "provisioned P content opened stored cap es (s\<lparr>u_glitches := n\<rparr>) = provisioned P content opened stored cap es s"
  "provisioned P content opened stored cap es (s\<lparr>u_auth := a\<rparr>) = provisioned P content opened stored cap es s"
  "provisioned P content opened stored cap es (s\<lparr>delay_timer := t\<rparr>) = provisioned P content opened stored cap es s"
  "provisioned P content opened stored cap es (s\<lparr>u_wipes := n\<rparr>) = provisioned P content opened stored cap es s"
  by (simp_all add: provisioned_def)

lemma sealed_files:
  "fs_files content (w_fs w') = fs_files content (w_fs w) \<Longrightarrow>
   sealed C content w' f d = sealed C content w f d"
  by (simp add: sealed_def key_file_def)

text \<open>What an attempt leaves alone whatever its outcome.\<close>

definition attempt_frame :: "('m, 'c, 'k) unlock_sys \<Rightarrow> ('m, 'c, 'k) unlock_sys \<Rightarrow> bool" where
  "attempt_frame s s' =
     (u_counter_fs s' = u_counter_fs s \<and> limit_response s' = limit_response s \<and>
      unlock_initialized s' = unlock_initialized s)"

lemma compare_secrets_iff:
  assumes "length secret = UNLOCK_SECRET_SIZE" "length stored = UNLOCK_SECRET_SIZE"
  shows "compare_secrets secret stored = SECURE_TRUE \<longleftrightarrow> secret = stored"
  using assms memcmp_s_zero_iff [of UNLOCK_SECRET_SIZE secret stored]
  by (simp add: compare_secrets_def SECURE_TRUE_def SECURE_FALSE_def)

lemma begin_delay_frame:
  assumes "begin_delay P n s = Some s'"
  obtains t c k where "s' = s\<lparr>delay_timer := t, u_auth := (u_auth s)\<lparr>sys_sleep := c, sys_kernel := k\<rparr>\<rparr>"
proof (cases "get_delay_for_retry_count n s = 0")
  case True
  then have "s' = s" using assms by (simp add: begin_delay_def)
  then show thesis
    using that [where t = "delay_timer s" and c = "sys_sleep (u_auth s)" and k = "sys_kernel (u_auth s)"] by simp
next
  case False
  then show thesis using assms that by (auto simp: begin_delay_def Let_def bind_eq_Some_conv)
qed

lemma wrong_secret_frame:
  assumes "unlock_wrong_secret P n s = Some (res, out, s')"
  shows "u_wallet s' = u_wallet s \<and> u_flash s' = u_flash s \<and> attempt_frame s s' \<and>
    sys_auth (u_auth s') = sys_auth (u_auth s) \<and>
    res = (if ATTEMPT_LIMIT < unat n then UNLOCK_LIMIT_RESPONSE_TAKEN else UNLOCK_WRONG_SECRET) \<and>
    snd out = n \<and>
    u_wipes s' = u_wipes s +
      (if ATTEMPT_LIMIT < unat n \<and> limit_response s = RESPONSE_WIPE_STATE then 1 else 0)"
proof -
  obtain s1 r where b: "begin_delay P n s = Some s1" and
    r: "res = (if ATTEMPT_LIMIT < unat n then UNLOCK_LIMIT_RESPONSE_TAKEN else UNLOCK_WRONG_SECRET)"
    "out = (r, n)" "s' = (if ATTEMPT_LIMIT < unat n then perform_limit_response s1 else s1)"
    using assms by (auto simp: unlock_wrong_secret_def bind_eq_Some_conv split: if_splits)
  from b obtain t c k where
    "s1 = s\<lparr>delay_timer := t, u_auth := (u_auth s)\<lparr>sys_sleep := c, sys_kernel := k\<rparr>\<rparr>"
    by (rule begin_delay_frame)
  with r show ?thesis
    by (simp add: attempt_frame_def perform_limit_response_def unlock_perform_wipe_state_def)
qed

context unlock_env
begin

lemma begin_delay_arms:
  assumes "begin_delay P n s = Some s'" "get_delay_for_retry_count n s \<noteq> 0"
    "tm_handle (delay_timer s) = Some h"
  shows "tm_handle (delay_timer s') = Some h \<and> tm_active (delay_timer s') \<and>
    armed (sys_kernel (u_auth s')) h =
      Some (xTaskGetTickCount (p_rtos P) (sys_kernel (u_auth s')) + get_delay_for_retry_count n s)"
proof -
  obtain c k t k' where i: "sleep_inhibit (p_rtos P) (get_delay_for_retry_count n s)
        (sys_sleep (u_auth s)) (sys_kernel (u_auth s)) = Some (c, k)"
    and st: "rtos_timer_start (p_rtos P) (delay_timer s) (get_delay_for_retry_count n s) k = Some (t, k')"
    and s': "s' = s\<lparr>delay_timer := t, u_auth := (u_auth s)\<lparr>sys_sleep := c, sys_kernel := k'\<rparr>\<rparr>"
    using assms(1,2) by (auto simp: begin_delay_def Let_def bind_eq_Some_conv)
  show ?thesis using os.timer_start [OF st] assms(3) s' by auto
qed

lemma remaining_armed:
  assumes "tm_handle (delay_timer s) = Some h" "tm_active (delay_timer s)"
    "armed (sys_kernel (u_auth s)) h = Some e"
  shows "get_remaining_delay_ms P s =
    Some (e - xTaskGetTickCount (p_rtos P) (sys_kernel (u_auth s)))"
  using os.timer_expired [OF assms(1)] os.timer_remaining [OF assms(1,3,2)] assms(3)
  by (simp add: get_remaining_delay_ms_def)

lemma wrong_secret_arms:
  assumes w: "unlock_wrong_secret P (u_count s) s = Some (res, out, s')"
    and log: "ix_log (u_counter_fs s) (u_flash s) cap es" "log_flag es \<noteq> DELAY_COMPLETE"
    and h: "tm_handle (delay_timer s) = Some h" "4 \<le> unat (u_count s)"
  shows "delay_started P armed h s'"
proof -
  obtain s1 where b: "begin_delay P (u_count s) s = Some s1"
    and s': "s' = (if ATTEMPT_LIMIT < unat (u_count s) then perform_limit_response s1 else s1)"
    using w by (auto simp: unlock_wrong_secret_def bind_eq_Some_conv split: if_splits)
  note d = get_delay_incomplete [OF log]
  have "get_delay_for_retry_count (u_count s) s \<noteq> 0"
    unfolding d using delay_for_positive [OF h(2)] by auto
  note a = begin_delay_arms [OF b this h(1), unfolded d]
  have c: "u_count s1 = u_count s" using b by (rule begin_delay_frame) simp
  have p: "delay_timer s' = delay_timer s1" "u_auth s' = u_auth s1" "u_count s' = u_count s1"
    by (simp_all add: s' perform_limit_response_def unlock_perform_wipe_state_def)
  show ?thesis using a unfolding delay_started_def p c by simp
qed

lemma counter_incremented:
  assumes log: "ix_log (u_counter_fs s) (u_flash s) cap es" and room: "Suc (magic_offset + length es) < cap"
    and w: "retry_counter_write P (u_count s + 1) s = (UNLOCK_OK, s')"
  shows "\<exists>es'. ix_log (u_counter_fs s) (u_flash s') cap es' \<and> length es' = Suc (length es) \<and>
    log_flag es' = DELAY_INCOMPLETE \<and> unat (u_count s') = Suc (unat (u_count s)) \<and>
    u_count s' = u_count s + 1 \<and> s' = s\<lparr>u_flash := u_flash s'\<rparr>"
proof -
  have c: "u_count s = ucast (log_count es)" using log by (rule count_log_u32)
  have "unat (u_count s) < 2 ^ 16" unfolding c using unsigned_less [of "log_count es"] by simp
  then have "unat (u_count s + 1) = unat (u_count s) + 1" by (subst unat_plus_no_wrap) simp_all
  then have nz: "u_count s + 1 \<noteq> 0" by auto
  obtain m where i: "indexfs_increment (p_flash P) (u_counter_fs s) (u_flash s) = (True, m)"
    and s': "s' = s\<lparr>u_flash := m\<rparr>" and n: "indexfs_count (u_counter_fs s) m = u_count s + 1"
    using w nz by (auto simp: retry_counter_write_def split: if_splits prod.splits)
  from fl.increment_log [OF log room i] obtain es' where e: "ix_log (u_counter_fs s) m cap es'"
    "length es' = Suc (length es)" "unat (log_count es') = Suc (unat (log_count es))"
    "log_flag es' = FLAGS_EMPTY" by blast
  have "unat (indexfs_count (u_counter_fs s) m) = Suc (unat (u_count s))"
    using e(3) c count_log_u32 [OF e(1)] by simp
  with e n s' show ?thesis by (intro exI [of _ es']) simp
qed

lemma success_outcome:
  assumes s: "unlock_success P out s = Some (res, out', s')"
  shows "u_wallet s' = u_wallet s \<and> attempt_frame s s' \<and> u_wipes s' = u_wipes s \<and>
    (res = UNLOCK_OK \<and> authenticated (sys_auth (u_auth s')) = SECURE_TRUE \<and>
       auth_method (sys_auth (u_auth s')) = AUTH_METHOD_UNLOCK_SECRET \<and> u_count s' = 0 \<and> out' = (0, 0) \<or>
     res = UNLOCK_STORAGE_ERR \<and> sys_auth (u_auth s') = sys_auth (u_auth s))"
proof -
  obtain err s1 where w: "retry_counter_write P 0 s = (err, s1)" by fastforce
  then have s1: "s1 = s\<lparr>u_flash := u_flash s1\<rparr>" "err = UNLOCK_OK \<longrightarrow> u_count s1 = 0"
    by (auto simp: retry_counter_write_def split: prod.splits if_splits)
  have f: "u_wallet s1 = u_wallet s" "u_auth s1 = u_auth s" "u_wipes s1 = u_wipes s"
    "u_counter_fs s1 = u_counter_fs s" "attempt_frame s s1"
    by (subst s1(1), simp add: attempt_frame_def)+
  show ?thesis
  proof (cases "err = UNLOCK_OK")
    case False
    then have "res = UNLOCK_STORAGE_ERR" "s' = s1" using s w by (auto simp: unlock_success_def)
    with f show ?thesis by simp
  next
    case True
    then obtain c k t k' a where
      a: "auth_authenticate_unlock_secret (p_rtos P)
            ((u_auth s1)\<lparr>sys_sleep := c, sys_kernel := k'\<rparr>) = Some a"
      and s': "s' = s1\<lparr>delay_timer := t, u_auth := a\<rparr>" "res = UNLOCK_OK" "out' = (0, 0)"
      using s w by (auto simp: unlock_success_def unlock_stop_timer_def bind_eq_Some_conv)
    have "authenticated (sys_auth a) = SECURE_TRUE" "auth_method (sys_auth a) = AUTH_METHOD_UNLOCK_SECRET"
      using a by (auto simp: auth_authenticate_unlock_secret_def do_authenticate_def
          restart_auth_timer_def bind_eq_Some_conv)
    with s' f s1(2) True show ?thesis by (auto simp: attempt_frame_def)
  qed
qed

lemma secret_read:
  assumes pv: "provisioned P content opened stored cap es s"
    and rd: "unlock_secret_read P (replicate UNLOCK_SECRET_SIZE 0) s = Some (err, st, s')"
  shows "provisioned P content opened stored cap es s' \<and> s' = s\<lparr>u_wallet := u_wallet s'\<rparr> \<and>
    (err = UNLOCK_OK \<and> st = stored \<or> err = UNLOCK_STORAGE_ERR)"
proof -
  obtain ok w where r: "wkek_read_and_decrypt (p_lfs P) (p_crypto P) UNLOCK_SECRET_PATH
      (replicate UNLOCK_SECRET_SIZE 0) (u_wallet s) = Some (ok, st, w)"
    and s': "s' = s\<lparr>u_wallet := w\<rparr>" "err = (if ok then UNLOCK_OK else UNLOCK_STORAGE_ERR)"
    using rd by (auto simp: unlock_secret_read_def bind_eq_Some_conv)
  have a: "wkek_ready content opened (u_wallet s)"
    "sealed (p_crypto P) content (u_wallet s) UNLOCK_SECRET_PATH stored"
    "length (replicate UNLOCK_SECRET_SIZE (0 :: u8)) = length stored"
    using pv by (simp_all add: provisioned_def)
  note rc = read_sealed [OF a r]
  then have "sealed (p_crypto P) content w UNLOCK_SECRET_PATH stored"
    using a(2) sealed_files by blast
  with rc pv s' show ?thesis by (auto simp: provisioned_def)
qed

text \<open>After the counter was incremented to \<open>n\<close>: the comparison and what follows.\<close>

lemma compare_stage:
  assumes pv: "provisioned P content opened stored cap es s"
    and len: "length secret = UNLOCK_SECRET_SIZE" and flip: "flip \<subseteq> {i}"
    and n: "u_count s = n" and fg: "log_flag es \<noteq> DELAY_COMPLETE"
    and c: "(case SECURE_DO_FAILOUT flip (compare_secrets secret stored = SECURE_TRUE) of
            (glitches, match) \<Rightarrow>
              let s = s\<lparr>u_glitches := u_glitches s + glitches\<rparr>
              in if match then unlock_success P (rem, snd out) s
                 else unlock_wrong_secret P n s) = Some (res, out', s')"
  shows "attempt_frame s s' \<and>
    (res = UNLOCK_OK \<and> secret = stored \<and> authenticated (sys_auth (u_auth s')) = SECURE_TRUE \<and>
       u_count s' = 0 \<and> u_wipes s' = u_wipes s \<or>
     res = UNLOCK_STORAGE_ERR \<and> sys_auth (u_auth s') = sys_auth (u_auth s) \<and> u_wipes s' = u_wipes s \<or>
     res = (if ATTEMPT_LIMIT < unat n then UNLOCK_LIMIT_RESPONSE_TAKEN else UNLOCK_WRONG_SECRET) \<and>
       sys_auth (u_auth s') = sys_auth (u_auth s) \<and> u_count s' = n \<and> snd out' = n \<and>
       (flip = {} \<longrightarrow> secret \<noteq> stored) \<and>
       u_wipes s' = u_wipes s +
         (if ATTEMPT_LIMIT < unat n \<and> limit_response s = RESPONSE_WIPE_STATE then 1 else 0) \<and>
       (\<forall>h. tm_handle (delay_timer s) = Some h \<longrightarrow> 4 \<le> unat n \<longrightarrow> delay_started P armed h s') \<and>
       provisioned P content opened stored cap es s')"
proof -
  have eq: "compare_secrets secret stored = SECURE_TRUE \<longleftrightarrow> secret = stored"
    using compare_secrets_iff [OF len] pv by (simp add: provisioned_def)
  obtain g match where m: "SECURE_DO_FAILOUT flip (secret = stored) = (g, match)" by fastforce
  let ?s = "s\<lparr>u_glitches := u_glitches s + g\<rparr>"
  show ?thesis
  proof (cases match)
    case True
    then have "secret = stored" using do_failout_single_fault [OF flip] m by (metis snd_conv)
    have u: "unlock_success P (rem, snd out) ?s = Some (res, out', s')"
      using c m True by (simp add: eq)
    show ?thesis
      using success_outcome [OF u] \<open>secret = stored\<close> by (elim conjE disjE) (simp_all add: attempt_frame_def)
  next
    case False
    then have w: "unlock_wrong_secret P n ?s = Some (res, out', s')" using c m by (simp add: eq)
    have "flip = {} \<longrightarrow> secret \<noteq> stored" using m False by auto
    moreover have "tm_handle (delay_timer s) = Some h \<longrightarrow> 4 \<le> unat n \<longrightarrow> delay_started P armed h s'" for h
      using wrong_secret_arms [of ?s res out' s' cap es h] w n fg pv by (simp add: provisioned_def)
    ultimately show ?thesis
      using wrong_secret_frame [OF w] n pv by (auto simp: attempt_frame_def provisioned_def)
  qed
qed

text \<open>The complete case analysis of an attempt.\<close>

lemma check_secret_cases:
  assumes pv: "provisioned P content opened stored cap es s"
    and room: "Suc (magic_offset + length es) < cap"
    and len: "length secret = UNLOCK_SECRET_SIZE" and flip: "flip \<subseteq> {i}"
    and c: "unlock_check_secret P flip secret out s = Some (res, out', s')"
  shows "attempt_frame s s' \<and>
    (res = UNLOCK_OK \<and> secret = stored \<and> authenticated (sys_auth (u_auth s')) = SECURE_TRUE \<and>
       u_count s' = 0 \<and> u_wipes s' = u_wipes s \<or>
     res = UNLOCK_STORAGE_ERR \<and> sys_auth (u_auth s') = sys_auth (u_auth s) \<and> u_wipes s' = u_wipes s \<or>
     res = UNLOCK_WAITING_ON_DELAY \<and> fst out' \<noteq> 0 \<and> u_auth s' = u_auth s \<and> u_flash s' = u_flash s \<and>
       u_wipes s' = u_wipes s \<and> delay_timer s' = delay_timer s \<and>
       provisioned P content opened stored cap es s' \<or>
     res = (if ATTEMPT_LIMIT \<le> unat (u_count s) then UNLOCK_LIMIT_RESPONSE_TAKEN else UNLOCK_WRONG_SECRET) \<and>
       sys_auth (u_auth s') = sys_auth (u_auth s) \<and> unat (u_count s') = Suc (unat (u_count s)) \<and>
       snd out' = u_count s' \<and> (flip = {} \<longrightarrow> secret \<noteq> stored) \<and>
       u_wipes s' = u_wipes s +
         (if ATTEMPT_LIMIT \<le> unat (u_count s) \<and> limit_response s = RESPONSE_WIPE_STATE then 1 else 0) \<and>
       (\<forall>h. tm_handle (delay_timer s) = Some h \<longrightarrow> 4 \<le> unat (u_count s') \<longrightarrow> delay_started P armed h s') \<and>
       (\<exists>es'. length es' = Suc (length es) \<and> provisioned P content opened stored cap es' s'))"
proof -
  have rdy: "wkek_ready content opened (u_wallet s)"
    and se: "sealed (p_crypto P) content (u_wallet s) UNLOCK_SECRET_PATH stored"
    and ln: "length stored = UNLOCK_SECRET_SIZE"
    and log: "ix_log (u_counter_fs s) (u_flash s) cap es"
    using pv by (simp_all add: provisioned_def)
  obtain b fs where e: "fs_file_exists (p_lfs P) UNLOCK_SECRET_PATH (u_fs s) = (b, fs)" by fastforce
  have idle: "fs_idle opened (u_fs s)" using rdy by (simp add: wkek_ready_def)
  note ec = exists_iff [OF idle e]
  have b: b using ec se by (auto simp: sealed_def)
  let ?s1 = "set_fs fs s"
  have ready1: "wkek_ready content opened (u_wallet ?s1)"
    using ec by (intro ready_cong [OF rdy]) (simp_all add: set_fs_def rdy [unfolded wkek_ready_def])
  have pv1: "provisioned P content opened stored cap es ?s1"
    using pv ready1 ec sealed_files [of content "u_wallet ?s1" "u_wallet s"]
    by (simp add: provisioned_def set_fs_def)
  have cnt: "retry_counter_read ?s1 = (UNLOCK_OK, u_count s)"
    by (simp add: retry_counter_read_def set_fs_def)
  have "unat (u_count s) < 2 ^ 16"
    using count_log_u32 [OF log] unsigned_less [of "log_count es"] by simp
  then have max: "u_count s < UINT32_MAX" by (simp add: word_less_nat_alt)
  obtain rem where rm: "get_remaining_delay_ms P ?s1 = Some rem"
    using c e b cnt by (auto simp: unlock_check_secret_def unlock_secret_exists_def bind_eq_Some_conv)
  obtain err s2 where w: "retry_counter_write P (u_count s + 1) ?s1 = (err, s2)" by fastforce
  have s2: "s2 = ?s1\<lparr>u_flash := u_flash s2\<rparr>"
    using w by (auto simp: retry_counter_write_def split: prod.splits)
  consider (Wait) "0 < rem" | (Err) "rem = 0" "err \<noteq> UNLOCK_OK" | (Cmp) "rem = 0" "err = UNLOCK_OK"
    by (auto simp: word_gt_0)
  then show ?thesis
  proof cases
    case Wait
    then have "res = UNLOCK_WAITING_ON_DELAY" "fst out' = rem" "s' = ?s1"
      using c e b cnt rm by (auto simp: unlock_check_secret_def unlock_secret_exists_def)
    with Wait pv1 show ?thesis by (auto simp: attempt_frame_def set_fs_def)
  next
    case Err
    then have "res = UNLOCK_STORAGE_ERR" "s' = s2"
      using c e b cnt rm w max by (auto simp: unlock_check_secret_def unlock_secret_exists_def Let_def)
    moreover have "attempt_frame s s2" "u_auth s2 = u_auth s" "u_wipes s2 = u_wipes s"
      by (subst s2, simp add: attempt_frame_def set_fs_def)+
    ultimately show ?thesis by simp
  next
    case Cmp
    have f1: "u_counter_fs ?s1 = u_counter_fs s" "u_flash ?s1 = u_flash s" "u_auth ?s1 = u_auth s"
      "u_wipes ?s1 = u_wipes s" "limit_response ?s1 = limit_response s" "attempt_frame s ?s1"
      "delay_timer ?s1 = delay_timer s"
      by (simp_all add: set_fs_def attempt_frame_def)
    have log1: "ix_log (u_counter_fs ?s1) (u_flash ?s1) cap es" using log f1 by simp
    have w1: "retry_counter_write P (u_count ?s1 + 1) ?s1 = (UNLOCK_OK, s2)" using w Cmp f1 by simp
    from counter_incremented [OF log1 room w1] obtain es2 where
      l2: "ix_log (u_counter_fs s) (u_flash s2) cap es2" "length es2 = Suc (length es)"
      "log_flag es2 \<noteq> DELAY_COMPLETE"
      and n2: "unat (u_count s2) = Suc (unat (u_count s))" "u_count s2 = u_count s + 1"
      using f1 by auto
    have f2: "u_wallet s2 = u_wallet ?s1" "u_auth s2 = u_auth s" "u_wipes s2 = u_wipes s"
      "u_counter_fs s2 = u_counter_fs s" "limit_response s2 = limit_response s" "attempt_frame s s2"
      "delay_timer s2 = delay_timer s"
      using f1 by (subst s2, simp add: attempt_frame_def)+
    have pv2: "provisioned P content opened stored cap es2 s2"
      using pv1 l2 f2 by (simp add: provisioned_def)
    let ?n = "if u_count s < UINT32_MAX then u_count s + 1 else u_count s"
    obtain err3 st s3 where rd: "unlock_secret_read P (replicate UNLOCK_SECRET_SIZE 0) s2 = Some (err3, st, s3)"
      and k0: "(if err3 \<noteq> UNLOCK_OK then Some (err3, (rem, snd out), s3)
          else case SECURE_DO_FAILOUT flip (compare_secrets secret st = SECURE_TRUE) of
            (glitches, match) \<Rightarrow>
              let s = s3\<lparr>u_glitches := u_glitches s3 + glitches\<rparr>
              in if match then unlock_success P (rem, snd out) s
                 else unlock_wrong_secret P ?n s) = Some (res, out', s')"
      using c e b cnt rm w max Cmp
      by (auto simp: unlock_check_secret_def unlock_secret_exists_def Let_def bind_eq_Some_conv)
    have "?n = u_count s2" using max n2(2) by simp
    note k = k0 [unfolded this]
    note rc = secret_read [OF pv2 rd]
    have s3: "s3 = s2\<lparr>u_wallet := u_wallet s3\<rparr>" using rc by simp
    have f3: "u_auth s3 = u_auth s" "u_wipes s3 = u_wipes s" "limit_response s3 = limit_response s"
      "u_count s3 = u_count s2" "attempt_frame s s3" "delay_timer s3 = delay_timer s"
      using f2 by (subst s3, simp add: attempt_frame_def)+
    show ?thesis
    proof (cases "err3 = UNLOCK_OK")
      case False
      then show ?thesis using rc k f3 by auto
    next
      case True
      have st: "st = stored" using rc True by auto
      note cs = compare_stage [OF conjunct1 [OF rc] len flip f3(4) l2(3), of rem out res out' s']
      have lim: "ATTEMPT_LIMIT < unat (u_count s2) \<longleftrightarrow> ATTEMPT_LIMIT \<le> unat (u_count s)"
        using n2(1) by arith
      from cs k True st have cs': "attempt_frame s3 s' \<and>
        (res = UNLOCK_OK \<and> secret = stored \<and> authenticated (sys_auth (u_auth s')) = SECURE_TRUE \<and>
           u_count s' = 0 \<and> u_wipes s' = u_wipes s \<or>
         res = UNLOCK_STORAGE_ERR \<and> sys_auth (u_auth s') = sys_auth (u_auth s) \<and> u_wipes s' = u_wipes s \<or>
         res = (if ATTEMPT_LIMIT \<le> unat (u_count s) then UNLOCK_LIMIT_RESPONSE_TAKEN else UNLOCK_WRONG_SECRET) \<and>
           sys_auth (u_auth s') = sys_auth (u_auth s) \<and> u_count s' = u_count s2 \<and> snd out' = u_count s2 \<and>
           (flip = {} \<longrightarrow> secret \<noteq> stored) \<and>
           u_wipes s' = u_wipes s +
             (if ATTEMPT_LIMIT \<le> unat (u_count s) \<and> limit_response s = RESPONSE_WIPE_STATE then 1 else 0) \<and>
           (\<forall>h. tm_handle (delay_timer s) = Some h \<longrightarrow> 4 \<le> unat (u_count s2) \<longrightarrow> delay_started P armed h s') \<and>
           provisioned P content opened stored cap es2 s')"
        unfolding lim f3 by simp
      have fr: "attempt_frame s s'" using cs' f3(5) by (simp add: attempt_frame_def)
      have ex: "provisioned P content opened stored cap es2 s' \<Longrightarrow>
          \<exists>es'. length es' = Suc (length es) \<and> provisioned P content opened stored cap es' s'"
        using l2(2) by blast
      from conjunct2 [OF cs'] show ?thesis
        by (elim disjE; intro conjI fr) (blast, blast, use ex n2(1) in \<open>simp split del: if_split\<close>)
    qed
  qed
qed

lemma check_waits:
  assumes pv: "provisioned P content opened stored cap es s"
    and rm: "get_remaining_delay_ms P s = Some rem" "0 < rem"
  shows "\<exists>s'. unlock_check_secret P flip secret out s = Some (UNLOCK_WAITING_ON_DELAY, (rem, u_count s), s') \<and>
    u_flash s' = u_flash s \<and> u_auth s' = u_auth s"
proof -
  have idle: "fs_idle opened (u_fs s)" using pv by (simp add: provisioned_def wkek_ready_def)
  obtain b fs where e: "fs_file_exists (p_lfs P) UNLOCK_SECRET_PATH (u_fs s) = (b, fs)" by fastforce
  have b: b using exists_iff [OF idle e] pv by (auto simp: provisioned_def sealed_def)
  have "get_remaining_delay_ms P (set_fs fs s) = Some rem"
    using rm(1) by (simp only: get_remaining_delay_ms_def set_fs_simps)
  then show ?thesis
    using e b rm(2)
    by (simp add: unlock_check_secret_def unlock_secret_exists_def retry_counter_read_def)
qed

end

section \<open>Properties\<close>

text \<open>C2: One attempt to unlock, also under a single injected fault in the guarded comparison.
  The attempt succeeds only with the stored secret, and then the device is authenticated and the
  counter reset.  Any other result leaves the authentication state alone.  An attempt that was
  compared and failed has been counted in flash; past the limit the configured response is
  taken.  While a delay is running nothing is counted or compared.\<close>

theorem unlock_attempt_outcomes:
  assumes "unlock_env P content opened armed" "provisioned P content opened stored cap es s"
    and "Suc (magic_offset + length es) < cap" "length secret = UNLOCK_SECRET_SIZE" "flip \<subseteq> {i}"
    and "unlock_check_secret P flip secret out s = Some (res, out', s')"
  shows "(res = UNLOCK_OK \<longrightarrow> secret = stored \<and> is_authenticated (u_auth s') = SECURE_TRUE \<and>
       u_count s' = 0) \<and>
     (res \<noteq> UNLOCK_OK \<longrightarrow> sys_auth (u_auth s') = sys_auth (u_auth s)) \<and>
     (res = UNLOCK_WRONG_SECRET \<or> res = UNLOCK_LIMIT_RESPONSE_TAKEN \<longrightarrow>
       unat (u_count s') = Suc (unat (u_count s)) \<and> (flip = {} \<longrightarrow> secret \<noteq> stored)) \<and>
     (res = UNLOCK_LIMIT_RESPONSE_TAKEN \<longrightarrow> ATTEMPT_LIMIT < unat (u_count s') \<and>
       (limit_response s = RESPONSE_WIPE_STATE \<longrightarrow> u_wipes s' = Suc (u_wipes s))) \<and>
     (res = UNLOCK_WRONG_SECRET \<longrightarrow> unat (u_count s') \<le> ATTEMPT_LIMIT) \<and>
     (res = UNLOCK_WAITING_ON_DELAY \<longrightarrow> u_flash s' = u_flash s)"
  using unlock_env.check_secret_cases [OF assms]
  by (elim conjE disjE) (simp_all add: is_authenticated_def split: if_splits)

definition unlock_platform :: "(ram_t, nat, ram_kernel) platform" where
  "unlock_platform = \<lparr>p_lfs = ram_lfs, p_crypto = ram_crypto, p_flash = ram_flash,
     p_layout = \<lparr>active_slot = Some SLOT_A, app_a_slot_page = 0x2000, app_b_slot_page = 0x4000,
       app_a_signature = 0x1000, app_b_signature = 0x1100, app_slot_size = 0x2000,
       bl_base_addr = 0, bl_slot_size = 0x1000\<rparr>,
     p_rtos = ram_rtos\<rparr>"

interpretation ramu: unlock_env unlock_platform ram_files ram_open rk_armed
  unfolding unlock_env_def unlock_platform_def
  by (simp add: ramw.wkek_env_axioms ramf.nor_flash_axioms ramk.freertos_axioms)

definition example_secret :: bytes where
  "example_secret = replicate UNLOCK_SECRET_SIZE 9"

definition unlock_example :: "flash_mem \<Rightarrow> (ram_t, nat, ram_kernel) unlock_sys" where
  "unlock_example m = \<lparr>
     u_wallet = wallet_example [WKEK_PATH \<mapsto> replicate WKEK_SIZE 5, UNLOCK_SECRET_PATH \<mapsto>
       replicate AES_GCM_IV_LENGTH 0 @ replicate UNLOCK_SECRET_SIZE (9 XOR 5) @ replicate AES_GCM_TAG_LENGTH 5] False,
     u_flash = m, u_auth = auth_example, u_counter_fs = ix_example,
     limit_response = RESPONSE_WIPE_STATE,
     delay_timer = \<lparr>tm_name = ''unlock'', tm_handle = Some 9, tm_active = False\<rparr>,
     unlock_initialized = True, u_wipes = 0, u_glitches = 0\<rparr>"

lemma unlock_example_provisioned:
  assumes "ix_log ix_example m 8 es"
  shows "provisioned unlock_platform ram_files ram_open example_secret 8 es (unlock_example m)"
proof -
  let ?b = "replicate AES_GCM_IV_LENGTH (0 :: u8) @ replicate UNLOCK_SECRET_SIZE (9 XOR 5) @ replicate AES_GCM_TAG_LENGTH 5"
  have "is_blob ram_crypto (replicate WKEK_SIZE 5) example_secret ?b"
    by (rule is_blobI [where c = 0]) (simp_all add: ram_crypto_def example_secret_def)
  moreover have "take (length example_secret + AES_GCM_OVERHEAD) ?b = ?b"
    by (simp add: example_secret_def)
  ultimately have "sealed ram_crypto ram_files (u_wallet (unlock_example m)) UNLOCK_SECRET_PATH example_secret"
    unfolding sealed_def
    by (intro exI [of _ "replicate WKEK_SIZE 5"] exI [of _ ?b])
      (simp add: unlock_example_def wallet_example_def key_file_def UNLOCK_SECRET_PATH_def WKEK_PATH_def)
  moreover have "wkek_ready ram_files ram_open (u_wallet (unlock_example m))"
    by (simp add: wkek_ready_def wallet_example_def unlock_example_def ram_fs_idle key_file_def
        pool_ok_def region_ok_def UNLOCK_SECRET_PATH_def WKEK_PATH_def)
  ultimately show ?thesis
    using assms by (simp add: provisioned_def unlock_platform_def unlock_example_def example_secret_def)
qed

lemma example_increment:
  assumes log: "ix_log ix_example m 8 es" and room: "Suc (magic_offset + length es) < 8"
    and c: "unat (log_count es) < 60000"
  obtains m' where "indexfs_increment ram_flash ix_example m = (True, m')"
    "indexfs_count ix_example m' = ucast (log_count es) + 1" "indexfs_get_flag ix_example m' = Some 0xF"
proof -
  obtain m' where i: "indexfs_increment ram_flash ix_example m = (True, m')"
    using count_of_log [OF log] c
    by (simp add: indexfs_increment_def indexfs_monotonic_increment_def ram_flash_def Let_def)
  from ramf.increment_log [OF log room i] obtain es' where
    e: "ix_log ix_example m' 8 es'" "unat (log_count es') = Suc (unat (log_count es))" "log_flag es' = 0xF"
    by blast
  have "indexfs_count ix_example m' = ucast (log_count es) + 1"
  proof (rule word_unat_eq_iff [THEN iffD2])
    show "unat (indexfs_count ix_example m') = unat (ucast (log_count es) + 1 :: u32)"
      using e(2) c count_log_u32 [OF e(1)] by (simp add: unat_plus_no_wrap)
  qed
  with i e that get_flag_log [OF e(1)] show thesis by simp
qed

lemma example_compare: "compare_secrets (replicate UNLOCK_SECRET_SIZE 1) example_secret \<noteq> SECURE_TRUE"
  by (subst compare_secrets_iff) (simp_all add: example_secret_def)

lemmas unlock_exec_defs = unlock_check_secret_def unlock_secret_exists_def retry_counter_read_def
  get_remaining_delay_ms_def retry_counter_write_def unlock_secret_read_def unlock_wrong_secret_def
  begin_delay_def get_delay_for_retry_count_def retry_counter_read_delay_period_status_def
  perform_limit_response_def unlock_perform_wipe_state_def sleep_inhibit_def restart_if_running_def
  restart_power_timer_def timer_defs

lemmas unlock_example_defs = unlock_platform_def unlock_example_def wallet_example_def auth_example_def
  sleep_example_def kernel_example_def WKEK_PATH_def UNLOCK_SECRET_PATH_def

text \<open>A wrong secret on the example device, with the counter at 0 or at 5.\<close>

lemma example_attempt:
  assumes log: "ix_log ix_example m 8 es" "Suc (magic_offset + length es) < 8"
    and c: "log_count es = 0 \<or> log_count es = 5"
  shows "\<exists>out s'. unlock_check_secret unlock_platform {} (replicate UNLOCK_SECRET_SIZE 1) (0, 0)
     (unlock_example m) = Some (UNLOCK_WRONG_SECRET, out, s')"
proof -
  have "unat (log_count es) < 60000" using c by auto
  from example_increment [OF log this] obtain m' where
    i: "indexfs_increment ram_flash ix_example m = (True, m')"
    "indexfs_count ix_example m' = ucast (log_count es) + 1" "indexfs_get_flag ix_example m' = Some 0xF"
    by blast
  have n: "indexfs_count ix_example m = ucast (log_count es)" using log(1) by (rule count_log_u32)
  from c show ?thesis
    using i n example_compare [unfolded example_secret_def]
    by (elim disjE; simp add: unlock_exec_defs unlock_example_defs wkek_exec_defs fs_exec_defs
        ram_defs ram_fs_def delay_table_def)
qed

theorem unlock_attempt_outcomes_witness:
  "\<exists>out s'. unlock_check_secret unlock_platform {} (replicate UNLOCK_SECRET_SIZE 1) (0, 0)
       (unlock_example (\<lambda>_. - 1)) = Some (UNLOCK_WRONG_SECRET, out, s') \<and>
     unat (u_count s') = Suc 0 \<and> sys_auth (u_auth s') = sys_auth auth_example"
proof -
  have c: "log_count [] = 0" by (simp add: log_count_def)
  obtain out s' where a: "unlock_check_secret unlock_platform {} (replicate UNLOCK_SECRET_SIZE 1) (0, 0)
       (unlock_example (\<lambda>_. - 1)) = Some (UNLOCK_WRONG_SECRET, out, s')"
    using example_attempt [OF ix_log_erased] c by auto
  have "u_count (unlock_example (\<lambda>_. - 1)) = 0"
    using count_log_u32 [OF ix_log_erased] c by (simp add: unlock_example_def)
  with unlock_attempt_outcomes [OF ramu.unlock_env_axioms
      unlock_example_provisioned [OF ix_log_erased] _ _ _ a, of 0] a
  show ?thesis by (simp add: unlock_example_def)
qed

text \<open>C3: The delay after a failed attempt is enforced.  From the fourth counted failure on, the
  delay is at least ten seconds, and every attempt made before it has passed -- with any secret,
  even the right one, and with faults -- is refused without being counted.\<close>

theorem unlock_delay_enforced:
  assumes "unlock_env P content opened armed" "provisioned P content opened stored cap es s"
    and "Suc (magic_offset + length es) < cap" "length secret = UNLOCK_SECRET_SIZE" "flip \<subseteq> {i}"
    and "unlock_check_secret P flip secret out s = Some (res, out', s')"
    and "res = UNLOCK_WRONG_SECRET \<or> res = UNLOCK_LIMIT_RESPONSE_TAKEN"
    and "tm_handle (delay_timer s) = Some h" "4 \<le> unat (u_count s')"
    and "armed k h = armed (sys_kernel (u_auth s')) h"
    and "xTaskGetTickCount (p_rtos P) k = xTaskGetTickCount (p_rtos P) (sys_kernel (u_auth s')) + d"
    and "d < delay_for (unat (u_count s'))"
  shows "10000 \<le> delay_for (unat (u_count s')) \<and>
    (\<exists>s''. unlock_check_secret P flip2 secret2 out2 (s'\<lparr>u_auth := (u_auth s')\<lparr>sys_kernel := k\<rparr>\<rparr>) =
       Some (UNLOCK_WAITING_ON_DELAY, (delay_for (unat (u_count s')) - d, u_count s'), s'') \<and>
     u_flash s'' = u_flash s')"
proof -
  let ?D = "delay_for (unat (u_count s'))" and ?t = "s'\<lparr>u_auth := (u_auth s')\<lparr>sys_kernel := k\<rparr>\<rparr>"
  obtain es' where pv: "provisioned P content opened stored cap es' s'" and ds: "delay_started P armed h s'"
    using unlock_env.check_secret_cases [OF assms(1-6)] assms(7-9) by (elim conjE disjE) auto
  let ?e = "xTaskGetTickCount (p_rtos P) (sys_kernel (u_auth s')) + ?D"
  have "get_remaining_delay_ms P ?t = Some (?e - xTaskGetTickCount (p_rtos P) (sys_kernel (u_auth ?t)))"
    using ds assms(10)
    by (intro unlock_env.remaining_armed [OF assms(1), of _ h]) (simp_all add: delay_started_def)
  then have rm: "get_remaining_delay_ms P ?t = Some (?D - d)" using assms(11) by simp
  have "0 < ?D - d" using assms(12) by (simp add: word_gt_0)
  from unlock_env.check_waits [OF assms(1) _ rm this] pv delay_for_positive [OF assms(9)]
  show ?thesis by fastforce
qed

theorem unlock_delay_enforced_witness:
  "\<exists>m out s' s''. unlock_check_secret unlock_platform {} (replicate UNLOCK_SECRET_SIZE 1) (0, 0)
       (unlock_example m) = Some (UNLOCK_WRONG_SECRET, out, s') \<and>
     unlock_check_secret unlock_platform {} example_secret (0, 0)
       (s'\<lparr>u_auth := (u_auth s')\<lparr>sys_kernel := (sys_kernel (u_auth s'))\<lparr>rk_tick :=
          rk_tick (sys_kernel (u_auth s')) + 1000\<rparr>\<rparr>\<rparr>) = Some (UNLOCK_WAITING_ON_DELAY, (59000, 6), s'')"
proof -
  let ?e = "mk_entry 5 CLEAR_FALSE FLAGS_EMPTY"
  let ?m = "(\<lambda>_. - 1)(ix_ptr ix_example 3 := ?e)"
  have "ix_ptr ix_example i \<noteq> ix_ptr ix_example 3" if "4 \<le> i" "i < 8" for i
    using ix_ptr_inj [of i 3 ix_example] that by auto
  then have log: "ix_log ix_example ?m 8 [?e]" by (auto simp: ix_log_def ix_word_def)
  have c: "log_count [?e] = 5" by (simp add: log_count_def count_step_def)
  obtain out s' where a: "unlock_check_secret unlock_platform {} (replicate UNLOCK_SECRET_SIZE 1) (0, 0)
       (unlock_example ?m) = Some (UNLOCK_WRONG_SECRET, out, s')"
    using example_attempt [OF log] c by auto
  note pv = unlock_example_provisioned [OF log]
  have "u_count (unlock_example ?m) = 5"
    using count_log_u32 [OF log] c by (simp add: unlock_example_def)
  then have "unat (u_count s') = 6"
    using ramu.check_secret_cases [OF pv _ _ _ a, of 0] by (simp split: if_splits)
  then have n: "u_count s' = 6" by (simp add: word_unat_eq_iff)
  let ?k = "(sys_kernel (u_auth s'))\<lparr>rk_tick := rk_tick (sys_kernel (u_auth s')) + 1000\<rparr>"
  have d: "delay_for 6 = 60000" by (simp add: delay_for_def delay_table_def)
  have "\<exists>s''. unlock_check_secret unlock_platform {} example_secret (0, 0)
      (s'\<lparr>u_auth := (u_auth s')\<lparr>sys_kernel := ?k\<rparr>\<rparr>) = Some (UNLOCK_WAITING_ON_DELAY, (59000, 6), s'')"
    using unlock_delay_enforced [OF ramu.unlock_env_axioms pv _ _ _ a, of 0 9 ?k 1000 "{}" example_secret "(0, 0)"]
      n d by (auto simp: unlock_platform_def unlock_example_def)
  with a show ?thesis by blast
qed

text \<open>What someone who tries secrets can bring about: guesses, time passing with any effect on
  the kernel, and the end of a delay.  The run also counts the guesses that were compared; it
  ends early when storage fails.\<close>

datatype 'k guess_event = Guess bytes | Kernel 'k | Delay_Done

fun guess_run ::
  "('m, 'c, 'k) platform \<Rightarrow> 'k guess_event list \<Rightarrow> ('m, 'c, 'k) unlock_sys \<Rightarrow>
   (nat \<times> ('m, 'c, 'k) unlock_sys) option" where
  "guess_run P [] s = Some (0, s)"
| "guess_run P (Guess g # evs) s =
     do { (res, _, s) \<leftarrow> unlock_check_secret P {} g (0, 0) s;
          if res = UNLOCK_WAITING_ON_DELAY then guess_run P evs s
          else if res = UNLOCK_WRONG_SECRET \<or> res = UNLOCK_LIMIT_RESPONSE_TAKEN
          then do { (n, s) \<leftarrow> guess_run P evs s; Some (Suc n, s) }
          else None }"
| "guess_run P (Kernel k # evs) s = guess_run P evs (s\<lparr>u_auth := (u_auth s)\<lparr>sys_kernel := k\<rparr>\<rparr>)"
| "guess_run P (Delay_Done # evs) s =
     (if fst (retry_counter_write_delay_period_status P DELAY_COMPLETE s) \<noteq> UNLOCK_OK then None
      else do { s \<leftarrow> delay_callback P s; guess_run P evs s })"

context unlock_env
begin

lemma delay_done_keeps:
  assumes pv: "provisioned P content opened stored cap es s" and room: "Suc (magic_offset + length es) < cap"
    and ok: "fst (retry_counter_write_delay_period_status P DELAY_COMPLETE s) = UNLOCK_OK"
    and d: "delay_callback P s = Some s'"
  shows "(\<exists>es'. length es' = Suc (length es) \<and> provisioned P content opened stored cap es' s') \<and>
    u_count s' = u_count s \<and> u_wipes s' = u_wipes s \<and> limit_response s' = limit_response s \<and>
    sys_auth (u_auth s') = sys_auth (u_auth s)"
proof -
  have log: "ix_log (u_counter_fs s) (u_flash s) cap es" using pv by (simp add: provisioned_def)
  obtain m where sf: "indexfs_set_flag (p_flash P) (u_counter_fs s) DELAY_COMPLETE (u_flash s) = (True, m)"
    using ok by (auto simp: retry_counter_write_delay_period_status_def split: prod.splits if_splits)
  from fl.set_flag_log [OF log room sf] obtain es' where e: "ix_log (u_counter_fs s) m cap es'"
    "length es' = Suc (length es)" "log_count es' = log_count es" by blast
  obtain t k where s': "s' = s\<lparr>u_flash := m, delay_timer := t, u_auth := (u_auth s)\<lparr>sys_kernel := k\<rparr>\<rparr>"
    using d sf by (auto simp: delay_callback_def retry_counter_write_delay_period_status_def
        unlock_stop_timer_def bind_eq_Some_conv)
  have "u_count s' = u_count s"
    using count_log_u32 [OF log] count_log_u32 [OF e(1)] e(3) s' by simp
  then show ?thesis using pv e s' by (auto simp: provisioned_def)
qed

lemma guess_run_counts:
  assumes "guess_run P evs s = Some (n, s')" "provisioned P content opened stored cap es s"
    and "\<forall>g. Guess g \<in> set evs \<longrightarrow> length g = UNLOCK_SECRET_SIZE"
    and "Suc (magic_offset + length es + length evs) < cap"
  shows "unat (u_count s') = unat (u_count s) + n \<and>
    (if limit_response s = RESPONSE_WIPE_STATE
     then u_wipes s' + (unat (u_count s) - ATTEMPT_LIMIT) = u_wipes s + (unat (u_count s') - ATTEMPT_LIMIT)
     else u_wipes s' = u_wipes s) \<and>
    sys_auth (u_auth s') = sys_auth (u_auth s)"
  using assms
proof (induction evs arbitrary: s es n)
  case (Cons ev evs)
  have room: "Suc (magic_offset + length es) < cap" using Cons.prems(4) by simp
  show ?case
  proof (cases ev)
    case (Kernel k)
    then show ?thesis
      using Cons.IH [of "s\<lparr>u_auth := (u_auth s)\<lparr>sys_kernel := k\<rparr>\<rparr>" n es] Cons.prems by (simp split: if_splits)
  next
    case Delay_Done
    then obtain s1 where d: "delay_callback P s = Some s1" "guess_run P evs s1 = Some (n, s')"
      "fst (retry_counter_write_delay_period_status P DELAY_COMPLETE s) = UNLOCK_OK"
      using Cons.prems(1) by (auto simp: bind_eq_Some_conv split: if_splits)
    note k = delay_done_keeps [OF Cons.prems(2) room d(3,1)]
    then obtain es' where "length es' = Suc (length es)" "provisioned P content opened stored cap es' s1" by blast
    with k Cons.IH [OF d(2), of es'] Cons.prems(3,4) show ?thesis by (simp split: if_splits)
  next
    case (Guess g)
    then obtain res out s1 where c: "unlock_check_secret P {} g (0, 0) s = Some (res, out, s1)"
      and r: "(if res = UNLOCK_WAITING_ON_DELAY then guess_run P evs s1
          else if res = UNLOCK_WRONG_SECRET \<or> res = UNLOCK_LIMIT_RESPONSE_TAKEN
          then do { (n, s) \<leftarrow> guess_run P evs s1; Some (Suc n, s) } else None) = Some (n, s')"
      using Cons.prems(1) by (auto simp: bind_eq_Some_conv)
    have len: "length g = UNLOCK_SECRET_SIZE" using Cons.prems(3) Guess by simp
    note cc = check_secret_cases [OF Cons.prems(2) room len _ c, of 0]
    have lr: "limit_response s1 = limit_response s" using cc by (simp add: attempt_frame_def)
    show ?thesis
    proof (cases "res = UNLOCK_WAITING_ON_DELAY")
      case True
      then have g: "guess_run P evs s1 = Some (n, s')" using r by simp
      have k: "provisioned P content opened stored cap es s1" "u_flash s1 = u_flash s"
        "u_wipes s1 = u_wipes s" "u_auth s1 = u_auth s" "u_counter_fs s1 = u_counter_fs s"
        using cc True by (auto simp: attempt_frame_def split: if_splits)
      show ?thesis using Cons.IH [OF g k(1)] Cons.prems(3,4) lr k by (simp split: if_splits)
    next
      case False
      then obtain n1 where g: "guess_run P evs s1 = Some (n1, s')" and n: "n = Suc n1"
        and w: "res = UNLOCK_WRONG_SECRET \<or> res = UNLOCK_LIMIT_RESPONSE_TAKEN"
        using r by (auto simp: bind_eq_Some_conv split: if_splits)
      obtain es' where k: "length es' = Suc (length es)" "provisioned P content opened stored cap es' s1"
        "unat (u_count s1) = Suc (unat (u_count s))" "sys_auth (u_auth s1) = sys_auth (u_auth s)"
        "u_wipes s1 = u_wipes s + (if ATTEMPT_LIMIT \<le> unat (u_count s) \<and>
            limit_response s = RESPONSE_WIPE_STATE then 1 else 0)"
        using cc w by (elim conjE disjE) auto
      have "unat (u_count s') = unat (u_count s1) + n1 \<and>
          (if limit_response s = RESPONSE_WIPE_STATE
           then u_wipes s' + (unat (u_count s1) - ATTEMPT_LIMIT) = u_wipes s1 + (unat (u_count s') - ATTEMPT_LIMIT)
           else u_wipes s' = u_wipes s1) \<and>
          sys_auth (u_auth s') = sys_auth (u_auth s1)"
        using Cons.IH [OF g k(2)] Cons.prems(3,4) lr k(1) by simp
      then show ?thesis using k(3-5) n by (auto split: if_splits)
    qed
  qed
qed simp

end

text \<open>C4: Trying secrets: in any run of wrong guesses, elapsing time and ending delays, every guess
  that was compared has been counted and nobody was authenticated.  If the limit response is to
  wipe, each guess made with the counter at the limit or beyond has wiped the device; under any
  other response (a delay) none has.  The counter's flash page must have room for an entry per
  event.\<close>

theorem unlock_guesses_bounded:
  assumes "unlock_env P content opened armed" "provisioned P content opened stored cap es s"
    and "guess_run P evs s = Some (n, s')"
    and "\<forall>g. Guess g \<in> set evs \<longrightarrow> length g = UNLOCK_SECRET_SIZE"
    and "Suc (magic_offset + length es + length evs) < cap"
  shows "unat (u_count s') = unat (u_count s) + n \<and>
    u_wipes s' = u_wipes s +
      (if limit_response s = RESPONSE_WIPE_STATE
       then (unat (u_count s) + n - ATTEMPT_LIMIT) - (unat (u_count s) - ATTEMPT_LIMIT) else 0) \<and>
    sys_auth (u_auth s') = sys_auth (u_auth s)"
  using unlock_env.guess_run_counts [OF assms(1,3,2,4,5)] by (auto split: if_splits)

theorem unlock_guesses_bounded_witness:
  "\<exists>s'. guess_run unlock_platform [Kernel kernel_example, Guess (replicate UNLOCK_SECRET_SIZE 1)]
       (unlock_example (\<lambda>_. - 1)) = Some (1, s') \<and> unat (u_count s') = 1"
proof -
  have c: "log_count [] = 0" by (simp add: log_count_def)
  obtain out s' where a: "unlock_check_secret unlock_platform {} (replicate UNLOCK_SECRET_SIZE 1) (0, 0)
       (unlock_example (\<lambda>_. - 1)) = Some (UNLOCK_WRONG_SECRET, out, s')"
    using example_attempt [OF ix_log_erased] c by auto
  have "u_auth (unlock_example (\<lambda>_. - 1)) = (u_auth (unlock_example (\<lambda>_. - 1)))\<lparr>sys_kernel := kernel_example\<rparr>"
    by (simp add: unlock_example_def auth_example_def)
  then have k: "(unlock_example (\<lambda>_. - 1))\<lparr>u_auth := (u_auth (unlock_example (\<lambda>_. - 1)))\<lparr>sys_kernel := kernel_example\<rparr>\<rparr> =
    unlock_example (\<lambda>_. - 1)" by (simp add: unlock_example_def)
  have r: "guess_run unlock_platform [Kernel kernel_example, Guess (replicate UNLOCK_SECRET_SIZE 1)]
       (unlock_example (\<lambda>_. - 1)) = Some (1, s')"
    using a by (simp add: k)
  have z: "u_count (unlock_example (\<lambda>_. - 1)) = 0"
    using count_log_u32 [OF ix_log_erased] c by (simp add: unlock_example_def)
  have l: "limit_response (unlock_example (\<lambda>_. - 1)) = RESPONSE_WIPE_STATE" by (simp add: unlock_example_def)
  from unlock_guesses_bounded [OF ramu.unlock_env_axioms unlock_example_provisioned [OF ix_log_erased] r] z l r
  show ?thesis by simp
qed

text \<open>The counter's file system in the slot that is not running.\<close>

definition counter_fs :: "('m, 'c, 'k) platform \<Rightarrow> u32 \<Rightarrow> indexfs_t" where
  "counter_fs P a = \<lparr>ix_type = INDEXFS_TYPE_MONOTONIC, ix_address = a,
     ix_size = unat (MCU_FLASH_PAGE_SIZE (p_flash P))\<rparr>"

text \<open>C13: Resetting the device does not skip the delay: when the counter in flash says that the
  delay of the last attempt was not waited out, booting keeps the count and starts the whole delay
  again.\<close>

theorem unlock_delay_survives_reset:
  assumes "unlock_env P content opened armed" "fwup_target_slot_address (p_layout P) = Some a"
    and "indexfs_monotonic_valid (counter_fs P a) (u_flash s)" "ix_log (counter_fs P a) (u_flash s) cap es"
    and "log_flag es \<noteq> DELAY_COMPLETE" "4 \<le> unat (log_count es)"
    and "unlock_init_and_begin_delay P s = Some s'"
  shows "unat (u_count s') = unat (log_count es) \<and> (\<exists>h. delay_started P armed h s')"
proof -
  have st: "unlock_storage_init P s = Some (UNLOCK_OK, s\<lparr>u_counter_fs := counter_fs P a\<rparr>)"
    using assms(2,3)
    by (simp add: unlock_storage_init_def counter_fs_def indexfs_create_static_def Let_def
        indexfs_monotonic_init_def indexfs_monotonic_valid_def)
  obtain s1 h where b: "begin_delay P (u_count s1) s1 = Some s'" and h: "tm_handle (delay_timer s1) = Some h"
    and s1: "u_flash s1 = u_flash s" "u_counter_fs s1 = counter_fs P a"
    using assms(7) st
    by (auto simp: unlock_init_and_begin_delay_def Let_def bind_eq_Some_conv retry_counter_read_def
        limit_response_read_def rtos_timer_create_static_def split: if_splits prod.splits)
  have log: "ix_log (u_counter_fs s1) (u_flash s1) cap es" using assms(4) s1 by simp
  have n: "unat (u_count s1) = unat (log_count es)"
    using count_log_u32 [OF log] by simp
  note d = get_delay_incomplete [OF log assms(5)]
  have "get_delay_for_retry_count (u_count s1) s1 \<noteq> 0"
    unfolding d using delay_for_positive [of "unat (u_count s1)"] n assms(6) by auto
  note ar = unlock_env.begin_delay_arms [OF assms(1) b this h, unfolded d]
  have c: "u_count s' = u_count s1" using b by (rule begin_delay_frame) simp
  show ?thesis using ar n unfolding delay_started_def c by blast
qed

theorem unlock_delay_survives_reset_witness:
  "\<exists>m s' h. unlock_init_and_begin_delay unlock_platform (unlock_example m) = Some s' \<and>
     unat (u_count s') = 5 \<and> delay_started unlock_platform rk_armed h s'"
proof -
  let ?e = "mk_entry 5 CLEAR_FALSE FLAGS_EMPTY" and ?fs = "counter_fs unlock_platform 0x4000"
  let ?m = "(\<lambda>_. - 1)(0x4000 := INDEXFS_MONOTONIC_MAGIC ! 0, 0x4004 := INDEXFS_MONOTONIC_MAGIC ! 1, 0x400C := ?e)"
  have fs: "ix_address ?fs = 0x4000" "ix_size ?fs = 0x2000" "ix_type ?fs = INDEXFS_TYPE_MONOTONIC"
    by (simp_all add: counter_fs_def unlock_platform_def ram_flash_def)
  have "i \<in> {4, 5, 6, 7}" if "4 \<le> i" "i < 8" for i :: nat using that by auto
  then have log: "ix_log ?fs ?m 8 [?e]" by (fastforce simp: ix_log_def ix_word_def ix_ptr_def fs)
  have v: "indexfs_monotonic_valid ?fs ?m"
    by (simp add: indexfs_monotonic_valid_def magic_exists_def ix_word_def ix_ptr_def fs)
  have t: "fwup_target_slot_address (p_layout unlock_platform) = Some 0x4000"
    by (simp add: unlock_platform_def fwup_target_slot_address_def)
  have c: "log_count [?e] = 5" "log_flag [?e] = 0xF" by (simp_all add: log_count_def count_step_def log_flag_def)
  have n: "indexfs_count ?fs ?m = 5" "indexfs_get_flag ?fs ?m = Some 0xF"
    using count_log_u32 [OF log] get_flag_log [OF log] c by simp_all
  have "unlock_init_and_begin_delay unlock_platform (unlock_example ?m) \<noteq> None"
    using v t n
    by (simp add: unlock_init_and_begin_delay_def unlock_storage_init_def indexfs_create_static_def
      indexfs_monotonic_init_def indexfs_monotonic_valid_def limit_response_read_def
      read_from_filesystem_def write_to_filesystem_def unlock_exec_defs unlock_example_defs
      fs_exec_defs ram_defs ram_fs_def delay_table_def counter_fs_def ram_flash_def LIMIT_RESPONSE_PATH_def)
  then obtain s' where s': "unlock_init_and_begin_delay unlock_platform (unlock_example ?m) = Some s'" by blast
  have f: "u_flash (unlock_example ?m) = ?m" by (simp add: unlock_example_def)
  from unlock_delay_survives_reset [OF ramu.unlock_env_axioms t _ _ _ _ s', unfolded f, OF v log] c s'
  show ?thesis by fastforce
qed

text \<open>On a boot that cannot read the limit response the configured default is written to the file,
  but the response in use stays the initial one.\<close>

lemma unlock_first_boot_response:
  assumes "unlock_init_and_begin_delay P s = Some s'"
    and "read_from_filesystem (p_lfs P) LIMIT_RESPONSE_PATH [0] (u_fs s) = Some (UNLOCK_STORAGE_ERR, bs, fs)"
  shows "limit_response s' = limit_response s"
proof -
  obtain s1 n where b: "begin_delay P n s1 = Some s'" and s1: "limit_response s1 = limit_response s"
    using assms
    by (auto simp: unlock_init_and_begin_delay_def unlock_storage_init_def Let_def bind_eq_Some_conv
        retry_counter_read_def limit_response_read_def split: if_splits)
  from b have "limit_response s' = limit_response s1" by (rule begin_delay_frame) simp
  with s1 show ?thesis by simp
qed

end
