(* ===== verification/Ripemd160.thy ===== *)
theory Ripemd160
  imports Prelude
begin

text \<open>
  The hash function of \<open>lib/crypto/src/ripemd160.c\<close>: the unrolled compression function over the
  ten local registers, the buffering update and the padding.  It is proved to compute RIPEMD-160
  as the standard defines it.
\<close>

section \<open>Model of the code\<close>

record mbedtls_ripemd160_context =
  rmd_total :: "u32 \<times> u32"
  rmd_state :: "u32 list"
  rmd_buffer :: bytes

definition mbedtls_ripemd160_starts :: "mbedtls_ripemd160_context \<Rightarrow> int \<times> mbedtls_ripemd160_context" where
  "mbedtls_ripemd160_starts ctx =
     (0, ctx\<lparr>rmd_total := (0, 0),
             rmd_state := [0x67452301, 0xEFCDAB89, 0x98BADCFE, 0x10325476, 0xC3D2E1F0]\<rparr>)"

definition GET_UINT32_LE :: "bytes \<Rightarrow> nat \<Rightarrow> u32" where
  "GET_UINT32_LE data off = ucast (data ! off) OR push_bit 8 (ucast (data ! (off + 1))) OR
     push_bit 16 (ucast (data ! (off + 2))) OR push_bit 24 (ucast (data ! (off + 3)))"

definition PUT_UINT32_LE :: "u32 \<Rightarrow> bytes" where
  "PUT_UINT32_LE n = [ucast (n AND 0xff), ucast (drop_bit 8 n AND 0xff), ucast (drop_bit 16 n AND 0xff),
     ucast (drop_bit 24 n AND 0xff)]"

definition F1 :: "u32 \<Rightarrow> u32 \<Rightarrow> u32 \<Rightarrow> u32" where "F1 x y z = x XOR y XOR z"
definition F2 :: "u32 \<Rightarrow> u32 \<Rightarrow> u32 \<Rightarrow> u32" where "F2 x y z = (x AND y) OR (NOT x AND z)"
definition F3 :: "u32 \<Rightarrow> u32 \<Rightarrow> u32 \<Rightarrow> u32" where "F3 x y z = (x OR NOT y) XOR z"
definition F4 :: "u32 \<Rightarrow> u32 \<Rightarrow> u32 \<Rightarrow> u32" where "F4 x y z = (x AND z) OR (y AND NOT z)"
definition F5 :: "u32 \<Rightarrow> u32 \<Rightarrow> u32 \<Rightarrow> u32" where "F5 x y z = x XOR (y OR NOT z)"

definition rmd_S :: "u32 \<Rightarrow> nat \<Rightarrow> u32" where
  "rmd_S x n = push_bit n x OR drop_bit (32 - n) x"

text \<open>The local registers \<open>A\<close> to \<open>E\<close> are a list, and a register is its position.\<close>

abbreviation (input) rA :: nat where "rA \<equiv> 0"
abbreviation (input) rB :: nat where "rB \<equiv> 1"
abbreviation (input) rC :: nat where "rC \<equiv> 2"
abbreviation (input) rD :: nat where "rD \<equiv> 3"
abbreviation (input) rE :: nat where "rE \<equiv> 4"

type_synonym rmd_regs = "nat \<times> nat \<times> nat \<times> nat \<times> nat"
type_synonym rmd_row = "rmd_regs \<times> nat \<times> nat \<times> nat \<times> nat"

definition rmd_P ::
  "u32 list \<Rightarrow> rmd_regs \<Rightarrow> nat \<Rightarrow> nat \<Rightarrow> (u32 \<Rightarrow> u32 \<Rightarrow> u32 \<Rightarrow> u32) \<Rightarrow> u32 \<Rightarrow> u32 list \<Rightarrow> u32 list" where
  "rmd_P X regs r s f k l =
     (case regs of (a, b, c, d, e) \<Rightarrow>
        let l = l[a := l ! a + (f (l ! b) (l ! c) (l ! d) + X ! r + k)];
            l = l[a := rmd_S (l ! a) s + l ! e]
        in l[c := rmd_S (l ! c) 10])"

definition rmd_P2 ::
  "u32 list \<Rightarrow> (u32 \<Rightarrow> u32 \<Rightarrow> u32 \<Rightarrow> u32) \<Rightarrow> u32 \<Rightarrow> (u32 \<Rightarrow> u32 \<Rightarrow> u32 \<Rightarrow> u32) \<Rightarrow> u32 \<Rightarrow>
   u32 list \<times> u32 list \<Rightarrow> rmd_row \<Rightarrow> u32 list \<times> u32 list" where
  "rmd_P2 X F K Fp Kp ll row =
     (case (ll, row) of ((l, lp), (regs, r, s, rp, sp)) \<Rightarrow>
        (rmd_P X regs r s F K l, rmd_P X regs rp sp Fp Kp lp))"

definition rmd_rows1 :: "rmd_row list" where
  "rmd_rows1 =
    [((rA, rB, rC, rD, rE), 0, 11, 5, 8), ((rE, rA, rB, rC, rD), 1, 14, 14, 9),
     ((rD, rE, rA, rB, rC), 2, 15, 7, 9), ((rC, rD, rE, rA, rB), 3, 12, 0, 11),
     ((rB, rC, rD, rE, rA), 4, 5, 9, 13), ((rA, rB, rC, rD, rE), 5, 8, 2, 15),
     ((rE, rA, rB, rC, rD), 6, 7, 11, 15), ((rD, rE, rA, rB, rC), 7, 9, 4, 5),
     ((rC, rD, rE, rA, rB), 8, 11, 13, 7), ((rB, rC, rD, rE, rA), 9, 13, 6, 7),
     ((rA, rB, rC, rD, rE), 10, 14, 15, 8), ((rE, rA, rB, rC, rD), 11, 15, 8, 11),
     ((rD, rE, rA, rB, rC), 12, 6, 1, 14), ((rC, rD, rE, rA, rB), 13, 7, 10, 14),
     ((rB, rC, rD, rE, rA), 14, 9, 3, 12), ((rA, rB, rC, rD, rE), 15, 8, 12, 6)]"

definition rmd_rows2 :: "rmd_row list" where
  "rmd_rows2 =
    [((rE, rA, rB, rC, rD), 7, 7, 6, 9), ((rD, rE, rA, rB, rC), 4, 6, 11, 13),
     ((rC, rD, rE, rA, rB), 13, 8, 3, 15), ((rB, rC, rD, rE, rA), 1, 13, 7, 7),
     ((rA, rB, rC, rD, rE), 10, 11, 0, 12), ((rE, rA, rB, rC, rD), 6, 9, 13, 8),
     ((rD, rE, rA, rB, rC), 15, 7, 5, 9), ((rC, rD, rE, rA, rB), 3, 15, 10, 11),
     ((rB, rC, rD, rE, rA), 12, 7, 14, 7), ((rA, rB, rC, rD, rE), 0, 12, 15, 7),
     ((rE, rA, rB, rC, rD), 9, 15, 8, 12), ((rD, rE, rA, rB, rC), 5, 9, 12, 7),
     ((rC, rD, rE, rA, rB), 2, 11, 4, 6), ((rB, rC, rD, rE, rA), 14, 7, 9, 15),
     ((rA, rB, rC, rD, rE), 11, 13, 1, 13), ((rE, rA, rB, rC, rD), 8, 12, 2, 11)]"

definition rmd_rows3 :: "rmd_row list" where
  "rmd_rows3 =
    [((rD, rE, rA, rB, rC), 3, 11, 15, 9), ((rC, rD, rE, rA, rB), 10, 13, 5, 7),
     ((rB, rC, rD, rE, rA), 14, 6, 1, 15), ((rA, rB, rC, rD, rE), 4, 7, 3, 11),
     ((rE, rA, rB, rC, rD), 9, 14, 7, 8), ((rD, rE, rA, rB, rC), 15, 9, 14, 6),
     ((rC, rD, rE, rA, rB), 8, 13, 6, 6), ((rB, rC, rD, rE, rA), 1, 15, 9, 14),
     ((rA, rB, rC, rD, rE), 2, 14, 11, 12), ((rE, rA, rB, rC, rD), 7, 8, 8, 13),
     ((rD, rE, rA, rB, rC), 0, 13, 12, 5), ((rC, rD, rE, rA, rB), 6, 6, 2, 14),
     ((rB, rC, rD, rE, rA), 13, 5, 10, 13), ((rA, rB, rC, rD, rE), 11, 12, 0, 13),
     ((rE, rA, rB, rC, rD), 5, 7, 4, 7), ((rD, rE, rA, rB, rC), 12, 5, 13, 5)]"

definition rmd_rows4 :: "rmd_row list" where
  "rmd_rows4 =
    [((rC, rD, rE, rA, rB), 1, 11, 8, 15), ((rB, rC, rD, rE, rA), 9, 12, 6, 5),
     ((rA, rB, rC, rD, rE), 11, 14, 4, 8), ((rE, rA, rB, rC, rD), 10, 15, 1, 11),
     ((rD, rE, rA, rB, rC), 0, 14, 3, 14), ((rC, rD, rE, rA, rB), 8, 15, 11, 14),
     ((rB, rC, rD, rE, rA), 12, 9, 15, 6), ((rA, rB, rC, rD, rE), 4, 8, 0, 14),
     ((rE, rA, rB, rC, rD), 13, 9, 5, 6), ((rD, rE, rA, rB, rC), 3, 14, 12, 9),
     ((rC, rD, rE, rA, rB), 7, 5, 2, 12), ((rB, rC, rD, rE, rA), 15, 6, 13, 9),
     ((rA, rB, rC, rD, rE), 14, 8, 9, 12), ((rE, rA, rB, rC, rD), 5, 6, 7, 5),
     ((rD, rE, rA, rB, rC), 6, 5, 10, 15), ((rC, rD, rE, rA, rB), 2, 12, 14, 8)]"

definition rmd_rows5 :: "rmd_row list" where
  "rmd_rows5 =
    [((rB, rC, rD, rE, rA), 4, 9, 12, 8), ((rA, rB, rC, rD, rE), 0, 15, 15, 5),
     ((rE, rA, rB, rC, rD), 5, 5, 10, 12), ((rD, rE, rA, rB, rC), 9, 11, 4, 9),
     ((rC, rD, rE, rA, rB), 7, 6, 1, 12), ((rB, rC, rD, rE, rA), 12, 8, 5, 5),
     ((rA, rB, rC, rD, rE), 2, 13, 8, 14), ((rE, rA, rB, rC, rD), 10, 12, 7, 6),
     ((rD, rE, rA, rB, rC), 14, 5, 6, 8), ((rC, rD, rE, rA, rB), 1, 12, 2, 13),
     ((rB, rC, rD, rE, rA), 3, 13, 13, 6), ((rA, rB, rC, rD, rE), 8, 14, 14, 5),
     ((rE, rA, rB, rC, rD), 11, 11, 0, 15), ((rD, rE, rA, rB, rC), 6, 8, 3, 13),
     ((rC, rD, rE, rA, rB), 15, 5, 9, 11), ((rB, rC, rD, rE, rA), 13, 6, 11, 11)]"

definition mbedtls_internal_ripemd160_process ::
  "mbedtls_ripemd160_context \<Rightarrow> bytes \<Rightarrow> int \<times> mbedtls_ripemd160_context" where
  "mbedtls_internal_ripemd160_process ctx data =
     (let X = map (\<lambda>i. GET_UINT32_LE data (4 * i)) [0..<16];
          st = rmd_state ctx;
          ll = (st, st);
          ll = foldl (rmd_P2 X F1 0x00000000 F5 0x50A28BE6) ll rmd_rows1;
          ll = foldl (rmd_P2 X F2 0x5A827999 F4 0x5C4DD124) ll rmd_rows2;
          ll = foldl (rmd_P2 X F3 0x6ED9EBA1 F3 0x6D703EF3) ll rmd_rows3;
          ll = foldl (rmd_P2 X F4 0x8F1BBCDC F2 0x7A6D76E9) ll rmd_rows4;
          (l, lp) = foldl (rmd_P2 X F5 0xA953FD4E F1 0x00000000) ll rmd_rows5;
          c = st ! 1 + l ! rC + lp ! rD;
          st = st[1 := st ! 2 + l ! rD + lp ! rE];
          st = st[2 := st ! 3 + l ! rE + lp ! rA];
          st = st[3 := st ! 4 + l ! rA + lp ! rB];
          st = st[4 := st ! 0 + l ! rB + lp ! rC]
      in (0, ctx\<lparr>rmd_state := st[0 := c]\<rparr>))"

text \<open>The loop over whole blocks, and what it leaves of the input.\<close>

function update_blocks ::
  "mbedtls_ripemd160_context \<Rightarrow> bytes \<Rightarrow> int \<times> mbedtls_ripemd160_context \<times> bytes" where
  "update_blocks ctx input =
     (if 64 \<le> length input
      then case mbedtls_internal_ripemd160_process ctx (take 64 input) of (ret, ctx) \<Rightarrow>
        if ret \<noteq> 0 then (ret, ctx, input) else update_blocks ctx (drop 64 input)
      else (0, ctx, input))"
  by auto
termination by (relation "measure (\<lambda>(_, input). length input)") auto

declare update_blocks.simps [simp del]

text \<open>The end of the update: whole blocks of the input, then its rest into the buffer.\<close>

definition update_tail ::
  "mbedtls_ripemd160_context \<Rightarrow> bytes \<Rightarrow> nat \<Rightarrow> int \<times> mbedtls_ripemd160_context" where
  "update_tail ctx input left =
     (case update_blocks ctx input of (ret, ctx, input) \<Rightarrow>
        if ret \<noteq> 0 then (ret, ctx)
        else (0, if input \<noteq> [] then ctx\<lparr>rmd_buffer := mem_write (rmd_buffer ctx) left input\<rparr> else ctx))"

definition mbedtls_ripemd160_update ::
  "mbedtls_ripemd160_context \<Rightarrow> bytes \<Rightarrow> int \<times> mbedtls_ripemd160_context" where
  "mbedtls_ripemd160_update ctx input =
     (if input = [] then (0, ctx)
      else let left = unat (fst (rmd_total ctx) AND 0x3F);
               fill = 64 - left;
               ilen = word_of_nat (length input);
               t0 = fst (rmd_total ctx) + ilen;
               t1 = (if t0 < ilen then snd (rmd_total ctx) + 1 else snd (rmd_total ctx));
               ctx = ctx\<lparr>rmd_total := (t0, t1)\<rparr>
           in if left \<noteq> 0 \<and> fill \<le> length input
              then let ctx = ctx\<lparr>rmd_buffer := mem_write (rmd_buffer ctx) left (take fill input)\<rparr>
                   in case mbedtls_internal_ripemd160_process ctx (rmd_buffer ctx) of (ret, ctx) \<Rightarrow>
                     if ret \<noteq> 0 then (ret, ctx) else update_tail ctx (drop fill input) 0
              else update_tail ctx input left)"

definition ripemd160_padding :: bytes where
  "ripemd160_padding = 0x80 # replicate 63 0"

definition mbedtls_ripemd160_finish ::
  "mbedtls_ripemd160_context \<Rightarrow> int \<times> mbedtls_ripemd160_context \<times> bytes" where
  "mbedtls_ripemd160_finish ctx =
     (let (t0, t1) = rmd_total ctx;
          high = drop_bit 29 t0 OR push_bit 3 t1;
          low = push_bit 3 t0;
          msglen = PUT_UINT32_LE low @ PUT_UINT32_LE high;
          lst = unat (t0 AND 0x3F);
          padn = (if lst < 56 then 56 - lst else 120 - lst);
          (ret, ctx) = mbedtls_ripemd160_update ctx (take padn ripemd160_padding)
      in if ret \<noteq> 0 then (ret, ctx, [])
         else case mbedtls_ripemd160_update ctx msglen of (ret, ctx) \<Rightarrow>
           if ret \<noteq> 0 then (ret, ctx, [])
           else (0, ctx, concat (map PUT_UINT32_LE (rmd_state ctx))))"

definition mbedtls_ripemd160 :: "bytes \<Rightarrow> bool \<times> bytes" where
  "mbedtls_ripemd160 data =
     (let ctx = \<lparr>rmd_total = (0, 0), rmd_state = replicate 5 0, rmd_buffer = replicate 64 0\<rparr>;
          (ret, ctx) = mbedtls_ripemd160_starts ctx
      in if ret \<noteq> 0 then (False, [])
         else case mbedtls_ripemd160_update ctx data of (ret, ctx) \<Rightarrow>
           if ret \<noteq> 0 then (False, [])
           else case mbedtls_ripemd160_finish ctx of (ret, _, digest) \<Rightarrow> (ret = 0, digest))"

section \<open>The standard\<close>

text \<open>RIPEMD-160 as its authors define it: a message schedule, 80 steps on each of two lines, and the
  padding of the message with its length in bits.\<close>

type_synonym rmd_chain = "u32 \<times> u32 \<times> u32 \<times> u32 \<times> u32"

definition std_f :: "nat \<Rightarrow> u32 \<Rightarrow> u32 \<Rightarrow> u32 \<Rightarrow> u32" where
  "std_f j x y z =
     (if j < 16 then x XOR y XOR z
      else if j < 32 then (x AND y) OR (NOT x AND z)
      else if j < 48 then (x OR NOT y) XOR z
      else if j < 64 then (x AND z) OR (y AND NOT z)
      else x XOR (y OR NOT z))"

definition std_K :: "nat \<Rightarrow> u32" where
  "std_K j = [0x00000000, 0x5A827999, 0x6ED9EBA1, 0x8F1BBCDC, 0xA953FD4E] ! (j div 16)"

definition std_K' :: "nat \<Rightarrow> u32" where
  "std_K' j = [0x50A28BE6, 0x5C4DD124, 0x6D703EF3, 0x7A6D76E9, 0x00000000] ! (j div 16)"

definition std_r :: "nat list" where
  "std_r =
    [0, 1, 2, 3, 4, 5, 6, 7, 8, 9, 10, 11, 12, 13, 14, 15,
     7, 4, 13, 1, 10, 6, 15, 3, 12, 0, 9, 5, 2, 14, 11, 8,
     3, 10, 14, 4, 9, 15, 8, 1, 2, 7, 0, 6, 13, 11, 5, 12,
     1, 9, 11, 10, 0, 8, 12, 4, 13, 3, 7, 15, 14, 5, 6, 2,
     4, 0, 5, 9, 7, 12, 2, 10, 14, 1, 3, 8, 11, 6, 15, 13]"

definition std_r' :: "nat list" where
  "std_r' =
    [5, 14, 7, 0, 9, 2, 11, 4, 13, 6, 15, 8, 1, 10, 3, 12,
     6, 11, 3, 7, 0, 13, 5, 10, 14, 15, 8, 12, 4, 9, 1, 2,
     15, 5, 1, 3, 7, 14, 6, 9, 11, 8, 12, 2, 10, 0, 4, 13,
     8, 6, 4, 1, 3, 11, 15, 0, 5, 12, 2, 13, 9, 7, 10, 14,
     12, 15, 10, 4, 1, 5, 8, 7, 6, 2, 13, 14, 0, 3, 9, 11]"

definition std_s :: "nat list" where
  "std_s =
    [11, 14, 15, 12, 5, 8, 7, 9, 11, 13, 14, 15, 6, 7, 9, 8,
     7, 6, 8, 13, 11, 9, 7, 15, 7, 12, 15, 9, 11, 7, 13, 12,
     11, 13, 6, 7, 14, 9, 13, 15, 14, 8, 13, 6, 5, 12, 7, 5,
     11, 12, 14, 15, 14, 15, 9, 8, 9, 14, 5, 6, 8, 6, 5, 12,
     9, 15, 5, 11, 6, 8, 13, 12, 5, 12, 13, 14, 11, 8, 5, 6]"

definition std_s' :: "nat list" where
  "std_s' =
    [8, 9, 9, 11, 13, 15, 15, 5, 7, 7, 8, 11, 14, 14, 12, 6,
     9, 13, 15, 7, 12, 8, 9, 11, 7, 7, 12, 7, 6, 15, 13, 11,
     9, 7, 15, 11, 8, 6, 6, 14, 12, 13, 5, 14, 13, 13, 7, 5,
     15, 5, 8, 11, 14, 14, 6, 14, 6, 9, 12, 9, 12, 5, 15, 8,
     8, 5, 12, 9, 12, 5, 14, 6, 8, 13, 6, 5, 15, 13, 11, 11]"

definition std_line ::
  "(nat \<Rightarrow> u32 \<Rightarrow> u32 \<Rightarrow> u32 \<Rightarrow> u32) \<Rightarrow> (nat \<Rightarrow> u32) \<Rightarrow> nat list \<Rightarrow> nat list \<Rightarrow> u32 list \<Rightarrow>
   rmd_chain \<Rightarrow> nat \<Rightarrow> rmd_chain" where
  "std_line f K r s X h j =
     (case h of (A, B, C, D, E) \<Rightarrow>
        (E, word_rotl (s ! j) (A + f j B C D + X ! (r ! j) + K j) + E, B, word_rotl 10 C, D))"

definition std_left :: "u32 list \<Rightarrow> rmd_chain \<Rightarrow> nat \<Rightarrow> rmd_chain" where
  "std_left = std_line std_f std_K std_r std_s"

definition std_right :: "u32 list \<Rightarrow> rmd_chain \<Rightarrow> nat \<Rightarrow> rmd_chain" where
  "std_right = std_line (\<lambda>j. std_f (79 - j)) std_K' std_r' std_s'"

definition std_compress :: "u32 list \<Rightarrow> rmd_chain \<Rightarrow> rmd_chain" where
  "std_compress X h =
     (case (h, foldl (std_left X) h [0..<80], foldl (std_right X) h [0..<80]) of
        ((h0, h1, h2, h3, h4), (A, B, C, D, E), (A', B', C', D', E')) \<Rightarrow>
          (h1 + C + D', h2 + D + E', h3 + E + A', h4 + A + B', h0 + B + C'))"

definition std_words :: "bytes \<Rightarrow> u32 list" where
  "std_words block = map (\<lambda>i. of_le32 (drop (4 * i) block)) [0..<16]"

function std_blocks :: "rmd_chain \<Rightarrow> bytes \<Rightarrow> rmd_chain" where
  "std_blocks h msg =
     (if 64 \<le> length msg then std_blocks (std_compress (std_words (take 64 msg)) h) (drop 64 msg) else h)"
  by auto
termination by (relation "measure (\<lambda>(_, msg). length msg)") auto

declare std_blocks.simps [simp del]

text \<open>The length in bits as eight bytes, least significant first.\<close>

definition std_pad :: "bytes \<Rightarrow> bytes" where
  "std_pad msg =
     msg @ 0x80 # replicate ((119 - length msg mod 64) mod 64) 0 @
     map (\<lambda>i. word_of_nat (8 * length msg div 256 ^ i)) [0..<8]"

definition rmd160 :: "bytes \<Rightarrow> bytes" where
  "rmd160 msg =
     (case std_blocks (0x67452301, 0xEFCDAB89, 0x98BADCFE, 0x10325476, 0xC3D2E1F0) (std_pad msg) of
        (h0, h1, h2, h3, h4) \<Rightarrow> concat (map le32 [h0, h1, h2, h3, h4]))"

section \<open>One block\<close>

lemma rmd_S_rotl:
  assumes "0 < n" "n < 32"
  shows "rmd_S x n = word_rotl n x"
proof (rule bit_word_eqI)
  fix i assume "i < LENGTH(32)"
  then show "bit (rmd_S x n) i = bit (word_rotl n x) i"
    using assms
    by (cases "n \<le> i")
      (auto simp: rmd_S_def bit_or_iff bit_push_bit_iff bit_drop_bit_eq bit_word_rotl_iff
        mod_if not_le add.commute [of _ i] dest: bit_imp_le_length)
qed

text \<open>The registers of step \<open>j\<close>: the code rotates their names instead of their contents.\<close>

definition regs_at :: "nat \<Rightarrow> rmd_regs" where
  "regs_at j = [(rA, rB, rC, rD, rE), (rE, rA, rB, rC, rD), (rD, rE, rA, rB, rC), (rC, rD, rE, rA, rB),
     (rB, rC, rD, rE, rA)] ! (j mod 5)"

definition view_at :: "nat \<Rightarrow> u32 list \<Rightarrow> rmd_chain" where
  "view_at j l = (case regs_at j of (a, b, c, d, e) \<Rightarrow> (l ! a, l ! b, l ! c, l ! d, l ! e))"

lemma length_rmd_P [simp]: "length (rmd_P X regs r s f k l) = length l"
  by (simp add: rmd_P_def Let_def split: prod.split)

lemma list5: "length l = 5 \<Longrightarrow> \<exists>a b c d e. l = [a, b, c, d, e]"
  by (auto simp: numeral_eq_Suc length_Suc_conv)

lemma rmd_P_step:
  assumes "length l = 5" "0 < s ! j" "s ! j < 32"
  shows "view_at (Suc j) (rmd_P X (regs_at j) (r ! j) (s ! j) (f j) (K j) l) =
    std_line f K r s X (view_at j l) j"
proof -
  obtain a b c d e where l: "l = [a, b, c, d, e]" using list5 [OF assms(1)] by blast
  note defs = view_at_def regs_at_def rmd_P_def std_line_def Let_def rmd_S_rotl [OF assms(2,3)]
  have ten: "rmd_S x 10 = word_rotl 10 x" for x by (simp add: rmd_S_rotl)
  consider "j mod 5 = 0" | "j mod 5 = 1" | "j mod 5 = 2" | "j mod 5 = 3" | "j mod 5 = 4" by linarith
  then show ?thesis
    by cases (simp_all add: l defs ten mod_Suc add.assoc)
qed

definition std_row :: "nat \<Rightarrow> rmd_row" where
  "std_row j = (regs_at j, std_r ! j, std_s ! j, std_r' ! j, std_s' ! j)"

lemmas row_defs = std_row_def regs_at_def std_r_def std_s_def std_r'_def std_s'_def upt_rec

lemma rmd_rows_std:
  "rmd_rows1 = map std_row [0..<16]" "rmd_rows2 = map std_row [16..<32]"
  "rmd_rows3 = map std_row [32..<48]" "rmd_rows4 = map std_row [48..<64]"
  "rmd_rows5 = map std_row [64..<80]"
  by (simp_all add: row_defs rmd_rows1_def rmd_rows2_def rmd_rows3_def rmd_rows4_def rmd_rows5_def)

lemma std_shift_bounds:
  assumes "j < 80"
  shows "0 < std_s ! j" "std_s ! j < 32" "0 < std_s' ! j" "std_s' ! j < 32"
proof -
  have "\<forall>n\<in>set std_s. 0 < n \<and> n < 32" "\<forall>n\<in>set std_s'. 0 < n \<and> n < 32"
    "length std_s = 80" "length std_s' = 80"
    by (simp_all add: std_s_def std_s'_def)
  with assms show "0 < std_s ! j" "std_s ! j < 32" "0 < std_s' ! j" "std_s' ! j < 32"
    by auto
qed

definition std_run :: "(rmd_chain \<Rightarrow> nat \<Rightarrow> rmd_chain) \<Rightarrow> rmd_chain \<Rightarrow> nat \<Rightarrow> nat \<Rightarrow> rmd_chain" where
  "std_run f h i j = foldl f h [i..<j]"

text \<open>A run of rows with one function and constant on each line is a run of the standard's steps.\<close>

lemma rmd_round_steps:
  assumes "i \<le> j" "j \<le> 80" "\<forall>n\<in>{i..<j}. std_f n = F \<and> std_K n = K \<and> std_f (79 - n) = Fp \<and> std_K' n = Kp"
    and "length l = 5" "length lp = 5" "foldl (rmd_P2 X F K Fp Kp) (l, lp) (map std_row [i..<j]) = (m, mp)"
  shows "length m = 5 \<and> length mp = 5 \<and> view_at j m = std_run (std_left X) (view_at i l) i j \<and>
    view_at j mp = std_run (std_right X) (view_at i lp) i j"
  using assms
proof (induction j arbitrary: m mp rule: dec_induct)
  case (step n)
  obtain q qp where q: "foldl (rmd_P2 X F K Fp Kp) (l, lp) (map std_row [i..<n]) = (q, qp)" by fastforce
  with step have ih: "length q = 5" "length qp = 5" "view_at n q = std_run (std_left X) (view_at i l) i n"
    "view_at n qp = std_run (std_right X) (view_at i lp) i n" by auto
  have n: "n < 80" "std_f n = F" "std_K n = K" "std_f (79 - n) = Fp" "std_K' n = Kp"
    using step.prems(2) step.prems(1) step.hyps by auto
  have row: "rmd_P2 X F K Fp Kp (q, qp) (std_row n) = (m, mp)" using step.prems(5) step.hyps q by simp
  have m: "m = rmd_P X (regs_at n) (std_r ! n) (std_s ! n) (std_f n) (std_K n) q"
    "mp = rmd_P X (regs_at n) (std_r' ! n) (std_s' ! n) ((\<lambda>j. std_f (79 - j)) n) (std_K' n) qp"
    using row n by (simp_all add: rmd_P2_def std_row_def)
  note b = std_shift_bounds [OF n(1)]
  show ?case
    using ih step.hyps rmd_P_step [where f = std_f, OF ih(1) b(1,2)]
      rmd_P_step [where f = "\<lambda>j. std_f (79 - j)", OF ih(2) b(3,4)]
    by (simp add: m std_left_def std_right_def std_run_def)
qed (simp add: std_run_def)

lemma std_run_join: "i \<le> j \<Longrightarrow> j \<le> k \<Longrightarrow> std_run f (std_run f h i j) j k = std_run f h i k"
  using upt_add_eq_append [of i j "k - j"] by (simp add: std_run_def)

definition chain_of :: "u32 list \<Rightarrow> rmd_chain" where
  "chain_of l = (l ! 0, l ! 1, l ! 2, l ! 3, l ! 4)"

lemma view_at_chain: "j mod 5 = 0 \<Longrightarrow> view_at j l = chain_of l"
  by (simp add: view_at_def regs_at_def chain_of_def)

lemma std_words_code:
  "length block = 64 \<Longrightarrow> map (\<lambda>i. GET_UINT32_LE block (4 * i)) [0..<16] = std_words block"
  by (auto simp: std_words_def GET_UINT32_LE_def of_le32_def)

lemma std_f_rounds:
  "n < 16 \<Longrightarrow> std_f n = F1" "16 \<le> n \<Longrightarrow> n < 32 \<Longrightarrow> std_f n = F2" "32 \<le> n \<Longrightarrow> n < 48 \<Longrightarrow> std_f n = F3"
  "48 \<le> n \<Longrightarrow> n < 64 \<Longrightarrow> std_f n = F4" "64 \<le> n \<Longrightarrow> n < 80 \<Longrightarrow> std_f n = F5"
  by (simp_all add: fun_eq_iff std_f_def F1_def F2_def F3_def F4_def F5_def)

lemma std_f_right:
  "n < 16 \<Longrightarrow> std_f (79 - n) = F5" "16 \<le> n \<Longrightarrow> n < 32 \<Longrightarrow> std_f (79 - n) = F4"
  "32 \<le> n \<Longrightarrow> n < 48 \<Longrightarrow> std_f (79 - n) = F3" "48 \<le> n \<Longrightarrow> n < 64 \<Longrightarrow> std_f (79 - n) = F2"
  "64 \<le> n \<Longrightarrow> n < 80 \<Longrightarrow> std_f (79 - n) = F1"
  by (rule std_f_rounds; linarith)+

lemma div16: "16 * (k :: nat) \<le> n \<Longrightarrow> n < 16 * k + 16 \<Longrightarrow> n div 16 = k"
  by (rule div_nat_eqI) simp_all

lemma rounds_const:
  "\<forall>n\<in>{0..<16}. std_f n = F1 \<and> std_K n = 0 \<and> std_f (79 - n) = F5 \<and> std_K' n = 0x50A28BE6"
  "\<forall>n\<in>{16..<32}. std_f n = F2 \<and> std_K n = 0x5A827999 \<and> std_f (79 - n) = F4 \<and> std_K' n = 0x5C4DD124"
  "\<forall>n\<in>{32..<48}. std_f n = F3 \<and> std_K n = 0x6ED9EBA1 \<and> std_f (79 - n) = F3 \<and> std_K' n = 0x6D703EF3"
  "\<forall>n\<in>{48..<64}. std_f n = F4 \<and> std_K n = 0x8F1BBCDC \<and> std_f (79 - n) = F2 \<and> std_K' n = 0x7A6D76E9"
  "\<forall>n\<in>{64..<80}. std_f n = F5 \<and> std_K n = 0xA953FD4E \<and> std_f (79 - n) = F1 \<and> std_K' n = 0"
  by (auto simp: std_K_def std_K'_def div16 [of 0] div16 [of 1] div16 [of 2] div16 [of 3]
      div16 [of 4] intro: std_f_rounds std_f_right)

lemma process_compress:
  assumes "length (rmd_state ctx) = 5" "length block = 64"
  obtains st where "mbedtls_internal_ripemd160_process ctx block = (0, ctx\<lparr>rmd_state := st\<rparr>)"
    "length st = 5" "chain_of st = std_compress (std_words block) (chain_of (rmd_state ctx))"
proof -
  let ?s = "rmd_state ctx" and ?X = "std_words block"
  obtain a ap where a: "foldl (rmd_P2 ?X F1 0x00000000 F5 0x50A28BE6) (?s, ?s) rmd_rows1 = (a, ap)" by fastforce
  obtain b bp where b: "foldl (rmd_P2 ?X F2 0x5A827999 F4 0x5C4DD124) (a, ap) rmd_rows2 = (b, bp)" by fastforce
  obtain c cp where c: "foldl (rmd_P2 ?X F3 0x6ED9EBA1 F3 0x6D703EF3) (b, bp) rmd_rows3 = (c, cp)" by fastforce
  obtain d dp where d: "foldl (rmd_P2 ?X F4 0x8F1BBCDC F2 0x7A6D76E9) (c, cp) rmd_rows4 = (d, dp)" by fastforce
  obtain l lp where l: "foldl (rmd_P2 ?X F5 0xA953FD4E F1 0x00000000) (d, dp) rmd_rows5 = (l, lp)" by fastforce
  note ra = rmd_round_steps [OF _ _ rounds_const(1) assms(1,1) a [unfolded rmd_rows_std]]
  note rb = rmd_round_steps [OF _ _ rounds_const(2) _ _ b [unfolded rmd_rows_std]]
  note rc = rmd_round_steps [OF _ _ rounds_const(3) _ _ c [unfolded rmd_rows_std]]
  note rd = rmd_round_steps [OF _ _ rounds_const(4) _ _ d [unfolded rmd_rows_std]]
  note re = rmd_round_steps [OF _ _ rounds_const(5) _ _ l [unfolded rmd_rows_std]]
  have v: "chain_of l = std_run (std_left ?X) (chain_of ?s) 0 80"
    "chain_of lp = std_run (std_right ?X) (chain_of ?s) 0 80"
    using ra rb rc rd re by (simp_all add: std_run_join view_at_chain [of 0] view_at_chain [of 80])
  obtain s0 s1 s2 s3 s4 where s: "?s = [s0, s1, s2, s3, s4]" using list5 [OF assms(1)] by blast
  let ?st = "[s1 + l ! 2 + lp ! 3, s2 + l ! 3 + lp ! 4, s3 + l ! 4 + lp ! 0, s4 + l ! 0 + lp ! 1, s0 + l ! 1 + lp ! 2]"
  have "mbedtls_internal_ripemd160_process ctx block = (0, ctx\<lparr>rmd_state := ?st\<rparr>)"
    using a b c d l
    by (simp add: mbedtls_internal_ripemd160_process_def std_words_code [OF assms(2)] s Let_def)
  moreover have "chain_of ?st = std_compress ?X (chain_of ?s)"
    unfolding std_compress_def std_run_def [symmetric] v [symmetric] by (simp add: chain_of_def s)
  ultimately show thesis by (intro that [of ?st]) simp_all
qed

section \<open>Buffering\<close>

lemma std_blocks_short: "length msg < 64 \<Longrightarrow> std_blocks h msg = h"
  by (subst std_blocks.simps) simp

lemma std_blocks_step:
  "length block = 64 \<Longrightarrow> std_blocks h (block @ msg) = std_blocks (std_compress (std_words block) h) msg"
  by (subst std_blocks.simps) simp

lemma std_blocks_append: "length a = 64 * k \<Longrightarrow> std_blocks h (a @ b) = std_blocks (std_blocks h a) b"
proof (induction k arbitrary: a h)
  case (Suc k)
  obtain x y where a: "a = x @ y" "length x = 64" "length y = 64 * k"
    using Suc.prems by (intro that [of "take 64 a" "drop 64 a"]) auto
  then show ?case using Suc.IH by (simp add: std_blocks_step)
qed (simp add: std_blocks_short)

abbreviation tail64 :: "bytes \<Rightarrow> bytes" where
  "tail64 m \<equiv> drop (64 * (length m div 64)) m"

lemma length_tail64: "length (tail64 m) = length m mod 64"
  by (simp add: minus_mult_div_eq_mod)

lemma std_blocks_extend:
  "std_blocks h (m @ x) = std_blocks (std_blocks h m) (tail64 m @ x)"
proof -
  let ?a = "take (64 * (length m div 64)) m"
  have l: "length ?a = 64 * (length m div 64)" by simp
  have m: "m = ?a @ tail64 m" by simp
  have "std_blocks h m = std_blocks h ?a"
    by (subst (1) m, subst std_blocks_append [OF l], rule std_blocks_short)
      (simp add: minus_mult_div_eq_mod)
  moreover have "std_blocks h (m @ x) = std_blocks (std_blocks h ?a) (tail64 m @ x)"
    using std_blocks_append [OF l, of h "tail64 m @ x"] by (metis append_assoc m)
  ultimately show ?thesis by simp
qed

lemma update_blocks_spec:
  assumes "length (rmd_state ctx) = 5"
  shows "\<exists>st. update_blocks ctx input = (0, ctx\<lparr>rmd_state := st\<rparr>, tail64 input) \<and> length st = 5 \<and>
    chain_of st = std_blocks (chain_of (rmd_state ctx)) input"
  using assms
proof (induction "length input" arbitrary: ctx input rule: less_induct)
  case less
  show ?case
  proof (cases "64 \<le> length input")
    case True
    then have l: "length (take 64 input) = 64" by simp
    obtain s1 where p: "mbedtls_internal_ripemd160_process ctx (take 64 input) = (0, ctx\<lparr>rmd_state := s1\<rparr>)"
      and s1: "length s1 = 5" "chain_of s1 = std_compress (std_words (take 64 input)) (chain_of (rmd_state ctx))"
      using process_compress [OF less.prems l] .
    obtain st where st: "update_blocks (ctx\<lparr>rmd_state := s1\<rparr>) (drop 64 input) =
        (0, ctx\<lparr>rmd_state := st\<rparr>, tail64 (drop 64 input))" "length st = 5"
      "chain_of st = std_blocks (chain_of s1) (drop 64 input)"
      using less.hyps [of "drop 64 input" "ctx\<lparr>rmd_state := s1\<rparr>"] True s1(1) by force
    have "tail64 (drop 64 input) = tail64 input"
      using True by (simp add: le_div_geq add.commute)
    moreover have "std_blocks (chain_of (rmd_state ctx)) input = std_blocks (chain_of s1) (drop 64 input)"
      using True s1 by (subst std_blocks.simps) simp
    moreover have "update_blocks ctx input = update_blocks (ctx\<lparr>rmd_state := s1\<rparr>) (drop 64 input)"
      using p True by (subst update_blocks.simps) simp
    ultimately show ?thesis using st by metis
  next
    case False
    then show ?thesis
      using less.prems
      by (subst update_blocks.simps, intro exI [of _ "rmd_state ctx"]) (simp add: std_blocks_short)
  qed
qed

text \<open>The context holds the message absorbed so far: its length, the state after its whole blocks and
  the rest of it in the buffer.\<close>

definition absorbed :: "mbedtls_ripemd160_context \<Rightarrow> rmd_chain \<Rightarrow> bytes \<Rightarrow> bool" where
  "absorbed ctx h m =
     (rmd_total ctx = (word_of_nat (length m), word_of_nat (length m div 2 ^ 32)) \<and>
      length (rmd_state ctx) = 5 \<and> length (rmd_buffer ctx) = 64 \<and>
      chain_of (rmd_state ctx) = std_blocks h m \<and>
      take (length m mod 64) (rmd_buffer ctx) = tail64 m)"

lemma u32_and_63: "unat ((word_of_nat n :: u32) AND 0x3F) = n mod 64"
proof -
  have "(0x3F :: u32) = mask 6" by (simp add: mask_eq_exp_minus_1)
  then have "(word_of_nat n :: u32) AND 0x3F = take_bit 6 (word_of_nat n)" by (simp add: take_bit_eq_mask)
  then show ?thesis
    by (simp add: unsigned_take_bit_eq unat_of_nat take_bit_nat_def mod_mod_cancel)
qed

lemma total_add:
  fixes a b :: nat
  assumes "b < 2 ^ 32"
  shows "(if word_of_nat a + word_of_nat b < (word_of_nat b :: u32) then word_of_nat (a div 2 ^ 32) + 1
      else word_of_nat (a div 2 ^ 32) :: u32) = word_of_nat ((a + b) div 2 ^ 32)"
proof -
  let ?c = "a mod 2 ^ 32 + b"
  have c: "?c < 2 * 2 ^ 32" using assms mod_less_divisor [of "2 ^ 32" a] by linarith
  have "(a + b) div 2 ^ 32 = a div 2 ^ 32 + ?c div 2 ^ 32"
    using assms by (simp add: div_add1_eq [of a b])
  moreover have "?c div 2 ^ 32 = (if 2 ^ 32 \<le> ?c then 1 else 0)"
    using c by (auto intro: div_nat_eqI)
  ultimately have d: "(a + b) div 2 ^ 32 = a div 2 ^ 32 + (if 2 ^ 32 \<le> ?c then 1 else 0)" by simp
  have "unat (word_of_nat a + word_of_nat b :: u32) = ?c mod 2 ^ 32"
    using assms by (simp add: unat_word_ariths unat_of_nat)
  moreover have "?c mod 2 ^ 32 = (if 2 ^ 32 \<le> ?c then ?c - 2 ^ 32 else ?c)"
    using c by (simp add: le_mod_geq)
  ultimately have "(word_of_nat a + word_of_nat b < (word_of_nat b :: u32)) = (2 ^ 32 \<le> ?c)"
    using assms by (auto simp: word_less_nat_alt unat_of_nat)
  then show ?thesis unfolding d by simp
qed

lemma div64_add:
  fixes r b q :: nat
  assumes "r + b < 64"
  shows "(r + 64 * q + b) div 64 = q" "(r + 64 * q + b) mod 64 = r + b"
proof -
  have e: "r + 64 * q + b = r + b + 64 * q" by simp
  show "(r + 64 * q + b) div 64 = q" "(r + 64 * q + b) mod 64 = r + b"
    unfolding e using assms by simp_all
qed

lemma tail64_append:
  assumes "length (tail64 m @ x) < 64"
  shows "tail64 (m @ x) = tail64 m @ x" "length (m @ x) mod 64 = length m mod 64 + length x"
proof -
  have "length m mod 64 + length x < 64" using assms unfolding length_append length_tail64 .
  from div64_add [OF this, of "length m div 64"]
  have d: "length (m @ x) div 64 = length m div 64" "length (m @ x) mod 64 = length m mod 64 + length x"
    by simp_all
  show "tail64 (m @ x) = tail64 m @ x" unfolding d by simp
  show "length (m @ x) mod 64 = length m mod 64 + length x" by (rule d)
qed

lemma tail64_whole:
  assumes "length a mod 64 = 0"
  shows "tail64 (a @ x) = tail64 x" "length (a @ x) mod 64 = length x mod 64"
proof -
  obtain k where "length a = 64 * k" using assms by (metis dvd_imp_mod_0 mod_0_imp_dvd dvdE)
  then show "tail64 (a @ x) = tail64 x" "length (a @ x) mod 64 = length x mod 64" by simp_all
qed

text \<open>The context after the new length has been stored and before the input is absorbed.\<close>

definition absorbing :: "mbedtls_ripemd160_context \<Rightarrow> rmd_chain \<Rightarrow> bytes \<Rightarrow> bytes \<Rightarrow> bool" where
  "absorbing ctx h m x =
     (rmd_total ctx = (word_of_nat (length (m @ x)), word_of_nat (length (m @ x) div 2 ^ 32)) \<and>
      length (rmd_state ctx) = 5 \<and> length (rmd_buffer ctx) = 64 \<and>
      chain_of (rmd_state ctx) = std_blocks h m \<and>
      take (length m mod 64) (rmd_buffer ctx) = tail64 m)"

lemma tail_whole:
  assumes "absorbing ctx h a x" "length a mod 64 = 0"
  obtains ctx' where "update_tail ctx x 0 = (0, ctx')" "absorbed ctx' h (a @ x)"
proof -
  obtain st where st: "update_blocks ctx x = (0, ctx\<lparr>rmd_state := st\<rparr>, tail64 x)" "length st = 5"
    "chain_of st = std_blocks (chain_of (rmd_state ctx)) x"
    using update_blocks_spec assms(1) absorbing_def by blast
  have "tail64 a = []" using assms(2) by (metis length_tail64 length_0_conv)
  then have b: "chain_of st = std_blocks h (a @ x)"
    using st(3) assms(1) std_blocks_extend [of h a x] by (simp add: absorbing_def)
  let ?c = "ctx\<lparr>rmd_state := st, rmd_buffer := mem_write (rmd_buffer ctx) 0 (tail64 x)\<rparr>"
  have l: "length (tail64 x) = length x mod 64" by (rule length_tail64)
  then have "length (tail64 x) \<le> 64" by simp
  then have "absorbed ?c h (a @ x)"
    unfolding absorbed_def tail64_whole [OF assms(2)] l [symmetric]
    using assms(1) st(2) b take_mem_write_end [of 0 "tail64 x" "rmd_buffer ctx"] by (simp add: absorbing_def)
  moreover have "update_tail ctx x 0 = (0, ?c)" by (simp add: update_tail_def st(1))
  ultimately show thesis using that by blast
qed

lemma tail_short:
  assumes a: "absorbing ctx h m x" and left: "left = length m mod 64" and s: "left + length x < 64"
  obtains ctx' where "update_tail ctx x left = (0, ctx')" "absorbed ctx' h (m @ x)"
proof -
  let ?c = "ctx\<lparr>rmd_buffer := mem_write (rmd_buffer ctx) left x\<rparr>"
  have s': "length (tail64 m @ x) < 64" using s unfolding length_append length_tail64 left .
  have a': "take left (rmd_buffer ctx) = tail64 m" "length (rmd_buffer ctx) = 64" "length (rmd_state ctx) = 5"
    "chain_of (rmd_state ctx) = std_blocks h m"
    "rmd_total ctx = (word_of_nat (length (m @ x)), word_of_nat (length (m @ x) div 2 ^ 32))"
    using a unfolding absorbing_def left by blast+
  have "update_blocks ctx x = (0, ctx, x)" using s by (subst update_blocks.simps) simp
  then have u: "update_tail ctx x left = (0, ?c)" by (simp add: update_tail_def)
  have t: "take (left + length x) (mem_write (rmd_buffer ctx) left x) = tail64 m @ x"
    unfolding a'(1) [symmetric] using s a'(2) by (intro take_mem_write_end) simp
  have b: "length (mem_write (rmd_buffer ctx) left x) = 64" using s a'(2) by simp
  have "std_blocks h (m @ x) = std_blocks h m" using std_blocks_short [OF s'] std_blocks_extend [of h m x] by simp
  then have "absorbed ?c h (m @ x)"
    unfolding absorbed_def tail64_append [OF s'] left [symmetric] using a'(3-5) t b by simp
  with u show thesis by (rule that)
qed

lemma fill_block:
  assumes a: "absorbing ctx h m (y @ x)" and left: "left = length m mod 64" and l: "left + length y = 64"
  obtains ctx' where
    "mbedtls_internal_ripemd160_process (ctx\<lparr>rmd_buffer := mem_write (rmd_buffer ctx) left y\<rparr>)
       (mem_write (rmd_buffer ctx) left y) = (0, ctx')"
    "absorbing ctx' h (m @ y) x" "length (m @ y) mod 64 = 0"
proof -
  let ?b = "mem_write (rmd_buffer ctx) left y"
  have a': "take left (rmd_buffer ctx) = tail64 m" "length (rmd_buffer ctx) = 64" "length (rmd_state ctx) = 5"
    "chain_of (rmd_state ctx) = std_blocks h m"
    "rmd_total ctx = (word_of_nat (length (m @ y @ x)), word_of_nat (length (m @ y @ x) div 2 ^ 32))"
    using a unfolding absorbing_def left by blast+
  have b: "?b = tail64 m @ y" unfolding a'(1) [symmetric] using a'(2) l by (simp add: mem_write_def)
  have len: "length (tail64 m @ y) = 64" using l unfolding length_append length_tail64 left .
  obtain st where p: "mbedtls_internal_ripemd160_process (ctx\<lparr>rmd_buffer := ?b\<rparr>) ?b =
      (0, ctx\<lparr>rmd_buffer := ?b, rmd_state := st\<rparr>)" "length st = 5"
    "chain_of st = std_compress (std_words ?b) (std_blocks h m)"
    using process_compress [of "ctx\<lparr>rmd_buffer := ?b\<rparr>" ?b] a'(3,4) b len by auto
  have c: "chain_of st = std_blocks h (m @ y)"
    using p(3) std_blocks_step [OF len, of "std_blocks h m" "[]"] b std_blocks_extend [of h m y]
    by (simp add: std_blocks_short)
  have "length (m @ y) mod 64 = (left + length y) mod 64" unfolding left by (simp add: mod_add_left_eq)
  then have z: "length (m @ y) mod 64 = 0" using l by simp
  then have "tail64 (m @ y) = []" by (metis length_tail64 length_0_conv)
  then have "absorbing (ctx\<lparr>rmd_buffer := ?b, rmd_state := st\<rparr>) h (m @ y) x"
    unfolding absorbing_def z using p(2) a'(5) c b len by simp
  with p(1) z show thesis by (intro that)
qed

lemma update_absorbed:
  assumes ab: "absorbed ctx h m" and n: "length input < 2 ^ 32"
  obtains ctx' where "mbedtls_ripemd160_update ctx input = (0, ctx')" "absorbed ctx' h (m @ input)"
proof (cases "input = []")
  case True
  then show thesis using that [of ctx] ab by (simp add: mbedtls_ripemd160_update_def)
next
  case False
  define left where "left = length m mod 64"
  let ?ctx = "ctx\<lparr>rmd_total := (word_of_nat (length (m @ input)), word_of_nat (length (m @ input) div 2 ^ 32))\<rparr>"
  have tot: "rmd_total ctx = (word_of_nat (length m), word_of_nat (length m div 2 ^ 32))"
    using ab by (simp add: absorbed_def)
  have u: "mbedtls_ripemd160_update ctx input =
      (if left \<noteq> 0 \<and> 64 - left \<le> length input
       then let c = ?ctx\<lparr>rmd_buffer := mem_write (rmd_buffer ctx) left (take (64 - left) input)\<rparr>
            in case mbedtls_internal_ripemd160_process c (rmd_buffer c) of (ret, c) \<Rightarrow>
              if ret \<noteq> 0 then (ret, c) else update_tail c (drop (64 - left) input) 0
       else update_tail ?ctx input left)"
    unfolding mbedtls_ripemd160_update_def Let_def tot fst_conv snd_conv total_add [OF n] u32_and_63
      left_def [symmetric]
    using False by simp
  have ag: "absorbing ?ctx h m input" using ab unfolding absorbed_def absorbing_def by simp
  have l64: "left < 64" by (simp add: left_def)
  consider (Fill) "left \<noteq> 0" "64 - left \<le> length input" | (Whole) "left = 0"
    | (Short) "left \<noteq> 0" "left + length input < 64" by linarith
  then show thesis
  proof cases
    case Fill
    then have l: "left + length (take (64 - left) input) = 64" using l64 by simp
    from fill_block [OF _ left_def l, of ?ctx h "drop (64 - left) input"] ag
    obtain c where c: "mbedtls_internal_ripemd160_process
        (?ctx\<lparr>rmd_buffer := mem_write (rmd_buffer ctx) left (take (64 - left) input)\<rparr>)
        (mem_write (rmd_buffer ctx) left (take (64 - left) input)) = (0, c)"
      "absorbing c h (m @ take (64 - left) input) (drop (64 - left) input)"
      "length (m @ take (64 - left) input) mod 64 = 0" by auto
    from tail_whole [OF c(2,3)] obtain c' where "update_tail c (drop (64 - left) input) 0 = (0, c')"
      "absorbed c' h (m @ input)" by auto
    then show thesis using that u Fill c(1) by simp
  next
    case Whole
    from tail_whole [OF ag] Whole show thesis using that u by (auto simp: left_def)
  next
    case Short
    then have "\<not> (left \<noteq> 0 \<and> 64 - left \<le> length input)" by linarith
    then have "mbedtls_ripemd160_update ctx input = update_tail ?ctx input left" unfolding u by (simp only: if_False)
    then show thesis using tail_short [OF ag left_def Short(2)] that by metis
  qed
qed

section \<open>Padding and the digest\<close>

text \<open>The state keeps its five words, so every digest has twenty bytes.\<close>

lemma process_length [simp]:
  "length (rmd_state (snd (mbedtls_internal_ripemd160_process ctx data))) = length (rmd_state ctx)"
  by (simp add: mbedtls_internal_ripemd160_process_def Let_def case_prod_beta)

lemma update_blocks_length:
  "length (rmd_state (fst (snd (update_blocks ctx input)))) = length (rmd_state ctx)"
proof (induction ctx input rule: update_blocks.induct)
  case (1 ctx input)
  show ?case
    using 1 [OF _ prod.collapse] process_length [of ctx "take 64 input"]
    by (subst update_blocks.simps) (auto simp: case_prod_beta)
qed

lemma update_length:
  "length (rmd_state (snd (mbedtls_ripemd160_update ctx input))) = length (rmd_state ctx)"
proof -
  have t: "length (rmd_state (snd (update_tail ctx input left))) = length (rmd_state ctx)" for ctx input left
    using update_blocks_length [of ctx input] by (simp add: update_tail_def case_prod_beta)
  show ?thesis by (simp add: mbedtls_ripemd160_update_def Let_def case_prod_beta t)
qed

lemma ripemd160_digest_length:
  assumes "mbedtls_ripemd160 data = (True, digest)"
  shows "length digest = 20"
proof -
  have c: "length (concat (map PUT_UINT32_LE xs)) = 4 * length xs" for xs
    by (induction xs) (simp_all add: PUT_UINT32_LE_def)
  have f: "fst (mbedtls_ripemd160_finish ctx) = 0 \<Longrightarrow>
      length (snd (snd (mbedtls_ripemd160_finish ctx))) = 4 * length (rmd_state ctx)" for ctx
    by (auto simp: mbedtls_ripemd160_finish_def Let_def case_prod_beta c update_length split: if_splits)
  show ?thesis
    using assms
    by (auto simp: mbedtls_ripemd160_def mbedtls_ripemd160_starts_def Let_def case_prod_beta update_length
        f split: if_splits)
qed

lemma ucast_low_byte: "ucast (w AND 0xff :: u32) = (ucast w :: u8)"
proof -
  have "w AND 0xff = take_bit 8 w" by (simp add: take_bit_eq_mask mask_eq_exp_minus_1)
  then show ?thesis by (auto simp: bit_eq_iff bit_ucast_iff bit_take_bit_iff)
qed

lemma PUT_le32: "PUT_UINT32_LE w = le32 w"
  by (simp only: PUT_UINT32_LE_def le32_def ucast_low_byte)

lemma ucast_drop_of_nat:
  "k + 8 \<le> 32 \<Longrightarrow> (ucast (drop_bit k (word_of_nat n :: u32)) :: u8) = word_of_nat (n div 2 ^ k)"
proof -
  assume k: "k + 8 \<le> 32"
  have "take_bit 8 (drop_bit k (take_bit 32 n)) = take_bit 8 (drop_bit k n)"
    using k by (auto simp: bit_eq_iff bit_take_bit_iff bit_drop_bit_eq)
  then have "unat (ucast (drop_bit k (word_of_nat n :: u32)) :: u8) = unat (word_of_nat (n div 2 ^ k) :: u8)"
    by (simp add: unsigned_ucast_eq unsigned_drop_bit_eq unsigned_of_nat drop_bit_eq_div [of _ n])
  then show ?thesis by (simp add: word_unat_eq_iff)
qed

lemma le32_of_nat: "le32 (word_of_nat n) = map (\<lambda>i. word_of_nat (n div 256 ^ i)) [0..<4]"
  using ucast_drop_of_nat [of 0 n] ucast_drop_of_nat [of 8 n] ucast_drop_of_nat [of 16 n]
    ucast_drop_of_nat [of 24 n]
  by (simp add: le32_def upt_rec)

lemma length_bytes:
  assumes "n < 2 ^ 32"
  shows "PUT_UINT32_LE (push_bit 3 (word_of_nat n)) @ PUT_UINT32_LE (drop_bit 29 (word_of_nat n) OR push_bit 3 0) =
    map (\<lambda>i. word_of_nat (8 * n div 256 ^ i)) [0..<8]"
proof -
  have l: "push_bit 3 (word_of_nat n :: u32) = word_of_nat (8 * n)" by (simp add: push_bit_eq_mult)
  have d: "unat (drop_bit 29 (word_of_nat n :: u32)) = n div 2 ^ 29"
    unfolding unsigned_drop_bit_eq using assms by (simp add: unat_of_nat drop_bit_eq_div take_bit_nat_eq_self)
  have "word_of_nat (unat (drop_bit 29 (word_of_nat n :: u32))) = drop_bit 29 (word_of_nat n :: u32)"
    by (simp only: of_nat_unat ucast_id)
  then have h: "drop_bit 29 (word_of_nat n :: u32) OR push_bit 3 0 = word_of_nat (n div 2 ^ 29)"
    unfolding d by simp
  have "n div 2 ^ 29 div 256 ^ i = 8 * n div 256 ^ (i + 4)" for i
  proof -
    have p: "(256 :: nat) ^ (i + 4) = 8 * (2 ^ 29 * 256 ^ i)" by (simp add: power_add)
    have "8 * n div (8 * (2 ^ 29 * 256 ^ i)) = n div (2 ^ 29 * 256 ^ i)" by (rule div_mult_mult1) simp
    then show ?thesis unfolding p by (simp only: div_mult2_eq)
  qed
  note q = this
  have "le32 (word_of_nat (n div 2 ^ 29)) = map (\<lambda>i. word_of_nat (8 * n div 256 ^ (i + 4))) [0..<4]"
    unfolding le32_of_nat q ..
  also have "\<dots> = map (\<lambda>i. word_of_nat (8 * n div 256 ^ i)) [4..<8]" by (simp add: upt_rec)
  finally have "le32 (word_of_nat (n div 2 ^ 29)) = map (\<lambda>i. word_of_nat (8 * n div 256 ^ i)) [4..<8]" .
  then show ?thesis unfolding l h PUT_le32 le32_of_nat [of "8 * n"] by (simp add: upt_rec)
qed

lemma finish_digest:
  assumes ab: "absorbed ctx (0x67452301, 0xEFCDAB89, 0x98BADCFE, 0x10325476, 0xC3D2E1F0) m"
    and n: "length m < 2 ^ 32"
  shows "\<exists>ctx'. mbedtls_ripemd160_finish ctx = (0, ctx', rmd160 m)"
proof -
  let ?h = "(0x67452301, 0xEFCDAB89, 0x98BADCFE, 0x10325476, 0xC3D2E1F0) :: rmd_chain"
  define lst where "lst = length m mod 64"
  define padn where "padn = (if lst < 56 then 56 - lst else 120 - lst)"
  let ?pad = "take padn ripemd160_padding" and ?len = "map (\<lambda>i. word_of_nat (8 * length m div 256 ^ i)) [0..<8] :: bytes"
  have lst: "lst < 64" by (simp add: lst_def)
  have tot: "rmd_total ctx = (word_of_nat (length m), 0)"
    using ab n by (simp add: absorbed_def)
  have pl: "length ?pad < 2 ^ 32" by (simp add: ripemd160_padding_def min.strict_coboundedI1)
  obtain c1 where c1: "mbedtls_ripemd160_update ctx ?pad = (0, c1)" "absorbed c1 ?h (m @ ?pad)"
    using update_absorbed [OF ab pl] .
  have ll: "length ?len < 2 ^ 32" by simp
  obtain c2 where c2: "mbedtls_ripemd160_update c1 ?len = (0, c2)" "absorbed c2 ?h ((m @ ?pad) @ ?len)"
    using update_absorbed [OF c1(2) ll] .
  have f: "mbedtls_ripemd160_finish ctx = (0, c2, concat (map PUT_UINT32_LE (rmd_state c2)))"
    unfolding mbedtls_ripemd160_finish_def tot Let_def prod.case u32_and_63 lst_def [symmetric]
      padn_def [symmetric] length_bytes [OF n] c1 c2(1) by simp
  have "padn = Suc ((119 - lst) mod 64)"
  proof (cases "lst < 56")
    case True
    then have "119 - lst = (55 - lst) + 64" by linarith
    then have "(119 - lst) mod 64 = (55 - lst) mod 64" by (simp only: mod_add_self2)
    also have "\<dots> = 55 - lst" by (rule mod_less) simp
    finally have "(119 - lst) mod 64 = 55 - lst" .
    then show ?thesis using True by (simp add: padn_def)
  qed (use lst in \<open>simp add: padn_def\<close>)
  then have "?pad = 0x80 # replicate ((119 - lst) mod 64) 0"
    using lst by (simp add: ripemd160_padding_def)
  then have "(m @ ?pad) @ ?len = std_pad m" by (simp add: std_pad_def lst_def)
  with c2(2) have st: "length (rmd_state c2) = 5" "chain_of (rmd_state c2) = std_blocks ?h (std_pad m)"
    by (simp_all add: absorbed_def)
  obtain a b c d e where "rmd_state c2 = [a, b, c, d, e]" using list5 [OF st(1)] by blast
  with st(2) have "concat (map PUT_UINT32_LE (rmd_state c2)) = rmd160 m"
    by (simp add: rmd160_def chain_of_def PUT_le32 flip: st(2))
  with f show ?thesis by simp
qed

text \<open>C8: The code computes RIPEMD-160: for every message shorter than 4 GiB it succeeds, and the digest
  is the one the standard defines.\<close>

theorem ripemd160_standard:
  assumes "length data < 2 ^ 32"
  shows "mbedtls_ripemd160 data = (True, rmd160 data)"
proof -
  let ?c = "\<lparr>rmd_total = (0, 0), rmd_state = [0x67452301, 0xEFCDAB89, 0x98BADCFE, 0x10325476, 0xC3D2E1F0],
    rmd_buffer = replicate 64 0\<rparr>"
  have "absorbed ?c (0x67452301, 0xEFCDAB89, 0x98BADCFE, 0x10325476, 0xC3D2E1F0) []"
    by (simp add: absorbed_def chain_of_def std_blocks_short)
  from update_absorbed [OF this assms] obtain c where
    c: "mbedtls_ripemd160_update ?c data = (0, c)"
    "absorbed c (0x67452301, 0xEFCDAB89, 0x98BADCFE, 0x10325476, 0xC3D2E1F0) data" by auto
  with finish_digest [OF c(2) assms] show ?thesis
    by (auto simp: mbedtls_ripemd160_def mbedtls_ripemd160_starts_def)
qed

theorem ripemd160_standard_witness:
  "mbedtls_ripemd160 [0x61, 0x62, 0x63] = (True, rmd160 [0x61, 0x62, 0x63])"
  by (rule ripemd160_standard) simp

end
