(* ===== verification/Ecc.thy ===== *)
theory Ecc
  imports Wkek Secure Ripemd160
begin

text \<open>
  Hashes and elliptic curves: \<open>lib/crypto/src/efr32/hash.c\<close>, \<open>efr32/ecc.c\<close>, \<open>efr32/key_management.c\<close>
  (the part for external keys) and \<open>lib/crypto/src/ecc.c\<close>.  The calls into the secure engine and into
  libsecp256k1 are parameters, a record of functions; the opaque structures of the library are
  byte lists.  \<open>None\<close> is a failed assertion.
\<close>

section \<open>The engine and the library\<close>

datatype hash_alg_t = ALG_SHA256 | ALG_SHA512 | ALG_HASH160 | ALG_MD5 | ALG_SHA1

datatype sl_se_hash_type_t = SL_SE_HASH_SHA256 | SL_SE_HASH_SHA512

datatype key_algorithm_t = ALG_AES_128 | ALG_AES_256 | ALG_HMAC | ALG_ECC_P256 | ALG_ECC_SECP256K1
  | ALG_ECC_ED25519 | ALG_KEY_DERIVATION | ALG_ECC_X25519

datatype key_storage_type_t = KEY_STORAGE_EXTERNAL_PLAINTEXT | KEY_STORAGE_EXTERNAL_WRAPPED
  | KEY_STORAGE_INTERNAL_IMMUTABLE | KEY_STORAGE_INTERNAL_VOLATILE

record key_handle_t =
  kh_alg :: key_algorithm_t
  kh_acl :: u32
  kh_storage :: key_storage_type_t
  kh_bytes :: bytes

abbreviation SE_KEY_FLAG_ASYMMETRIC_BUFFER_HAS_PRIVATE_KEY :: u32 where
  "SE_KEY_FLAG_ASYMMETRIC_BUFFER_HAS_PRIVATE_KEY \<equiv> 0x4000"
abbreviation SE_KEY_FLAG_ASYMMETRIC_SIGNING_ONLY :: u32 where
  "SE_KEY_FLAG_ASYMMETRIC_SIGNING_ONLY \<equiv> 0x400"

abbreviation SHA256_DIGEST_SIZE :: nat where "SHA256_DIGEST_SIZE \<equiv> 32"
abbreviation SHA512_DIGEST_SIZE :: nat where "SHA512_DIGEST_SIZE \<equiv> 64"
abbreviation HASH160_DIGEST_SIZE :: nat where "HASH160_DIGEST_SIZE \<equiv> 20"
abbreviation ECC_SIG_SIZE :: nat where "ECC_SIG_SIZE \<equiv> 64"
abbreviation ECC_PRIVKEY_SIZE :: nat where "ECC_PRIVKEY_SIZE \<equiv> 32"
abbreviation SECP256K1_KEY_SIZE :: nat where "SECP256K1_KEY_SIZE \<equiv> 32"
abbreviation SECP256K1_KEYPAIR_SIZE :: nat where "SECP256K1_KEYPAIR_SIZE \<equiv> 96"

text \<open>
  The secure engine: whether a command context can be set up, the hash and the keyed hash (with the
  size of the digest), and signing and verification of a digest with a key handle.
  The library: each function returns what it stores, or \<open>None\<close> when it returns 0;
  \<open>ec_seckey_tweak_add\<close> also changes the key when it fails, \<open>keypair_create\<close> also writes the key pair's
  buffer when it fails, and \<open>ecdsa_signature_serialize_compact\<close> always returns 1.
  All are functions of their arguments: a failure of the engine that depends on the moment of the
  call is not represented, so two equal calls fail or succeed together.
\<close>

record ecc_ops =
  se_init :: bool
  se_hash :: "sl_se_hash_type_t \<Rightarrow> bytes \<Rightarrow> nat \<Rightarrow> bytes option"
  se_hmac :: "sl_se_hash_type_t \<Rightarrow> bytes \<Rightarrow> bytes \<Rightarrow> nat \<Rightarrow> bytes option"
  se_ecc_sign :: "key_handle_t \<Rightarrow> bytes \<Rightarrow> bytes option"
  se_ecc_verify :: "key_handle_t \<Rightarrow> bytes \<Rightarrow> bytes \<Rightarrow> bool"
  context_randomize :: "bytes \<Rightarrow> bool"
  ec_seckey_verify :: "bytes \<Rightarrow> bool"
  ec_pubkey_create :: "bytes \<Rightarrow> bytes option"
  ec_pubkey_parse :: "bytes \<Rightarrow> bytes option"
  ec_pubkey_serialize :: "bytes \<Rightarrow> bytes option"
  ec_seckey_tweak_add :: "bytes \<Rightarrow> bytes \<Rightarrow> bool \<times> bytes"
  ec_pubkey_tweak_add :: "bytes \<Rightarrow> bytes \<Rightarrow> bytes option"
  xonly_pubkey_from_pubkey :: "bytes \<Rightarrow> (bytes \<times> int) option"
  xonly_pubkey_serialize :: "bytes \<Rightarrow> bytes option"
  keypair_create :: "bytes \<Rightarrow> bool \<times> bytes"
  keypair_xonly_pub :: "bytes \<Rightarrow> bytes option"
  schnorrsig_sign32 :: "bytes \<Rightarrow> bytes \<Rightarrow> bytes \<Rightarrow> bytes option"
  schnorrsig_verify :: "bytes \<Rightarrow> bytes \<Rightarrow> bytes \<Rightarrow> bool"
  ecdsa_sign :: "bytes \<Rightarrow> bytes \<Rightarrow> bytes option"
  ecdsa_verify :: "bytes \<Rightarrow> bytes \<Rightarrow> bytes \<Rightarrow> bool"
  ecdsa_signature_parse_compact :: "bytes \<Rightarrow> bytes option"
  ecdsa_signature_serialize_compact :: "bytes \<Rightarrow> bytes"
  ecdsa_signature_normalize :: "bytes \<Rightarrow> bool \<times> bytes"

text \<open>The operations and whether the library's context \<open>ctx\<close> has been created.\<close>

record ecc_env =
  ecc_lib :: ecc_ops
  ecc_ctx :: bool

section \<open>Hashes\<close>

definition convert_hash_type :: "hash_alg_t \<Rightarrow> sl_se_hash_type_t option" where
  "convert_hash_type alg =
     (case alg of ALG_SHA256 \<Rightarrow> Some SL_SE_HASH_SHA256 | ALG_SHA512 \<Rightarrow> Some SL_SE_HASH_SHA512 | _ \<Rightarrow> None)"

text \<open>The status and what was written to the digest.\<close>

definition crypto_hash :: "ecc_ops \<Rightarrow> bytes \<Rightarrow> nat \<Rightarrow> hash_alg_t \<Rightarrow> (bool \<times> bytes) option" where
  "crypto_hash L message digest_size alg =
     (if \<not> se_init L then Some (False, [])
      else case alg of
        ALG_HASH160 \<Rightarrow>
          if digest_size \<noteq> HASH160_DIGEST_SIZE then None
          else (case se_hash L SL_SE_HASH_SHA256 message SHA256_DIGEST_SIZE of
              None \<Rightarrow> Some (False, [])
            | Some tmp_digest \<Rightarrow>
                (case mbedtls_ripemd160 tmp_digest of (ok, digest) \<Rightarrow>
                   Some (if ok then (True, digest) else (False, []))))
      | _ \<Rightarrow> do { t \<leftarrow> convert_hash_type alg;
                 Some (case se_hash L t message digest_size of
                     None \<Rightarrow> (False, []) | Some digest \<Rightarrow> (True, digest)) })"

text \<open>The key is external and in plaintext in every use of \<open>crypto_hmac\<close> modelled here.\<close>

definition crypto_hmac :: "ecc_ops \<Rightarrow> bytes \<Rightarrow> bytes \<Rightarrow> nat \<Rightarrow> hash_alg_t \<Rightarrow> (bool \<times> bytes) option" where
  "crypto_hmac L message key_bytes digest_size alg =
     (if \<not> se_init L then Some (False, [])
      else do { t \<leftarrow> convert_hash_type alg;
                Some (case se_hmac L t message key_bytes digest_size of
                    None \<Rightarrow> (False, []) | Some digest \<Rightarrow> (True, digest)) })"

definition crypto_sha256d :: "ecc_ops \<Rightarrow> bytes \<Rightarrow> (bool \<times> bytes) option" where
  "crypto_sha256d L data =
     do { (ok, tmp) \<leftarrow> crypto_hash L data SHA256_DIGEST_SIZE ALG_SHA256;
          if ok then crypto_hash L tmp SHA256_DIGEST_SIZE ALG_SHA256 else Some (False, []) }"

section \<open>secp256k1\<close>

definition crypto_ecc_secp256k1_init :: "ecc_env \<Rightarrow> ecc_env" where
  "crypto_ecc_secp256k1_init E = (if ecc_ctx E then E else E\<lparr>ecc_ctx := True\<rparr>)"

text \<open>The loop that draws secret keys until one is valid: \<open>None\<close> if it never ends.\<close>

partial_function (option) generate_keypair_loop ::
  "ecc_ops \<Rightarrow> 'c crypto_ops \<Rightarrow> bytes \<Rightarrow> 'c \<Rightarrow> (bool \<times> bytes \<times> 'c) option" where
  "generate_keypair_loop L C keypair c =
     (case crypto_random C SECP256K1_KEY_SIZE c of (ok, secret_key, c) \<Rightarrow>
        if \<not> ok then Some (False, keypair, c)
        else case keypair_create L secret_key of (created, keypair) \<Rightarrow>
          if created then Some (True, keypair, c) else generate_keypair_loop L C keypair c)"

definition crypto_ecc_secp256k1_generate_keypair ::
  "ecc_env \<Rightarrow> 'c crypto_ops \<Rightarrow> key_handle_t \<Rightarrow> 'c \<Rightarrow> (bool \<times> key_handle_t \<times> 'c) option" where
  "crypto_ecc_secp256k1_generate_keypair E C key c =
     (if length (kh_bytes key) \<noteq> SECP256K1_KEYPAIR_SIZE \<or> \<not> ecc_ctx E then None
      else do { (ok, keypair, c) \<leftarrow> generate_keypair_loop (ecc_lib E) C (kh_bytes key) c;
                Some (ok, key\<lparr>kh_bytes := keypair\<rparr>, c) })"

definition crypto_ecc_secp256k1_load_keypair ::
  "ecc_env \<Rightarrow> bytes \<Rightarrow> key_handle_t \<Rightarrow> (bool \<times> key_handle_t) option" where
  "crypto_ecc_secp256k1_load_keypair E privkey key =
     (if \<not> ecc_ctx E then None
      else let (ok, keypair) = keypair_create (ecc_lib E) privkey
           in Some (ok, key\<lparr>kh_bytes := keypair\<rparr>))"

definition crypto_ecc_secp256k1_priv_verify :: "ecc_env \<Rightarrow> bytes \<Rightarrow> bool option" where
  "crypto_ecc_secp256k1_priv_verify E privkey =
     (if \<not> ecc_ctx E then None else Some (ec_seckey_verify (ecc_lib E) privkey))"

definition crypto_ecc_secp256k1_verify_signature ::
  "ecc_env \<Rightarrow> bytes \<Rightarrow> bytes \<Rightarrow> bytes \<Rightarrow> bool option" where
  "crypto_ecc_secp256k1_verify_signature E pubkey message signature =
     (if \<not> ecc_ctx E then None
      else case ec_pubkey_parse (ecc_lib E) pubkey of
          None \<Rightarrow> Some False
        | Some parsed_pubkey \<Rightarrow>
            (case ecdsa_signature_parse_compact (ecc_lib E) signature of
               None \<Rightarrow> Some False
             | Some sig \<Rightarrow>
                 do { (ok, digest) \<leftarrow> crypto_hash (ecc_lib E) message SHA256_DIGEST_SIZE ALG_SHA256;
                      Some (ok \<and> ecdsa_verify (ecc_lib E) sig digest parsed_pubkey) }))"

text \<open>The status, the signature and the key handle: after a failure both buffers are zero.\<close>

definition crypto_ecc_secp256k1_schnorr_sign_hash32 ::
  "ecc_env \<Rightarrow> 'c crypto_ops \<Rightarrow> key_handle_t \<Rightarrow> bytes \<Rightarrow> nat \<Rightarrow> 'c \<Rightarrow>
   (bool \<times> bytes \<times> key_handle_t \<times> 'c) option" where
  "crypto_ecc_secp256k1_schnorr_sign_hash32 E C key hash signature_size c =
     (if signature_size \<noteq> ECC_SIG_SIZE \<or> \<not> ecc_ctx E then None
      else let L = ecc_lib E;
               out = (\<lambda>c. Some (False, replicate signature_size 0,
                                key\<lparr>kh_bytes := replicate (length (kh_bytes key)) 0\<rparr>, c))
           in case crypto_random C 32 c of (ok, blinding_seed, c) \<Rightarrow>
              if \<not> ok \<or> \<not> context_randomize L blinding_seed then out c
              else case crypto_random C 32 c of (ok, auxiliary_rand, c) \<Rightarrow>
              if \<not> ok then out c
              else case schnorrsig_sign32 L hash (kh_bytes key) auxiliary_rand of
                None \<Rightarrow> out c
              | Some signature \<Rightarrow>
                  (case keypair_xonly_pub L (kh_bytes key) of
                     None \<Rightarrow> out c
                   | Some pubkey \<Rightarrow>
                       if schnorrsig_verify L signature hash pubkey then Some (True, signature, key, c)
                       else out c))"

text \<open>The status, the verdict, the signature and the key handle.\<close>

definition crypto_ecc_secp256k1_schnorr_verify_hash32 ::
  "ecc_env \<Rightarrow> key_handle_t \<Rightarrow> bytes \<Rightarrow> bytes \<Rightarrow> (bool \<times> bool \<times> bytes \<times> key_handle_t) option" where
  "crypto_ecc_secp256k1_schnorr_verify_hash32 E key hash signature =
     (if length signature \<noteq> ECC_SIG_SIZE \<or> \<not> ecc_ctx E then None
      else Some (case keypair_xonly_pub (ecc_lib E) (kh_bytes key) of
          None \<Rightarrow> (False, False, replicate (length signature) 0,
                   key\<lparr>kh_bytes := replicate (length (kh_bytes key)) 0\<rparr>)
        | Some pubkey \<Rightarrow> (True, schnorrsig_verify (ecc_lib E) signature hash pubkey, signature, key)))"

text \<open>The checks of \<open>sign_ok\<close> are modelled without faults.\<close>

definition crypto_ecc_secp256k1_ecdsa_sign_hash32 ::
  "ecc_env \<Rightarrow> 'c crypto_ops \<Rightarrow> key_handle_t \<Rightarrow> bytes \<Rightarrow> nat \<Rightarrow> 'c \<Rightarrow>
   (bool \<times> bytes \<times> key_handle_t \<times> 'c) option" where
  "crypto_ecc_secp256k1_ecdsa_sign_hash32 E C privkey hash signature_size c =
     (if signature_size \<noteq> ECC_SIG_SIZE \<or> \<not> ecc_ctx E then None
      else let L = ecc_lib E;
               out = (\<lambda>c. Some (False, replicate signature_size 0,
                                privkey\<lparr>kh_bytes := replicate (length (kh_bytes privkey)) 0\<rparr>, c))
           in case crypto_random C 32 c of (ok, blinding_seed, c) \<Rightarrow>
              if \<not> ok \<or> \<not> context_randomize L blinding_seed then out c
              else case ecdsa_sign L hash (kh_bytes privkey) of
                None \<Rightarrow> out c
              | Some sig \<Rightarrow> Some (True, ecdsa_signature_serialize_compact L sig, privkey, c))"

definition crypto_ecc_secp256k1_schnorr_sign ::
  "ecc_env \<Rightarrow> 'c crypto_ops \<Rightarrow> key_handle_t \<Rightarrow> bytes \<Rightarrow> nat \<Rightarrow> 'c \<Rightarrow>
   (bool \<times> bytes \<times> key_handle_t \<times> 'c) option" where
  "crypto_ecc_secp256k1_schnorr_sign E C key message signature_size c =
     (if signature_size \<noteq> ECC_SIG_SIZE then None
      else do { (ok, digest) \<leftarrow> crypto_hash (ecc_lib E) message SHA256_DIGEST_SIZE ALG_SHA256;
                if \<not> ok then Some (False, [], key, c)
                else crypto_ecc_secp256k1_schnorr_sign_hash32 E C key digest signature_size c })"

definition crypto_ecc_secp256k1_schnorr_verify ::
  "ecc_env \<Rightarrow> key_handle_t \<Rightarrow> bytes \<Rightarrow> bytes \<Rightarrow> (bool \<times> bool \<times> bytes \<times> key_handle_t) option" where
  "crypto_ecc_secp256k1_schnorr_verify E key message signature =
     (if length signature \<noteq> ECC_SIG_SIZE then None
      else do { (ok, digest) \<leftarrow> crypto_hash (ecc_lib E) message SHA256_DIGEST_SIZE ALG_SHA256;
                if \<not> ok then Some (False, False, signature, key)
                else crypto_ecc_secp256k1_schnorr_verify_hash32 E key digest signature })"

text \<open>The status, the private key (zero after a failure), the x-only public key and \<open>*y_is_even\<close>.\<close>

definition crypto_ecc_secp256k1_priv_to_xonly_pub ::
  "ecc_env \<Rightarrow> bytes \<Rightarrow> (bool \<times> bytes \<times> bytes \<times> bool) option" where
  "crypto_ecc_secp256k1_priv_to_xonly_pub E privkey =
     (if \<not> ecc_ctx E then None
      else let L = ecc_lib E; out = (False, replicate SECP256K1_KEY_SIZE 0, [], False)
           in case ec_pubkey_create L privkey of
                None \<Rightarrow> Some out
              | Some pubkey \<Rightarrow>
                  (case xonly_pubkey_from_pubkey L pubkey of
                     None \<Rightarrow> Some out
                   | Some (pubkey_xonly, parity) \<Rightarrow>
                       if parity \<noteq> 0 \<and> parity \<noteq> 1 then None
                       else (case xonly_pubkey_serialize L pubkey_xonly of
                               None \<Rightarrow> Some out
                             | Some pubkey_out \<Rightarrow> Some (True, privkey, pubkey_out, parity = 0))))"

definition crypto_ecc_secp256k1_priv_to_sec_encoded_pub ::
  "ecc_env \<Rightarrow> bytes \<Rightarrow> (bool \<times> bytes \<times> bytes) option" where
  "crypto_ecc_secp256k1_priv_to_sec_encoded_pub E privkey =
     do { (ok, privkey, xonly, y_is_even) \<leftarrow> crypto_ecc_secp256k1_priv_to_xonly_pub E privkey;
          if \<not> ok then Some (False, privkey, [])
          else Some (True, privkey, (if y_is_even then 0x02 else 0x03) # xonly) }"

definition crypto_ecc_secp256k1_priv_tweak_add :: "ecc_env \<Rightarrow> bytes \<Rightarrow> bytes \<Rightarrow> bool \<times> bytes" where
  "crypto_ecc_secp256k1_priv_tweak_add E privkey tweak = ec_seckey_tweak_add (ecc_lib E) privkey tweak"

text \<open>The status and the encoded key, which is unchanged after a failure.\<close>

definition crypto_ecc_secp256k1_pub_tweak_add :: "ecc_env \<Rightarrow> bytes \<Rightarrow> bytes \<Rightarrow> bool \<times> bytes" where
  "crypto_ecc_secp256k1_pub_tweak_add E sec_encoded_pubkey tweak =
     (let L = ecc_lib E
      in case ec_pubkey_parse L sec_encoded_pubkey of
           None \<Rightarrow> (False, sec_encoded_pubkey)
         | Some pubkey \<Rightarrow>
             (case ec_pubkey_tweak_add L pubkey tweak of
                None \<Rightarrow> (False, sec_encoded_pubkey)
              | Some pubkey \<Rightarrow>
                  (case ec_pubkey_serialize L pubkey of
                     None \<Rightarrow> (False, sec_encoded_pubkey)
                   | Some encoded \<Rightarrow> (True, encoded))))"

definition crypto_ecc_secp256k1_normalize_signature :: "ecc_env \<Rightarrow> bytes \<Rightarrow> (bool \<times> bytes) option" where
  "crypto_ecc_secp256k1_normalize_signature E signature =
     (if \<not> ecc_ctx E then None
      else Some (case ecdsa_signature_parse_compact (ecc_lib E) signature of
          None \<Rightarrow> (False, signature)
        | Some sig \<Rightarrow>
            (case ecdsa_signature_normalize (ecc_lib E) sig of (high, sig) \<Rightarrow>
               (True, if high then ecdsa_signature_serialize_compact (ecc_lib E) sig else signature))))"

definition crypto_ecc_secp256k1_pubkey_verify :: "ecc_env \<Rightarrow> bytes \<Rightarrow> bool option" where
  "crypto_ecc_secp256k1_pubkey_verify E pubkey =
     (if \<not> ecc_ctx E then None else Some (ec_pubkey_parse (ecc_lib E) pubkey \<noteq> None))"

section \<open>Private keys of other curves\<close>

fun or_bytes :: "u8 \<Rightarrow> bytes \<Rightarrow> u8" where
  "or_bytes v [] = v"
| "or_bytes v (b # bs) = or_bytes (v OR b) bs"

definition all_zeroes :: "bytes \<Rightarrow> bool" where
  "all_zeroes buf = (or_bytes 0 buf = 0)"

definition clamp_ed25519_private_key :: "bytes \<Rightarrow> bytes" where
  "clamp_ed25519_private_key privkey =
     (let k = privkey[0 := privkey ! 0 AND 248];
          k = k[31 := k ! 31 AND 127]
      in k[31 := k ! 31 OR 64])"

definition p256_n :: bytes where
  "p256_n = [0xff, 0xff, 0xff, 0xff, 0x00, 0x00, 0x00, 0x00, 0xff, 0xff, 0xff, 0xff, 0xff, 0xff, 0xff, 0xff,
             0xbc, 0xe6, 0xfa, 0xad, 0xa7, 0x17, 0x9e, 0x84, 0xf3, 0xb9, 0xca, 0xc2, 0xfc, 0x63, 0x25, 0x51]"

definition crypto_ecc_validate_private_key :: "key_handle_t \<Rightarrow> bool \<times> key_handle_t" where
  "crypto_ecc_validate_private_key privkey =
     (if all_zeroes (kh_bytes privkey) then (False, privkey)
      else case kh_alg privkey of
          ALG_ECC_P256 \<Rightarrow> (memcmp_s (kh_bytes privkey) p256_n (length (kh_bytes privkey)) < 0, privkey)
        | ALG_ECC_ED25519 \<Rightarrow> (True, privkey\<lparr>kh_bytes := clamp_ed25519_private_key (kh_bytes privkey)\<rparr>)
        | _ \<Rightarrow> (False, privkey))"

section \<open>Signing and verification in the engine\<close>

text \<open>With faults at the decision points in \<open>flip\<close>: 0 to 2 are the evaluations of the last check.\<close>

definition crypto_ecc_verify_hash :: "ecc_ops \<Rightarrow> nat set \<Rightarrow> key_handle_t \<Rightarrow> bytes \<Rightarrow> bytes \<Rightarrow> secure_bool_t" where
  "crypto_ecc_verify_hash L flip key hash signature =
     (if \<not> se_init L then SECURE_FALSE
      else let ok = (if se_ecc_verify L key hash signature then SECURE_TRUE else SECURE_FALSE)
           in if SECURE_IF_FAILOUT (\<lambda>i. glitched flip i (ok = SECURE_TRUE)) then SECURE_TRUE else SECURE_FALSE)"

text \<open>The result and the signature.\<close>

definition crypto_ecc_sign_hash ::
  "ecc_env \<Rightarrow> nat set \<Rightarrow> key_handle_t \<Rightarrow> bytes \<Rightarrow> bytes \<Rightarrow> (secure_bool_t \<times> bytes) option" where
  "crypto_ecc_sign_hash E flip privkey hash signature =
     (let L = ecc_lib E
      in if kh_acl privkey AND SE_KEY_FLAG_ASYMMETRIC_BUFFER_HAS_PRIVATE_KEY = 0 \<or> \<not> se_init L
         then Some (SECURE_FALSE, signature)
         else do { (ok, signature) \<leftarrow>
                     (case se_ecc_sign L privkey hash of
                        None \<Rightarrow> Some (SECURE_FALSE, signature)
                      | Some signature \<Rightarrow>
                          if kh_alg privkey = ALG_ECC_SECP256K1
                          then do { (normalized, signature) \<leftarrow> crypto_ecc_secp256k1_normalize_signature E signature;
                                    Some (if normalized then SECURE_TRUE else SECURE_FALSE, signature) }
                          else Some (SECURE_TRUE, signature));
                   Some (if SECURE_IF_FAILOUT (\<lambda>i. glitched flip i (ok = SECURE_TRUE))
                         then SECURE_TRUE else SECURE_FALSE, signature) })"

text \<open>The domain parameters in the order in which they are placed before the private key.\<close>

definition secp256k1_p :: bytes where
  "secp256k1_p =
     [0xff, 0xff, 0xff, 0xff, 0xff, 0xff, 0xff, 0xff, 0xff, 0xff, 0xff, 0xff, 0xff, 0xff, 0xff, 0xff,
      0xff, 0xff, 0xff, 0xff, 0xff, 0xff, 0xff, 0xff, 0xff, 0xff, 0xff, 0xfe, 0xff, 0xff, 0xfc, 0x2f]"

definition secp256k1_N :: bytes where
  "secp256k1_N =
     [0xff, 0xff, 0xff, 0xff, 0xff, 0xff, 0xff, 0xff, 0xff, 0xff, 0xff, 0xff, 0xff, 0xff, 0xff, 0xfe,
      0xba, 0xae, 0xdc, 0xe6, 0xaf, 0x48, 0xa0, 0x3b, 0xbf, 0xd2, 0x5e, 0x8c, 0xd0, 0x36, 0x41, 0x41]"

definition secp256k1_Gx :: bytes where
  "secp256k1_Gx =
     [0x79, 0xbe, 0x66, 0x7e, 0xf9, 0xdc, 0xbb, 0xac, 0x55, 0xa0, 0x62, 0x95, 0xce, 0x87, 0x0b, 0x07,
      0x02, 0x9b, 0xfc, 0xdb, 0x2d, 0xce, 0x28, 0xd9, 0x59, 0xf2, 0x81, 0x5b, 0x16, 0xf8, 0x17, 0x98]"

definition secp256k1_Gy :: bytes where
  "secp256k1_Gy =
     [0x48, 0x3a, 0xda, 0x77, 0x26, 0xa3, 0xc4, 0x65, 0x5d, 0xa4, 0xfb, 0xfc, 0x0e, 0x11, 0x08, 0xa8,
      0xfd, 0x17, 0xb4, 0x48, 0xa6, 0x85, 0x54, 0x19, 0x9c, 0x47, 0xd0, 0x8f, 0xfb, 0x10, 0xd4, 0xb8]"

definition secp256k1_a :: bytes where "secp256k1_a = replicate 32 0"
definition secp256k1_b :: bytes where "secp256k1_b = replicate 31 0 @ [7]"

abbreviation SECP256K1_CUSTOM_DOMAIN_OVERHEAD :: nat where "SECP256K1_CUSTOM_DOMAIN_OVERHEAD \<equiv> 192"

definition key_management_custom_domain_prepare ::
  "key_algorithm_t \<Rightarrow> bytes \<Rightarrow> (nat \<times> bytes) option" where
  "key_management_custom_domain_prepare alg buffer =
     (if alg \<noteq> ALG_ECC_SECP256K1 \<or> length buffer < SECP256K1_CUSTOM_DOMAIN_OVERHEAD then None
      else let params = secp256k1_p @ secp256k1_N @ secp256k1_Gx @ secp256k1_Gy @ secp256k1_a @ secp256k1_b
           in if length params \<noteq> SECP256K1_CUSTOM_DOMAIN_OVERHEAD then None
              else Some (length params, mem_write buffer 0 params))"

section \<open>Big-endian numbers\<close>

definition be_val :: "bytes \<Rightarrow> nat" where
  "be_val bs = foldl (\<lambda>a b. 256 * a + unat b) 0 bs"

definition be_enc :: "nat \<Rightarrow> nat \<Rightarrow> bytes" where
  "be_enc len v = map (\<lambda>i. word_of_nat (v div 256 ^ (len - Suc i))) [0..<len]"

lemma length_be_enc [simp]: "length (be_enc len v) = len"
  by (simp add: be_enc_def)

lemma be_val_foldl: "foldl (\<lambda>a b. 256 * a + unat (b :: u8)) a bs = a * 256 ^ length bs + be_val bs"
proof (induction bs arbitrary: a)
  case (Cons b bs)
  show ?case using Cons [of "256 * a + unat b"] Cons [of "unat b"]
    by (simp add: be_val_def algebra_simps)
qed (simp add: be_val_def)

lemma be_val_simps [simp]: "be_val [] = 0" "be_val (b # bs) = unat b * 256 ^ length bs + be_val bs"
  using be_val_foldl [of "unat b" bs] by (simp_all add: be_val_def)

lemma be_val_append [simp]: "be_val (xs @ ys) = be_val xs * 256 ^ length ys + be_val ys"
  by (induction xs) (simp_all add: algebra_simps power_add)

lemma be_val_less: "be_val bs < 256 ^ length bs"
proof (induction bs)
  case (Cons b bs)
  have "Suc (unat b) * 256 ^ length bs \<le> 256 * 256 ^ length bs"
    using unat_u8_less [of b] by (intro mult_le_mono1) simp
  then have "unat b * 256 ^ length bs + 256 ^ length bs \<le> 256 ^ length (b # bs)" by (simp only: mult_Suc list.size power_Suc add.commute) simp
  with Cons show ?case by (simp only: be_val_simps)
qed simp

lemma be_enc_Suc: "be_enc (Suc len) v = word_of_nat (v div 256 ^ len) # be_enc len v"
  by (simp add: be_enc_def map_upt_Suc del: upt_Suc)

lemma be_val_enc: "be_val (be_enc len v) = v mod 256 ^ len"
proof (induction len)
  case (Suc len)
  have "v mod (256 ^ len * 256) = 256 ^ len * (v div 256 ^ len mod 256) + v mod 256 ^ len"
    by (rule mod_mult2_eq)
  with Suc show ?case by (simp add: be_enc_Suc unat_of_nat mult.commute)
qed (simp add: be_enc_def)

lemma be_enc_val: "length bs = len \<Longrightarrow> be_enc len (be_val bs) = bs"
proof (induction bs arbitrary: len)
  case (Cons b bs)
  have l: "be_val bs < 256 ^ length bs" by (rule be_val_less)
  have e: "be_enc n (a * 256 ^ n + v) = be_enc n v" for n a v
  proof -
    have "(a * 256 ^ n + v) div 256 ^ (n - Suc i) mod 256 = v div 256 ^ (n - Suc i) mod 256" if "i < n" for i
    proof -
      have "(256 :: nat) ^ n = 256 * 256 ^ i * 256 ^ (n - Suc i)"
        using that by (simp flip: power_add power_Suc)
      then have "a * 256 ^ n + v = v + (a * 256 ^ i * 256) * 256 ^ (n - Suc i)" by (simp only: ac_simps)
      then have "(a * 256 ^ n + v) div 256 ^ (n - Suc i) = a * 256 ^ i * 256 + v div 256 ^ (n - Suc i)"
        by (simp only: div_mult_self1 power_not_zero zero_neq_numeral not_False_eq_True)
      then show ?thesis by simp
    qed
    then have "(word_of_nat ((a * 256 ^ n + v) div 256 ^ (n - Suc i)) :: u8) = word_of_nat (v div 256 ^ (n - Suc i))"
      if "i < n" for i using that by (simp add: word_unat_eq_iff unat_of_nat)
    then show ?thesis by (simp add: be_enc_def)
  qed
  show ?case using Cons l by (simp add: be_enc_Suc e flip: Cons.prems)
qed (simp add: be_enc_def)

section \<open>The library's contract\<close>

definition secp256k1_order :: nat where
  "secp256k1_order = be_val secp256k1_N"

abbreviation seckey_ok :: "bytes \<Rightarrow> bool" where
  "seckey_ok d \<equiv> length d = SECP256K1_KEY_SIZE \<and> 0 < be_val d \<and> be_val d < secp256k1_order"

text \<open>
  The documented behaviour of libsecp256k1 and of the engine's keyed hash.  The points of the curve are the
  multiples \<open>pt a\<close> of the generator with \<open>0 < a < secp256k1_order\<close>; a secret key is its
  big-endian value; a tweak is added modulo the order and refused when it is out of range or the
  sum is zero; the compressed form of a point is its parity byte and its x coordinate, and parsing
  it gives the point back.
\<close>

locale secp256k1_lib =
  fixes L :: ecc_ops
    and pt :: "nat \<Rightarrow> bytes"
  assumes verify_law: "length d = SECP256K1_KEY_SIZE \<Longrightarrow> ec_seckey_verify L d = seckey_ok d"
    and create_law: "seckey_ok d \<Longrightarrow> ec_pubkey_create L d = Some (pt (be_val d))"
    and seckey_tweak_law: "seckey_ok d \<Longrightarrow> length t = 32 \<Longrightarrow> ec_seckey_tweak_add L d t = (ok, d') \<Longrightarrow>
      ok = (be_val t < secp256k1_order \<and> (be_val d + be_val t) mod secp256k1_order \<noteq> 0) \<and>
      (ok \<longrightarrow> length d' = SECP256K1_KEY_SIZE \<and> be_val d' = (be_val d + be_val t) mod secp256k1_order)"
    and pubkey_tweak_law: "0 < a \<Longrightarrow> a < secp256k1_order \<Longrightarrow> length t = 32 \<Longrightarrow>
      ec_pubkey_tweak_add L (pt a) t =
        (if be_val t < secp256k1_order \<and> (a + be_val t) mod secp256k1_order \<noteq> 0
         then Some (pt ((a + be_val t) mod secp256k1_order)) else None)"
    and serialize_law: "0 < a \<Longrightarrow> a < secp256k1_order \<Longrightarrow>
      \<exists>x parity xs. xonly_pubkey_from_pubkey L (pt a) = Some (x, parity) \<and> parity \<in> {0, 1} \<and>
        xonly_pubkey_serialize L x = Some xs \<and> length xs = SECP256K1_KEY_SIZE \<and>
        ec_pubkey_serialize L (pt a) = Some ((if parity = 0 then 2 else 3) # xs)"
    and parse_law: "0 < a \<Longrightarrow> a < secp256k1_order \<Longrightarrow> ec_pubkey_serialize L (pt a) = Some enc \<Longrightarrow>
      ec_pubkey_parse L enc = Some (pt a)"
    and hmac_law: "se_hmac L ty msg k n = Some digest \<Longrightarrow> length digest = n"
begin

definition sec1 :: "nat \<Rightarrow> bytes" where
  "sec1 a = the (ec_pubkey_serialize L (pt a))"

lemma sec1_shape:
  assumes "0 < a" "a < secp256k1_order"
  shows "ec_pubkey_serialize L (pt a) = Some (sec1 a)" "length (sec1 a) = 33" "hd (sec1 a) \<in> {2, 3}"
    "ec_pubkey_parse L (sec1 a) = Some (pt a)"
  using serialize_law [OF assms] parse_law [OF assms] by (auto simp: sec1_def)

lemma priv_to_sec:
  assumes "seckey_ok d" "ecc_ctx E" "ecc_lib E = L"
  shows "crypto_ecc_secp256k1_priv_to_sec_encoded_pub E d = Some (True, d, sec1 (be_val d))"
proof -
  obtain x parity xs where s: "xonly_pubkey_from_pubkey L (pt (be_val d)) = Some (x, parity)" "parity \<in> {0, 1}"
    "xonly_pubkey_serialize L x = Some xs" "ec_pubkey_serialize L (pt (be_val d)) = Some ((if parity = 0 then 2 else 3) # xs)"
    using serialize_law assms(1) by blast
  then have "sec1 (be_val d) = (if parity = 0 then 2 else 3) # xs" by (simp add: sec1_def)
  with s show ?thesis
    using create_law [OF assms(1)] assms(2,3)
    by (auto simp: crypto_ecc_secp256k1_priv_to_sec_encoded_pub_def
        crypto_ecc_secp256k1_priv_to_xonly_pub_def)
qed

lemma order_pos: "0 < secp256k1_order"
  by (simp add: secp256k1_order_def secp256k1_N_def)

text \<open>Tweaking the secret key and tweaking the public key agree.\<close>

lemma tweaks_agree:
  assumes "seckey_ok d" "length t = 32" "ecc_lib E = L"
    and "crypto_ecc_secp256k1_priv_tweak_add E d t = (ok, d')"
  shows "crypto_ecc_secp256k1_pub_tweak_add E (sec1 (be_val d)) t =
      (ok, if ok then sec1 (be_val d') else sec1 (be_val d)) \<and> (ok \<longrightarrow> seckey_ok d')"
proof -
  let ?a = "be_val d" and ?b = "(be_val d + be_val t) mod secp256k1_order"
  have k: "ok = (be_val t < secp256k1_order \<and> ?b \<noteq> 0)" "ok \<longrightarrow> length d' = 32 \<and> be_val d' = ?b"
    using seckey_tweak_law [OF assms(1,2)] assms(3,4)
    by (simp_all add: crypto_ecc_secp256k1_priv_tweak_add_def)
  have b: "?b < secp256k1_order" using order_pos by simp
  note p = sec1_shape [of ?a] pubkey_tweak_law [of ?a, OF _ _ assms(2)]
  show ?thesis
  proof (cases ok)
    case True
    then have "0 < ?b" using k by simp
    from sec1_shape(1) [OF this b] show ?thesis
      using True p assms(1,3) k b by (simp add: crypto_ecc_secp256k1_pub_tweak_add_def)
  next
    case False
    then show ?thesis
      using p assms(1,3) k by (auto simp: crypto_ecc_secp256k1_pub_tweak_add_def)
  qed
qed

end

text \<open>A library over the integers modulo the order.\<close>

definition toy_tweak :: "bytes \<Rightarrow> bytes \<Rightarrow> bytes option" where
  "toy_tweak d t =
     (let s = (be_val d + be_val t) mod secp256k1_order
      in if be_val t < secp256k1_order \<and> s \<noteq> 0 then Some (be_enc 32 s) else None)"

definition toy_ecc :: ecc_ops where
  "toy_ecc = \<lparr>
     se_init = True,
     se_hash = (\<lambda>_ msg n. Some (replicate n (word_of_nat (length msg)))),
     se_hmac = (\<lambda>_ msg k n. Some (replicate n 1)),
     se_ecc_sign = (\<lambda>k h. Some (replicate 64 1)),
     se_ecc_verify = (\<lambda>k h sig. sig = replicate 64 1),
     context_randomize = (\<lambda>_. True),
     ec_seckey_verify = (\<lambda>d. seckey_ok d),
     ec_pubkey_create = (\<lambda>d. if seckey_ok d then Some d else None),
     ec_pubkey_parse = (\<lambda>enc. case enc of [] \<Rightarrow> None | h # xs \<Rightarrow> if h = 2 \<and> seckey_ok xs then Some xs else None),
     ec_pubkey_serialize = (\<lambda>p. Some (2 # p)),
     ec_seckey_tweak_add = (\<lambda>d t. case toy_tweak d t of None \<Rightarrow> (False, d) | Some d' \<Rightarrow> (True, d')),
     ec_pubkey_tweak_add = toy_tweak,
     xonly_pubkey_from_pubkey = (\<lambda>p. Some (p, 0)),
     xonly_pubkey_serialize = Some,
     keypair_create = (\<lambda>d. if seckey_ok d then (True, d @ replicate 64 0) else (False, replicate 96 0)),
     keypair_xonly_pub = (\<lambda>kp. Some (take 32 kp)),
     schnorrsig_sign32 = (\<lambda>h kp aux. Some (h @ take 32 kp)),
     schnorrsig_verify = (\<lambda>sig h p. sig = h @ p),
     ecdsa_sign = (\<lambda>h k. Some (h @ k)),
     ecdsa_verify = (\<lambda>sig h p. sig = h @ p),
     ecdsa_signature_parse_compact = Some,
     ecdsa_signature_serialize_compact = (\<lambda>sig. sig),
     ecdsa_signature_normalize = (\<lambda>sig. (False, sig))\<rparr>"

lemma secp256k1_order_bound: "0 < secp256k1_order" "secp256k1_order < 256 ^ 32"
  using be_val_less [of secp256k1_N] by (simp_all add: secp256k1_order_def secp256k1_N_def)

lemma be_val_enc_mod: "be_val (be_enc 32 (a mod secp256k1_order)) = a mod secp256k1_order"
proof -
  have "a mod secp256k1_order < 256 ^ 32"
    using secp256k1_order_bound mod_less_divisor order_less_trans by blast
  then show ?thesis by (simp add: be_val_enc)
qed

lemma seckey_ok_enc: "0 < a \<Longrightarrow> a < secp256k1_order \<Longrightarrow> seckey_ok (be_enc 32 a)"
  using be_val_enc_mod [of a] by simp

interpretation toy: secp256k1_lib toy_ecc "be_enc 32"
proof (unfold_locales, goal_cases)
  case (2 d)
  then show ?case using be_enc_val [of d 32] by (simp add: toy_ecc_def)
next
  case (3 d t ok d')
  then show ?case
    using be_val_enc_mod [of "be_val d + be_val t"]
    by (auto simp: toy_ecc_def toy_tweak_def Let_def split: if_splits)
next
  case (4 a t)
  then show ?case using be_val_enc_mod [of a] by (simp add: toy_ecc_def toy_tweak_def Let_def)
next
  case (6 a enc)
  then show ?case using seckey_ok_enc [OF 6(1,2)] by (auto simp: toy_ecc_def)
qed (auto simp: toy_ecc_def)

abbreviation toy_env :: ecc_env where
  "toy_env \<equiv> \<lparr>ecc_lib = toy_ecc, ecc_ctx = True\<rparr>"

section \<open>Properties\<close>

text \<open>C7: A Schnorr signature is only returned after it has been verified with the public key of the
  key pair; in every other case the signature and the key buffer are wiped.\<close>

theorem schnorr_sign_verified:
  assumes "crypto_ecc_secp256k1_schnorr_sign_hash32 E C key hash n c = Some (ok, signature, key', c')"
  shows "(ok \<longrightarrow> key' = key \<and> (\<exists>pubkey. keypair_xonly_pub (ecc_lib E) (kh_bytes key) = Some pubkey \<and>
            schnorrsig_verify (ecc_lib E) signature hash pubkey)) \<and>
    (\<not> ok \<longrightarrow> signature = replicate ECC_SIG_SIZE 0 \<and> kh_bytes key' = replicate (length (kh_bytes key)) 0)"
  using assms
  by (auto simp: crypto_ecc_secp256k1_schnorr_sign_hash32_def Let_def split: if_splits prod.splits option.splits)

theorem schnorr_sign_verified_witness:
  "\<exists>signature. crypto_ecc_secp256k1_schnorr_sign_hash32 toy_env ram_crypto
      \<lparr>kh_alg = ALG_ECC_SECP256K1, kh_acl = 0, kh_storage = KEY_STORAGE_EXTERNAL_PLAINTEXT,
       kh_bytes = replicate 96 7\<rparr> (replicate 32 5) 64 0 =
      Some (True, signature, \<lparr>kh_alg = ALG_ECC_SECP256K1, kh_acl = 0,
        kh_storage = KEY_STORAGE_EXTERNAL_PLAINTEXT, kh_bytes = replicate 96 7\<rparr>, 2) \<and>
    schnorrsig_verify toy_ecc signature (replicate 32 5) (replicate 32 7)"
proof -
  let ?k = "\<lparr>kh_alg = ALG_ECC_SECP256K1, kh_acl = 0, kh_storage = KEY_STORAGE_EXTERNAL_PLAINTEXT,
       kh_bytes = replicate 96 7\<rparr>"
  have s: "crypto_ecc_secp256k1_schnorr_sign_hash32 toy_env ram_crypto ?k (replicate 32 5) 64 0 =
      Some (True, replicate 32 5 @ replicate 32 7, ?k, 2)"
    by (simp add: crypto_ecc_secp256k1_schnorr_sign_hash32_def toy_ecc_def ram_crypto_def)
  from schnorr_sign_verified [OF s] show ?thesis using s by (auto simp: toy_ecc_def)
qed

text \<open>The random source after a number of draws.\<close>

fun draws :: "'c crypto_ops \<Rightarrow> nat \<Rightarrow> 'c \<Rightarrow> 'c" where
  "draws C 0 c = c"
| "draws C (Suc n) c = draws C n (snd (snd (crypto_random C SECP256K1_KEY_SIZE c)))"

lemma generate_keypair_loop_returns:
  assumes "\<forall>i\<le>n. fst (crypto_random C SECP256K1_KEY_SIZE (draws C i c))"
    and "fst (keypair_create L (fst (snd (crypto_random C SECP256K1_KEY_SIZE (draws C n c)))))"
  shows "\<exists>kp i. generate_keypair_loop L C kb c = Some (True, kp, draws C (Suc i) c) \<and> i \<le> n \<and>
    keypair_create L (fst (snd (crypto_random C SECP256K1_KEY_SIZE (draws C i c)))) = (True, kp)"
  using assms
proof (induction n arbitrary: c kb)
  case 0
  then show ?case
    by (subst generate_keypair_loop.simps) (auto intro!: exI [of _ "0 :: nat"] split: prod.splits)
next
  case (Suc n)
  obtain ok sk c1 where r: "crypto_random C SECP256K1_KEY_SIZE c = (ok, sk, c1)" using prod_cases3 by blast
  have ok: ok using Suc.prems(1) r by (metis draws.simps(1) fst_conv le0)
  obtain created kb1 where k: "keypair_create L sk = (created, kb1)" by fastforce
  show ?case
  proof (cases created)
    case False
    have "\<forall>i\<le>n. fst (crypto_random C SECP256K1_KEY_SIZE (draws C i c1))"
      using Suc.prems(1) r by (metis Suc_le_mono draws.simps(2) snd_conv)
    moreover have "fst (keypair_create L (fst (snd (crypto_random C SECP256K1_KEY_SIZE (draws C n c1)))))"
      using Suc.prems(2) r by simp
    ultimately obtain kp i where "generate_keypair_loop L C kb1 c1 = Some (True, kp, draws C (Suc i) c1)" "i \<le> n"
      "keypair_create L (fst (snd (crypto_random C SECP256K1_KEY_SIZE (draws C i c1)))) = (True, kp)"
      using Suc.IH [of c1 kb1] by blast
    then show ?thesis using r ok k False
      by (subst generate_keypair_loop.simps) (auto intro!: exI [of _ "Suc i"])
  next
    case True
    then show ?thesis using r ok k
      by (subst generate_keypair_loop.simps) (auto intro!: exI [of _ "0 :: nat"])
  qed
qed

text \<open>C19: Key generation ends: if the random source keeps delivering and its \<open>n\<close>-th draw is a valid
  secret key, the function returns with the key pair of one of the draws up to the \<open>n\<close>-th.\<close>

theorem generate_keypair_returns:
  assumes "ecc_ctx E" "length (kh_bytes key) = SECP256K1_KEYPAIR_SIZE"
    and "\<forall>i\<le>n. fst (crypto_random C SECP256K1_KEY_SIZE (draws C i c))"
    and "fst (keypair_create (ecc_lib E) (fst (snd (crypto_random C SECP256K1_KEY_SIZE (draws C n c)))))"
  shows "\<exists>kp i. crypto_ecc_secp256k1_generate_keypair E C key c =
      Some (True, key\<lparr>kh_bytes := kp\<rparr>, draws C (Suc i) c) \<and> i \<le> n \<and>
    keypair_create (ecc_lib E) (fst (snd (crypto_random C SECP256K1_KEY_SIZE (draws C i c)))) = (True, kp)"
proof -
  obtain kp i where "generate_keypair_loop (ecc_lib E) C (kh_bytes key) c = Some (True, kp, draws C (Suc i) c)" "i \<le> n"
    "keypair_create (ecc_lib E) (fst (snd (crypto_random C SECP256K1_KEY_SIZE (draws C i c)))) = (True, kp)"
    using generate_keypair_loop_returns [OF assms(3,4)] by blast
  then show ?thesis
    using assms(1,2) by (intro exI [of _ kp] exI [of _ i]) (simp add: crypto_ecc_secp256k1_generate_keypair_def)
qed

lemma seckey_ok_hd:
  assumes "length d = 32" "0 < hd d" "hd d < 0xff"
  shows "seckey_ok d"
proof -
  obtain b bs where d: "d = b # bs" "length bs = 31" using assms(1) by (cases d) auto
  have b: "0 < unat b" "unat b < 255" using assms(2,3) d by (simp_all add: word_less_nat_alt)
  have "be_val d < Suc (unat b) * 256 ^ 31" using be_val_less [of bs] d by simp
  also have "\<dots> \<le> 255 * 256 ^ 31" using b(2) by (intro mult_le_mono1) simp
  also have "\<dots> < secp256k1_order" by (simp add: secp256k1_order_def secp256k1_N_def)
  finally have "be_val d < secp256k1_order" .
  moreover have "0 < be_val d" using b(1) by (simp add: d)
  ultimately show ?thesis using assms(1) by simp
qed

theorem generate_keypair_returns_witness:
  "\<exists>kp i. crypto_ecc_secp256k1_generate_keypair toy_env ram_crypto
      \<lparr>kh_alg = ALG_ECC_SECP256K1, kh_acl = 0, kh_storage = KEY_STORAGE_EXTERNAL_PLAINTEXT,
       kh_bytes = replicate 96 0\<rparr> 0 =
      Some (True, \<lparr>kh_alg = ALG_ECC_SECP256K1, kh_acl = 0, kh_storage = KEY_STORAGE_EXTERNAL_PLAINTEXT,
       kh_bytes = kp\<rparr>, draws ram_crypto (Suc i) 0) \<and> i \<le> 1"
proof -
  have "seckey_ok (replicate 32 1)" by (rule seckey_ok_hd) (simp_all add: word_less_nat_alt)
  then have "fst (keypair_create (ecc_lib toy_env)
      (fst (snd (crypto_random ram_crypto SECP256K1_KEY_SIZE (draws ram_crypto 1 0)))))"
    by (simp add: toy_ecc_def ram_crypto_def)
  from generate_keypair_returns [of toy_env
      "\<lparr>kh_alg = ALG_ECC_SECP256K1, kh_acl = 0, kh_storage = KEY_STORAGE_EXTERNAL_PLAINTEXT,
       kh_bytes = replicate 96 0\<rparr>", OF _ _ _ this]
  show ?thesis by (auto simp: ram_crypto_def)
qed

end
