(* ===== verification/Bip32.thy ===== *)
theory Bip32
  imports Ecc
begin

text \<open>
  Hierarchical keys: \<open>lib/bip32/bip32.c\<close>, every function.  Keys are passed by pointer and changed in
  place, so the functions return them with the status, also after a failure; what a failed call
  leaves in an output is part of the model where the code writes it.  \<open>None\<close> is a failed
  assertion.  Pointers that the callers must not pass as NULL are always present; the optional
  ones are options.
\<close>

section \<open>Model of the code\<close>

abbreviation BIP32_MAX_DERIVATION_DEPTH :: nat where "BIP32_MAX_DERIVATION_DEPTH \<equiv> 256"
abbreviation BIP32_KEY_SIZE :: nat where "BIP32_KEY_SIZE \<equiv> 32"
abbreviation BIP32_SEC1_KEY_SIZE :: nat where "BIP32_SEC1_KEY_SIZE \<equiv> 33"
abbreviation BIP32_CHAINCODE_SIZE :: nat where "BIP32_CHAINCODE_SIZE \<equiv> 32"
abbreviation BIP32_SERIALIZED_EXT_KEY_SIZE :: nat where "BIP32_SERIALIZED_EXT_KEY_SIZE \<equiv> 78"
abbreviation BIP32_HARDENED_BIT :: u32 where "BIP32_HARDENED_BIT \<equiv> 0x80000000"
abbreviation BIP32_PRIVKEY_PREFIX :: u8 where "BIP32_PRIVKEY_PREFIX \<equiv> 0x00"
abbreviation SEC1_COMPRESSED_PUBKEY_EVEN :: u8 where "SEC1_COMPRESSED_PUBKEY_EVEN \<equiv> 0x02"
abbreviation SEC1_COMPRESSED_PUBKEY_ODD :: u8 where "SEC1_COMPRESSED_PUBKEY_ODD \<equiv> 0x03"
abbreviation BIP32_KEY_FINGERPRINT_SIZE :: nat where "BIP32_KEY_FINGERPRINT_SIZE \<equiv> 4"

record extended_key_t =
  ek_prefix :: u8
  ek_key :: bytes
  ek_chaincode :: bytes

type_synonym derivation_path_t = "u32 list"

datatype version_bytes_t = MAINNET_PUB | MAINNET_PRIV | TESTNET_PUB | TESTNET_PRIV

definition version_word :: "version_bytes_t \<Rightarrow> u32" where
  "version_word v = (case v of MAINNET_PUB \<Rightarrow> 0x0488B21E | MAINNET_PRIV \<Rightarrow> 0x0488ADE4
     | TESTNET_PUB \<Rightarrow> 0x043587CF | TESTNET_PRIV \<Rightarrow> 0x04358394)"

text \<open>The first 33 bytes of the packed structure.\<close>

definition sec1_of :: "extended_key_t \<Rightarrow> bytes" where
  "sec1_of k = ek_prefix k # ek_key k"

definition set_sec1 :: "bytes \<Rightarrow> extended_key_t \<Rightarrow> extended_key_t" where
  "set_sec1 enc k = k\<lparr>ek_prefix := hd enc, ek_key := tl enc\<rparr>"

definition hardened :: "u32 \<Rightarrow> bool" where
  "hardened index = (index AND BIP32_HARDENED_BIT \<noteq> 0)"

definition compute_identifier :: "ecc_env \<Rightarrow> bytes \<Rightarrow> (bool \<times> bytes) option" where
  "compute_identifier E sec_encoded_pubkey =
     crypto_hash (ecc_lib E) (take BIP32_SEC1_KEY_SIZE sec_encoded_pubkey) HASH160_DIGEST_SIZE ALG_HASH160"

definition ckd_priv_unhardened :: "ecc_env \<Rightarrow> extended_key_t \<Rightarrow> u32 \<Rightarrow> (bool \<times> extended_key_t) option" where
  "ckd_priv_unhardened E k index =
     do { (ok, privkey, pub) \<leftarrow> crypto_ecc_secp256k1_priv_to_sec_encoded_pub E (ek_key k);
          let k = k\<lparr>ek_key := privkey\<rparr>;
          if \<not> ok then Some (False, k)
          else do {
            (ok, digest) \<leftarrow> crypto_hmac (ecc_lib E) (pub @ be32 index) (ek_chaincode k) SHA512_DIGEST_SIZE ALG_SHA512;
            if \<not> ok then Some (False, k)
            else case crypto_ecc_secp256k1_priv_tweak_add E (ek_key k) (take 32 digest) of (ok, privkey) \<Rightarrow>
              let k = k\<lparr>ek_key := privkey\<rparr>
              in Some (if \<not> ok then (False, k)
                       else (True, k\<lparr>ek_chaincode := mem_read BIP32_KEY_SIZE BIP32_CHAINCODE_SIZE digest\<rparr>)) } }"

definition ckd_priv_hardened :: "ecc_env \<Rightarrow> extended_key_t \<Rightarrow> u32 \<Rightarrow> (bool \<times> extended_key_t) option" where
  "ckd_priv_hardened E k index =
     (if \<not> hardened index \<or> ek_prefix k \<noteq> BIP32_PRIVKEY_PREFIX then None
      else do {
        (ok, digest) \<leftarrow> crypto_hmac (ecc_lib E) (sec1_of k @ be32 index) (ek_chaincode k) SHA512_DIGEST_SIZE ALG_SHA512;
        if \<not> ok then Some (False, k)
        else case crypto_ecc_secp256k1_priv_tweak_add E (ek_key k) (take 32 digest) of (ok, privkey) \<Rightarrow>
          let k = k\<lparr>ek_key := privkey\<rparr>
          in Some (if \<not> ok then (False, k)
                   else (True, k\<lparr>ek_chaincode := mem_read BIP32_KEY_SIZE BIP32_CHAINCODE_SIZE digest\<rparr>)) })"

definition ckd_pub :: "ecc_env \<Rightarrow> extended_key_t \<Rightarrow> u32 \<Rightarrow> (bool \<times> extended_key_t) option" where
  "ckd_pub E k index =
     (if ek_prefix k \<noteq> SEC1_COMPRESSED_PUBKEY_EVEN \<and> ek_prefix k \<noteq> SEC1_COMPRESSED_PUBKEY_ODD then None
      else do {
        (ok, digest) \<leftarrow> crypto_hmac (ecc_lib E) (sec1_of k @ be32 index) (ek_chaincode k) SHA512_DIGEST_SIZE ALG_SHA512;
        if \<not> ok then Some (False, k)
        else case crypto_ecc_secp256k1_pub_tweak_add E (sec1_of k) (take 32 digest) of (ok, enc) \<Rightarrow>
          Some (if \<not> ok then (False, k)
                else (True, (set_sec1 enc k)\<lparr>ek_chaincode := mem_read BIP32_KEY_SIZE BIP32_CHAINCODE_SIZE digest\<rparr>)) })"

definition bip32_seed_key :: bytes where
  "bip32_seed_key = map (\<lambda>c. word_of_nat (of_char c)) ''Bitcoin seed''"

definition bip32_derive_master_key ::
  "ecc_env \<Rightarrow> bytes \<Rightarrow> extended_key_t \<Rightarrow> (bool \<times> extended_key_t) option" where
  "bip32_derive_master_key E seed master =
     (if length seed < 16 \<or> 64 < length seed then None
      else do {
        (ok, digest) \<leftarrow> crypto_hmac (ecc_lib E) seed bip32_seed_key SHA512_DIGEST_SIZE ALG_SHA512;
        if \<not> ok then Some (False, master)
        else do {
          let master = master\<lparr>ek_key := take 32 digest, ek_chaincode := drop 32 digest\<rparr>;
          ok \<leftarrow> crypto_ecc_secp256k1_priv_verify E (ek_key master);
          Some (if \<not> ok then (False, master) else (True, master\<lparr>ek_prefix := BIP32_PRIVKEY_PREFIX\<rparr>)) } })"

text \<open>The public half; \<open>pub_out\<close> is what the output held before.\<close>

definition bip32_priv_to_pub ::
  "ecc_env \<Rightarrow> extended_key_t \<Rightarrow> extended_key_t \<Rightarrow> (bool \<times> extended_key_t \<times> extended_key_t) option" where
  "bip32_priv_to_pub E priv_in pub_out =
     (if ek_prefix priv_in \<noteq> BIP32_PRIVKEY_PREFIX then None
      else do {
        (ok, privkey, pub) \<leftarrow> crypto_ecc_secp256k1_priv_to_sec_encoded_pub E (ek_key priv_in);
        let priv_in = priv_in\<lparr>ek_key := privkey\<rparr>;
        Some (if \<not> ok then (False, priv_in, pub_out)
              else (True, priv_in, (set_sec1 pub pub_out)\<lparr>ek_chaincode := ek_chaincode priv_in\<rparr>)) })"

definition zero_key :: extended_key_t where
  "zero_key = \<lparr>ek_prefix = 0, ek_key = replicate 32 0, ek_chaincode = replicate 32 0\<rparr>"

definition bip32_zero_key :: "extended_key_t \<Rightarrow> extended_key_t" where
  "bip32_zero_key k = zero_key"

text \<open>The status, the key and the fingerprint.\<close>

definition bip32_compute_fingerprint ::
  "ecc_env \<Rightarrow> extended_key_t \<Rightarrow> bytes \<Rightarrow> (bool \<times> extended_key_t \<times> bytes) option" where
  "bip32_compute_fingerprint E k fingerprint =
     do { (ok, k, pub_key) \<leftarrow>
            (if ek_prefix k = BIP32_PRIVKEY_PREFIX then bip32_priv_to_pub E k zero_key
             else if ek_prefix k = SEC1_COMPRESSED_PUBKEY_EVEN \<or> ek_prefix k = SEC1_COMPRESSED_PUBKEY_ODD
             then Some (True, k, k)
             else Some (False, k, k));
          if \<not> ok then Some (False, k, fingerprint)
          else do { (ok, identifier) \<leftarrow> compute_identifier E (sec1_of pub_key);
                    Some (if \<not> ok then (False, k, fingerprint)
                          else (True, k, take BIP32_KEY_FINGERPRINT_SIZE identifier)) } }"

text \<open>The loop over the path: the status, the key and the optional fingerprint of its parent.\<close>

fun derive_priv_loop ::
  "ecc_env \<Rightarrow> u32 list \<Rightarrow> extended_key_t \<Rightarrow> bytes option \<Rightarrow> (bool \<times> extended_key_t \<times> bytes option) option" where
  "derive_priv_loop E [] k fp = Some (True, k, fp)"
| "derive_priv_loop E (index # path) k fp =
     do { (ok, k, fp) \<leftarrow>
            (case fp of None \<Rightarrow> Some (True, k, None)
             | Some f \<Rightarrow> do { (ok, k, f) \<leftarrow> bip32_compute_fingerprint E k f; Some (ok, k, Some f) });
          if \<not> ok then Some (False, k, fp)
          else do { (ok, k) \<leftarrow> (if hardened index then ckd_priv_hardened E k index else ckd_priv_unhardened E k index);
                    if \<not> ok then Some (False, k, fp) else derive_priv_loop E path k fp } }"

definition bip32_derive_path_priv ::
  "ecc_env \<Rightarrow> extended_key_t \<Rightarrow> bytes option \<Rightarrow> derivation_path_t \<Rightarrow>
   (bool \<times> extended_key_t \<times> bytes option) option" where
  "bip32_derive_path_priv E priv_parent fp path =
     (if BIP32_MAX_DERIVATION_DEPTH < length path then None
      else derive_priv_loop E path priv_parent (map_option (\<lambda>_. replicate BIP32_KEY_FINGERPRINT_SIZE 0) fp))"

fun derive_pub_loop :: "ecc_env \<Rightarrow> u32 list \<Rightarrow> extended_key_t \<Rightarrow> (bool \<times> extended_key_t) option" where
  "derive_pub_loop E [] k = Some (True, k)"
| "derive_pub_loop E (index # path) k =
     (if hardened index then Some (False, k)
      else do { (ok, k) \<leftarrow> ckd_pub E k index;
                if \<not> ok then Some (False, k) else derive_pub_loop E path k })"

definition bip32_derive_path_pub ::
  "ecc_env \<Rightarrow> extended_key_t \<Rightarrow> derivation_path_t \<Rightarrow> (bool \<times> extended_key_t) option" where
  "bip32_derive_path_pub E pub_parent path =
     (if BIP32_MAX_DERIVATION_DEPTH < length path then None else derive_pub_loop E path pub_parent)"

definition bip32_fingerprint_for_path ::
  "ecc_env \<Rightarrow> extended_key_t \<Rightarrow> derivation_path_t \<Rightarrow> bytes \<Rightarrow> (bool \<times> bytes) option" where
  "bip32_fingerprint_for_path E priv_key path fingerprint =
     do { (ok, priv_child, fp) \<leftarrow> bip32_derive_path_priv E priv_key (Some fingerprint) path;
          if \<not> ok then Some (False, replicate BIP32_KEY_FINGERPRINT_SIZE 0)
          else do { (ok, _, f) \<leftarrow> bip32_compute_fingerprint E priv_child (the fp); Some (ok, f) } }"

text \<open>The status and the contents of \<open>serialized\<close>.\<close>

definition bip32_serialize_ext_key ::
  "ecc_env \<Rightarrow> extended_key_t \<Rightarrow> extended_key_t option \<Rightarrow> bytes option \<Rightarrow> version_bytes_t \<Rightarrow> u32 \<Rightarrow> u8 \<Rightarrow> nat \<Rightarrow>
   (bool \<times> bytes) option" where
  "bip32_serialize_ext_key E ext_key parent_pub_key parent_fingerprint version child_num depth serialized_size =
     (if serialized_size \<noteq> BIP32_SERIALIZED_EXT_KEY_SIZE then None
      else if version = MAINNET_PUB \<or> version = TESTNET_PUB
           then (if ek_prefix ext_key \<noteq> SEC1_COMPRESSED_PUBKEY_EVEN \<and>
                    ek_prefix ext_key \<noteq> SEC1_COMPRESSED_PUBKEY_ODD then None else Some ())
           else (if ek_prefix ext_key \<noteq> BIP32_PRIVKEY_PREFIX then None else Some ())) \<bind> (\<lambda>_.
      let serialized = replicate serialized_size 0
      in if all_zeroes (ek_chaincode ext_key) \<or> all_zeroes (ek_key ext_key) then Some (False, serialized)
         else do {
           let serialized = mem_write (mem_write serialized 0 (be32 (version_word version))) 4 [depth];
           (ok, fp) \<leftarrow>
             (if depth = 0 then Some (True, replicate BIP32_KEY_FINGERPRINT_SIZE 0)
              else case (parent_pub_key, parent_fingerprint) of
                  (None, None) \<Rightarrow> None
                | (None, Some f) \<Rightarrow> Some (True, f)
                | (Some pk, pf) \<Rightarrow>
                    do { (ok, _, f) \<leftarrow> bip32_compute_fingerprint E pk
                           (case pf of None \<Rightarrow> replicate BIP32_KEY_FINGERPRINT_SIZE 0 | Some f \<Rightarrow> f);
                         if \<not> ok then Some (False, f)
                         else if pf \<noteq> None \<and> pf \<noteq> Some f then None
                         else Some (True, f) });
           let serialized = mem_write serialized 5 fp;
           if \<not> ok then Some (False, serialized)
           else let serialized = mem_write serialized 9 (be32 child_num);
                    serialized = mem_write serialized 13 (ek_chaincode ext_key);
                    serialized = mem_write serialized 45 [ek_prefix ext_key];
                    serialized = mem_write serialized 46 (ek_key ext_key)
                in Some (True, serialized) })"

text \<open>The status and the signature.\<close>

definition bip32_sign ::
  "ecc_env \<Rightarrow> nat set \<Rightarrow> extended_key_t \<Rightarrow> bytes \<Rightarrow> bytes \<Rightarrow> (bool \<times> bytes) option" where
  "bip32_sign E flip priv_key digest signature_out =
     do { (privkey_offset, keypair_bytes) \<leftarrow> key_management_custom_domain_prepare ALG_ECC_SECP256K1
            (replicate (SECP256K1_CUSTOM_DOMAIN_OVERHEAD + ECC_PRIVKEY_SIZE) 0);
          let key_handle = \<lparr>kh_alg = ALG_ECC_SECP256K1,
            kh_acl = SE_KEY_FLAG_ASYMMETRIC_BUFFER_HAS_PRIVATE_KEY OR SE_KEY_FLAG_ASYMMETRIC_SIGNING_ONLY,
            kh_storage = KEY_STORAGE_EXTERNAL_PLAINTEXT,
            kh_bytes = mem_write keypair_bytes privkey_offset (ek_key priv_key)\<rparr>;
          (ok, signature_out) \<leftarrow> crypto_ecc_sign_hash E flip key_handle digest signature_out;
          Some (if ok \<noteq> SECURE_TRUE then (False, replicate ECC_SIG_SIZE 0) else (True, signature_out)) }"

section \<open>Well-formed keys\<close>

definition wf_priv :: "extended_key_t \<Rightarrow> bool" where
  "wf_priv k = (ek_prefix k = BIP32_PRIVKEY_PREFIX \<and> seckey_ok (ek_key k) \<and>
     length (ek_chaincode k) = BIP32_CHAINCODE_SIZE)"

lemma or_bytes_zero: "or_bytes v bs = 0 \<longleftrightarrow> v = 0 \<and> (\<forall>b\<in>set bs. b = 0)"
  by (induction bs arbitrary: v) (auto simp: or_eq_0_iff)

lemma all_zeroes_iff: "all_zeroes bs \<longleftrightarrow> (\<forall>b\<in>set bs. b = 0)"
  by (simp add: all_zeroes_def or_bytes_zero)

lemma crypto_hash160_total: "\<exists>ok digest. crypto_hash L msg HASH160_DIGEST_SIZE ALG_HASH160 = Some (ok, digest)"
  by (auto simp: crypto_hash_def split: option.split prod.split)

lemma crypto_hmac_sha512:
  obtains (Fail) "crypto_hmac L msg k n ALG_SHA512 = Some (False, [])"
  | (Digest) digest where "crypto_hmac L msg k n ALG_SHA512 = Some (True, digest)"
      "se_hmac L SL_SE_HASH_SHA512 msg k n = Some digest"
proof (cases "se_init L \<and> se_hmac L SL_SE_HASH_SHA512 msg k n \<noteq> None")
  case True
  then show thesis using Digest by (auto simp: crypto_hmac_def convert_hash_type_def)
next
  case False
  then show thesis using Fail by (auto simp: crypto_hmac_def convert_hash_type_def)
qed

context secp256k1_lib
begin

text \<open>The public half of a private extended key.\<close>

definition neuter :: "extended_key_t \<Rightarrow> extended_key_t" where
  "neuter k = \<lparr>ek_prefix = hd (sec1 (be_val (ek_key k))), ek_key = tl (sec1 (be_val (ek_key k))),
     ek_chaincode = ek_chaincode k\<rparr>"

lemma sec1_neuter: "wf_priv k \<Longrightarrow> sec1_of (neuter k) = sec1 (be_val (ek_key k))"
  using sec1_shape(2) [of "be_val (ek_key k)"]
  by (cases "sec1 (be_val (ek_key k))") (auto simp: sec1_of_def neuter_def wf_priv_def)

lemma set_sec1_neuter:
  "(set_sec1 (sec1 (be_val p)) (neuter k))\<lparr>ek_chaincode := c\<rparr> = neuter (k\<lparr>ek_key := p, ek_chaincode := c\<rparr>)"
  by (simp add: set_sec1_def neuter_def)

lemma neuter_prefix:
  "wf_priv k \<Longrightarrow> ek_prefix (neuter k) = SEC1_COMPRESSED_PUBKEY_EVEN \<or>
     ek_prefix (neuter k) = SEC1_COMPRESSED_PUBKEY_ODD"
  using sec1_shape(3) [of "be_val (ek_key k)"] by (auto simp: neuter_def wf_priv_def)

lemma priv_to_pub_neuter:
  assumes "wf_priv k" "ecc_ctx E" "ecc_lib E = L"
  shows "bip32_priv_to_pub E k out = Some (True, k, neuter k)"
  using priv_to_sec [OF _ assms(2,3), of "ek_key k"] assms(1)
  by (simp add: bip32_priv_to_pub_def wf_priv_def set_sec1_def neuter_def)

lemma compute_fingerprint_total:
  assumes "wf_priv k" "ecc_ctx E" "ecc_lib E = L"
  obtains ok f where "bip32_compute_fingerprint E k fp = Some (ok, k, f)"
proof -
  obtain ok digest where "compute_identifier E (sec1_of (neuter k)) = Some (ok, digest)"
    using crypto_hash160_total by (metis compute_identifier_def)
  then show thesis
    using that priv_to_pub_neuter [OF assms] assms(1)
    by (cases ok) (simp_all add: bip32_compute_fingerprint_def wf_priv_def)
qed

text \<open>The two halves of the digest, and what a successful tweak makes of a key.\<close>

lemma tweaked_wf:
  assumes "wf_priv k" "ecc_lib E = L" "se_hmac L ty msg cc SHA512_DIGEST_SIZE = Some digest"
    and "crypto_ecc_secp256k1_priv_tweak_add E (ek_key k) (take 32 digest) = (True, privkey)"
  shows "wf_priv (k\<lparr>ek_key := privkey, ek_chaincode := mem_read BIP32_KEY_SIZE BIP32_CHAINCODE_SIZE digest\<rparr>)"
proof -
  have l: "length digest = 64" using hmac_law [OF assms(3)] by simp
  then have "length (take 32 digest) = 32" by simp
  from tweaks_agree [OF _ this assms(2,4)] assms(1) have "seckey_ok privkey" by (simp add: wf_priv_def)
  with assms(1) l show ?thesis by (simp add: wf_priv_def)
qed

lemma ckd_unhardened_agrees:
  assumes wf: "wf_priv k" and E: "ecc_ctx E" "ecc_lib E = L"
  obtains ok k' where "ckd_priv_unhardened E k index = Some (ok, k')" "ok \<longrightarrow> wf_priv k'"
    "ckd_pub E (neuter k) index = Some (ok, if ok then neuter k' else neuter k)"
proof -
  have ok: "seckey_ok (ek_key k)" using wf by (simp add: wf_priv_def)
  note pub = priv_to_sec [OF ok E]
  note np = neuter_prefix [OF wf]
  have cc: "ek_chaincode (neuter k) = ek_chaincode k" by (simp add: neuter_def)
  let ?msg = "sec1 (be_val (ek_key k)) @ be32 index"
  show thesis
  proof (cases rule: crypto_hmac_sha512 [of L ?msg "ek_chaincode k" SHA512_DIGEST_SIZE])
    case Fail
    then show ?thesis
      using that [of False k] pub np E
      by (auto simp: ckd_priv_unhardened_def ckd_pub_def sec1_neuter [OF wf] cc)
  next
    case (Digest digest)
    have l: "length (take 32 digest) = 32" using hmac_law [OF Digest(2)] by simp
    obtain t privkey where t: "crypto_ecc_secp256k1_priv_tweak_add E (ek_key k) (take 32 digest) = (t, privkey)"
      by fastforce
    let ?k = "k\<lparr>ek_key := privkey\<rparr>" and ?c = "mem_read BIP32_KEY_SIZE BIP32_CHAINCODE_SIZE digest"
    note ag = tweaks_agree [OF ok l E(2) t]
    have "ckd_priv_unhardened E k index = Some (t, if t then ?k\<lparr>ek_chaincode := ?c\<rparr> else ?k)"
      using pub Digest(1) t E by (simp add: ckd_priv_unhardened_def)
    moreover have "t \<longrightarrow> wf_priv (?k\<lparr>ek_chaincode := ?c\<rparr>)"
      using tweaked_wf [OF wf E(2) Digest(2)] t by simp
    moreover have "ckd_pub E (neuter k) index = Some (t, if t then neuter (?k\<lparr>ek_chaincode := ?c\<rparr>) else neuter k)"
      using np Digest(1) E ag
      by (auto simp: ckd_pub_def sec1_neuter [OF wf] cc set_sec1_neuter)
    ultimately show ?thesis using that by (cases t) auto
  qed
qed

lemma ckd_hardened_wf:
  assumes wf: "wf_priv k" and E: "ecc_lib E = L" and h: "hardened index"
  obtains ok k' where "ckd_priv_hardened E k index = Some (ok, k')" "ok \<longrightarrow> wf_priv k'"
proof (cases rule: crypto_hmac_sha512 [of L "sec1_of k @ be32 index" "ek_chaincode k" SHA512_DIGEST_SIZE])
  case Fail
  then show thesis using that [of False k] wf E h by (simp add: ckd_priv_hardened_def wf_priv_def)
next
  case (Digest digest)
  obtain t privkey where t: "crypto_ecc_secp256k1_priv_tweak_add E (ek_key k) (take 32 digest) = (t, privkey)"
    by fastforce
  let ?k = "k\<lparr>ek_key := privkey\<rparr>" and ?c = "mem_read BIP32_KEY_SIZE BIP32_CHAINCODE_SIZE digest"
  have "ckd_priv_hardened E k index = Some (t, if t then ?k\<lparr>ek_chaincode := ?c\<rparr> else ?k)"
    using Digest(1) t E h wf by (simp add: ckd_priv_hardened_def wf_priv_def)
  then show thesis using that tweaked_wf [OF wf E Digest(2)] t by (cases t) auto
qed

lemma derive_loop_wf:
  assumes "wf_priv k" "ecc_ctx E" "ecc_lib E = L"
  shows "\<exists>ok k' fp'. derive_priv_loop E path k fp = Some (ok, k', fp') \<and> (ok \<longrightarrow> wf_priv k')"
  using assms(1)
proof (induction path arbitrary: k fp)
  case (Cons index path)
  obtain ok f where f: "(case fp of None \<Rightarrow> Some (True, k, None)
      | Some f \<Rightarrow> do { (ok, k, f) \<leftarrow> bip32_compute_fingerprint E k f; Some (ok, k, Some f) }) = Some (ok, k, f)"
  proof (cases fp)
    case (Some g)
    obtain ok f where "bip32_compute_fingerprint E k g = Some (ok, k, f)"
      using compute_fingerprint_total [OF Cons.prems assms(2,3)] .
    then show thesis using that Some by simp
  qed (use that in simp)
  obtain ok2 k2 where c: "(if hardened index then ckd_priv_hardened E k index else ckd_priv_unhardened E k index) =
      Some (ok2, k2)" "ok2 \<longrightarrow> wf_priv k2"
  proof (cases "hardened index")
    case True
    then show thesis using ckd_hardened_wf [OF Cons.prems assms(3) True] that True by (metis (full_types))
  next
    case False
    then show thesis using ckd_unhardened_agrees [OF Cons.prems assms(2,3)] that by (metis (full_types))
  qed
  show ?case
    using Cons.IH [of k2 f] c f by (cases ok; cases ok2) (auto split del: if_split)
qed (auto intro: exI [of _ True])

lemma derive_loops_agree:
  assumes "wf_priv k" "ecc_ctx E" "ecc_lib E = L" "\<forall>i\<in>set path. \<not> hardened i"
    and "derive_priv_loop E path k None = Some (ok, k', fp)"
  shows "\<exists>K. derive_pub_loop E path (neuter k) = Some (ok, K) \<and> (ok \<longrightarrow> K = neuter k')"
  using assms(1,4,5)
proof (induction path arbitrary: k)
  case (Cons index path)
  obtain ok1 k1 where c: "ckd_priv_unhardened E k index = Some (ok1, k1)" "ok1 \<longrightarrow> wf_priv k1"
    "ckd_pub E (neuter k) index = Some (ok1, if ok1 then neuter k1 else neuter k)"
    using ckd_unhardened_agrees [OF Cons.prems(1) assms(2,3)] .
  show ?case using Cons.IH [of k1] Cons.prems c by (cases ok1) simp_all
qed simp

end

lemma derive_priv_loop_append:
  "derive_priv_loop E (p @ q) k fp =
     do { (ok, k, fp) \<leftarrow> derive_priv_loop E p k fp; if ok then derive_priv_loop E q k fp else Some (False, k, fp) }"
proof (induction p arbitrary: k fp)
  case (Cons index p)
  then show ?case
    by (auto split: bind_split if_split)
qed simp

lemma derive_pub_loop_hardened:
  "derive_pub_loop E path k = Some (True, k') \<Longrightarrow> \<forall>i\<in>set path. \<not> hardened i"
  by (induction path arbitrary: k) (auto simp: bind_eq_Some_conv split: if_splits)

section \<open>Properties\<close>

text \<open>C6: Public derivation follows private derivation: for a path without hardened indices, deriving the
  child with the private key and deriving it with the public key alone succeed together, and then
  give the same public child key.\<close>

theorem bip32_pub_derivation_agrees:
  assumes "secp256k1_lib (ecc_lib E) pt" "ecc_ctx E" "wf_priv k" "\<forall>i\<in>set path. \<not> hardened i"
    and "bip32_derive_path_priv E k None path = Some (ok, child, fp)"
  shows "\<exists>K C. bip32_priv_to_pub E k out = Some (True, k, K) \<and>
    bip32_derive_path_pub E K path = Some (ok, C) \<and>
    (ok \<longrightarrow> bip32_priv_to_pub E child out' = Some (True, child, C))"
proof -
  have d: "derive_priv_loop E path k None = Some (ok, child, fp)" "\<not> BIP32_MAX_DERIVATION_DEPTH < length path"
    using assms(5) by (auto simp: bip32_derive_path_priv_def split: if_splits)
  have "ok \<longrightarrow> wf_priv child"
    using secp256k1_lib.derive_loop_wf [OF assms(1,3,2) refl, of path None] d by simp
  moreover obtain C where "derive_pub_loop E path (secp256k1_lib.neuter (ecc_lib E) pt k) = Some (ok, C)"
    "ok \<longrightarrow> C = secp256k1_lib.neuter (ecc_lib E) pt child"
    using secp256k1_lib.derive_loops_agree [OF assms(1,3,2) refl assms(4) d(1)] by blast
  ultimately show ?thesis
    using secp256k1_lib.priv_to_pub_neuter [OF assms(1) _ assms(2) refl] assms(3) d(2)
    by (auto simp: bip32_derive_path_pub_def)
qed

definition example_key :: extended_key_t where
  "example_key = \<lparr>ek_prefix = 0, ek_key = replicate 32 3, ek_chaincode = replicate 32 4\<rparr>"

lemma example_key_wf: "wf_priv example_key"
  using seckey_ok_hd [of "replicate 32 3"] by (simp add: example_key_def wf_priv_def word_less_nat_alt)

theorem bip32_pub_derivation_agrees_witness:
  "\<exists>ok child K C. bip32_derive_path_priv toy_env example_key None [0, 5] = Some (ok, child, None) \<and>
     bip32_priv_to_pub toy_env example_key zero_key = Some (True, example_key, K) \<and>
     bip32_derive_path_pub toy_env K [0, 5] = Some (ok, C)"
proof -
  have l: "secp256k1_lib (ecc_lib toy_env) (be_enc 32)" using toy.secp256k1_lib_axioms by simp
  obtain ok child fp where d: "derive_priv_loop toy_env [0, 5] example_key None = Some (ok, child, fp)"
    using secp256k1_lib.derive_loop_wf [OF l example_key_wf, of toy_env "[0, 5]" None] by auto
  then have p: "bip32_derive_path_priv toy_env example_key None [0, 5] = Some (ok, child, fp)"
    by (simp add: bip32_derive_path_priv_def)
  have "fp = None" using d by (auto simp: bind_eq_Some_conv split: if_splits)
  with bip32_pub_derivation_agrees [OF l _ example_key_wf _ p, of zero_key zero_key] p
  show ?thesis by (auto simp: hardened_def)
qed

text \<open>C17: Derivation from a well-formed private key never fails an assertion, and a child it returns with
  success is again well-formed: its secret is in the range of the curve and its fields have their
  lengths, for every path of at most 256 indices, hardened or not.\<close>

theorem bip32_derivation_type:
  assumes "secp256k1_lib (ecc_lib E) pt" "ecc_ctx E" "wf_priv k" "length path \<le> BIP32_MAX_DERIVATION_DEPTH"
  shows "\<exists>ok child fp'. bip32_derive_path_priv E k fp path = Some (ok, child, fp') \<and> (ok \<longrightarrow> wf_priv child)"
  using secp256k1_lib.derive_loop_wf [OF assms(1,3,2) refl] assms(4) by (simp add: bip32_derive_path_priv_def)

theorem bip32_derivation_type_witness:
  "\<exists>ok child fp'. bip32_derive_path_priv toy_env example_key (Some []) [0x80000054, 7] = Some (ok, child, fp') \<and>
     (ok \<longrightarrow> wf_priv child)"
  by (rule bip32_derivation_type [where pt = "be_enc 32"]) (simp_all add: toy.secp256k1_lib_axioms example_key_wf)

lemma fingerprint_length:
  assumes "bip32_compute_fingerprint E k f = Some (True, k', fp)"
  shows "length fp = BIP32_KEY_FINGERPRINT_SIZE"
proof -
  obtain pub ident where "compute_identifier E (sec1_of pub) = Some (True, ident)"
    and fp: "fp = take BIP32_KEY_FINGERPRINT_SIZE ident"
    using assms by (auto simp: bip32_compute_fingerprint_def bind_eq_Some_conv split: if_splits)
  then have "length ident = 20"
    by (auto simp: compute_identifier_def crypto_hash_def split: if_splits option.splits prod.splits
        dest: ripemd160_digest_length)
  then show ?thesis by (simp add: fp)
qed

text \<open>The fingerprint that goes into a serialised key: zero for a master key, and otherwise that of the
  given parent, which the given fingerprint must agree with, or the given fingerprint.\<close>

definition serialized_fingerprint ::
  "ecc_env \<Rightarrow> extended_key_t option \<Rightarrow> bytes option \<Rightarrow> u8 \<Rightarrow> bytes \<Rightarrow> bool" where
  "serialized_fingerprint E parent_pub_key parent_fingerprint depth fp =
     (length fp = BIP32_KEY_FINGERPRINT_SIZE \<and>
      (if depth = 0 then fp = replicate BIP32_KEY_FINGERPRINT_SIZE 0
       else (parent_fingerprint = None \<longrightarrow> parent_pub_key \<noteq> None) \<and>
            (\<forall>f. parent_fingerprint = Some f \<longrightarrow> fp = f) \<and>
            (\<forall>pk. parent_pub_key = Some pk \<longrightarrow>
               (\<exists>f0 pk'. bip32_compute_fingerprint E pk f0 = Some (True, pk', fp)))))"

lemma serialize_writes:
  assumes a: "bip32_serialize_ext_key E k parent_pub_key parent_fingerprint version child_num depth n = Some (True, serialized)"
    and l: "\<forall>f. parent_fingerprint = Some f \<longrightarrow> length f = BIP32_KEY_FINGERPRINT_SIZE"
  shows "\<exists>fp. serialized_fingerprint E parent_pub_key parent_fingerprint depth fp \<and>
     serialized = mem_write (mem_write (mem_write (mem_write (mem_write (mem_write (mem_write
       (replicate 78 0) 0 (be32 (version_word version))) 4 [depth]) 5 fp) 9 (be32 child_num))
       13 (ek_chaincode k)) 45 [ek_prefix k]) 46 (ek_key k)"
proof -
  note defs = bip32_serialize_ext_key_def Let_def bind_eq_Some_conv
  consider (Root) "depth = 0" | (Given) f where "depth \<noteq> 0" "parent_pub_key = None" "parent_fingerprint = Some f"
    | (Neither) "depth \<noteq> 0" "parent_pub_key = None" "parent_fingerprint = None"
    | (Parent) pk where "depth \<noteq> 0" "parent_pub_key = Some pk" by fastforce
  then show ?thesis
  proof cases
    case (Parent pk)
    let ?f0 = "case parent_fingerprint of None \<Rightarrow> replicate BIP32_KEY_FINGERPRINT_SIZE 0 | Some f \<Rightarrow> f"
    obtain pk' fp where c: "bip32_compute_fingerprint E pk ?f0 = Some (True, pk', fp)"
      using a Parent by (auto simp: defs split: if_splits)
    then have "\<forall>f. parent_fingerprint = Some f \<longrightarrow> fp = f" using a Parent by (auto simp: defs split: if_splits)
    then have "serialized_fingerprint E parent_pub_key parent_fingerprint depth fp"
      using c Parent fingerprint_length [OF c] unfolding serialized_fingerprint_def by auto
    then show ?thesis using a Parent c by (intro exI [of _ fp]) (auto simp: defs split: if_splits)
  next
    case Root
    then show ?thesis using a
      by (intro exI [of _ "replicate 4 0"]) (auto simp: defs serialized_fingerprint_def split: if_splits)
  next
    case (Given f)
    then show ?thesis using a l
      by (intro exI [of _ f]) (auto simp: defs serialized_fingerprint_def split: if_splits)
  next
    case Neither
    then show ?thesis using a by (auto simp: defs split: if_splits)
  qed
qed

text \<open>C18: A serialised key has exactly the layout of BIP 32: version, depth, fingerprint of the parent,
  child number, chain code and key, 78 bytes in all.  The fingerprint is zero at depth 0, and otherwise
  the one computed from the parent key or, if only a fingerprint is given, that one; given both, they
  agree.  Public versions have a public key and private versions a private key.\<close>

theorem bip32_serialize_layout:
  assumes "length (ek_key k) = BIP32_KEY_SIZE" "length (ek_chaincode k) = BIP32_CHAINCODE_SIZE"
    and "\<forall>f. parent_fingerprint = Some f \<longrightarrow> length f = BIP32_KEY_FINGERPRINT_SIZE"
    and "bip32_serialize_ext_key E k parent_pub_key parent_fingerprint version child_num depth n = Some (True, serialized)"
  shows "(\<exists>fp. serialized_fingerprint E parent_pub_key parent_fingerprint depth fp \<and>
      serialized = be32 (version_word version) @ [depth] @ fp @ be32 child_num @ ek_chaincode k @
        [ek_prefix k] @ ek_key k) \<and>
    length serialized = BIP32_SERIALIZED_EXT_KEY_SIZE \<and>
    (version \<in> {MAINNET_PUB, TESTNET_PUB} \<longleftrightarrow> ek_prefix k \<noteq> BIP32_PRIVKEY_PREFIX)"
proof -
  let ?A = "be32 (version_word version)" and ?C = "be32 child_num" and ?z = "replicate 78 (0 :: u8)"
  obtain fp where fp: "serialized_fingerprint E parent_pub_key parent_fingerprint depth fp"
    and s: "serialized = mem_write (mem_write (mem_write (mem_write (mem_write (mem_write (mem_write ?z 0 ?A) 4 [depth])
      5 fp) 9 ?C) 13 (ek_chaincode k)) 45 [ek_prefix k]) 46 (ek_key k)"
    using serialize_writes [OF assms(4,3)] by blast
  have l: "length fp = 4" using fp by (simp add: serialized_fingerprint_def)
  have "mem_write ?z 0 ?A = ?A @ replicate 74 0" by (simp add: mem_write_def)
  moreover have "mem_write (?A @ replicate 74 0) 4 [depth] = ?A @ [depth] @ replicate 73 0" by (simp add: mem_write_def)
  moreover have "mem_write (?A @ [depth] @ replicate 73 0) 5 fp = ?A @ [depth] @ fp @ replicate 69 0"
    using l by (simp add: mem_write_def)
  ultimately have "serialized = ?A @ [depth] @ fp @ ?C @ ek_chaincode k @ [ek_prefix k] @ ek_key k"
    using assms(1,2) l by (simp add: s mem_write_def)
  moreover from this have "length serialized = BIP32_SERIALIZED_EXT_KEY_SIZE" using assms(1,2) l by simp
  moreover have "version \<in> {MAINNET_PUB, TESTNET_PUB} \<longleftrightarrow> ek_prefix k \<noteq> BIP32_PRIVKEY_PREFIX"
    using assms(4) by (cases version) (auto simp: bip32_serialize_ext_key_def bind_eq_Some_conv split: if_splits)
  ultimately show ?thesis using fp by blast
qed

theorem bip32_serialize_layout_witness:
  "(\<exists>serialized. bip32_serialize_ext_key toy_env example_key None (Some [1, 2, 3, 4]) MAINNET_PRIV 7 1 78 =
     Some (True, serialized) \<and> take 4 (drop 5 serialized) = [1, 2, 3, 4] \<and> drop 46 serialized = replicate 32 3) \<and>
   (\<exists>serialized. bip32_serialize_ext_key toy_env example_key None None MAINNET_PRIV 7 0 78 =
     Some (True, serialized) \<and> take 4 (drop 5 serialized) = [0, 0, 0, 0])"
proof -
  have z: "\<not> all_zeroes (replicate 32 3)" "\<not> all_zeroes (replicate 32 4)"
    by (simp_all add: all_zeroes_iff)
  obtain a where a: "bip32_serialize_ext_key toy_env example_key None (Some [1, 2, 3, 4]) MAINNET_PRIV 7 1 78 =
      Some (True, a)"
    using z by (simp add: bip32_serialize_ext_key_def example_key_def)
  obtain b where b: "bip32_serialize_ext_key toy_env example_key None None MAINNET_PRIV 7 0 78 = Some (True, b)"
    using z by (simp add: bip32_serialize_ext_key_def example_key_def)
  have four: "replicate 4 (0 :: u8) = [0, 0, 0, 0]" by (simp add: numeral_eq_Suc)
  from bip32_serialize_layout [OF _ _ _ a] bip32_serialize_layout [OF _ _ _ b] a b
  show ?thesis by (auto simp: example_key_def serialized_fingerprint_def four)
qed

end
