(* ===== verification/Keycache.thy ===== *)
theory Keycache
  imports Bip32
begin

text \<open>
  The seed and the cache of derived keys: \<open>lib/wallet/src/seed.c\<close> and
  \<open>lib/wallet/src/derived_key_cache.c\<close>, every function.  The state is the wallet storage with
  the cache in RAM.  \<open>None\<close> is a failed assertion.  Log output is not modelled, and a local
  that the code leaves uninitialised starts as zeros.
\<close>

section \<open>The seed\<close>

abbreviation SEED_SIZE :: nat where "SEED_SIZE \<equiv> 32"

datatype seed_res_t = SEED_RES_OK | SEED_RES_ERR_WKEK | SEED_RES_ERR_SEED_WRITE | SEED_RES_ERR_MASTER_DERIVE
  | SEED_RES_ERR_MASTER_FINGERPRINT | SEED_RES_ERR_DERIVE_CHILD

definition seed_remove_files :: "'m lfs_ops \<Rightarrow> ('m, 'c) wallet_state \<Rightarrow> int \<times> ('m, 'c) wallet_state" where
  "seed_remove_files L s = wallet_fs_remove L SEED_PATH s"

text \<open>The result and the master key; \<open>master_key\<close> is what the output held before.\<close>

definition master_key_lazy_init ::
  "'m lfs_ops \<Rightarrow> 'c crypto_ops \<Rightarrow> ecc_env \<Rightarrow> extended_key_t \<Rightarrow> ('m, 'c) wallet_state \<Rightarrow>
   (seed_res_t \<times> extended_key_t \<times> ('m, 'c) wallet_state) option" where
  "master_key_lazy_init L C E master_key s =
     do { (seed_loaded, seed, s) \<leftarrow> wkek_read_and_decrypt L C SEED_PATH (replicate SEED_SIZE 0) s;
          (seed, s) \<leftarrow> (if seed_loaded then Some (seed, s)
             else case crypto_random C SEED_SIZE (w_crypto s) of (ok, seed, c) \<Rightarrow>
               if ok then Some (seed, s\<lparr>w_crypto := c\<rparr>) else None);
          (ok, master_key) \<leftarrow> bip32_derive_master_key E seed master_key;
          if \<not> ok then Some (SEED_RES_ERR_MASTER_DERIVE, master_key, s)
          else if seed_loaded then Some (SEED_RES_OK, master_key, s)
          else do { (ok, s) \<leftarrow> wkek_encrypt_and_store L C SEED_PATH seed s;
                    Some (if ok then SEED_RES_OK else SEED_RES_ERR_SEED_WRITE, master_key, s) } }"

definition seed_as_extended_key ::
  "'m lfs_ops \<Rightarrow> 'c crypto_ops \<Rightarrow> ecc_env \<Rightarrow> extended_key_t \<Rightarrow> ('m, 'c) wallet_state \<Rightarrow>
   (seed_res_t \<times> extended_key_t \<times> ('m, 'c) wallet_state) option" where
  "seed_as_extended_key L C E k s =
     do { (ok, s) \<leftarrow> wkek_lazy_init L C s;
          if \<not> ok then Some (SEED_RES_ERR_WKEK, k, s) else master_key_lazy_init L C E k s }"

text \<open>The result, the key, and the fingerprints of the master key and of the parent.\<close>

definition seed_derive_bip32 ::
  "'m lfs_ops \<Rightarrow> 'c crypto_ops \<Rightarrow> ecc_env \<Rightarrow> derivation_path_t \<Rightarrow> extended_key_t \<Rightarrow> bytes \<Rightarrow> bytes \<Rightarrow>
   ('m, 'c) wallet_state \<Rightarrow> (seed_res_t \<times> extended_key_t \<times> bytes \<times> bytes \<times> ('m, 'c) wallet_state) option" where
  "seed_derive_bip32 L C E path k master_fingerprint parent_fingerprint s =
     do { (ok, s) \<leftarrow> wkek_lazy_init L C s;
          if \<not> ok then Some (SEED_RES_ERR_WKEK, k, master_fingerprint, parent_fingerprint, s)
          else do {
            (result, master_key, s) \<leftarrow> master_key_lazy_init L C E zero_key s;
            if result \<noteq> SEED_RES_OK then Some (result, k, master_fingerprint, parent_fingerprint, s)
            else do {
              (ok, master_key, master_fingerprint) \<leftarrow> bip32_compute_fingerprint E master_key master_fingerprint;
              if \<not> ok then Some (SEED_RES_ERR_MASTER_FINGERPRINT, k, master_fingerprint, parent_fingerprint, s)
              else if path = [] then Some (SEED_RES_OK, master_key, master_fingerprint, replicate 4 0, s)
              else do { (ok, k, fp) \<leftarrow> bip32_derive_path_priv E master_key (Some parent_fingerprint) path;
                        Some (if ok then SEED_RES_OK else SEED_RES_ERR_DERIVE_CHILD, k, master_fingerprint,
                              the fp, s) } } } }"

section \<open>Known paths\<close>

datatype purpose_t = PURPOSE_UNKNOWN | PURPOSE_BIP84 | PURPOSE_W1_AUTH
datatype coin_type_t = COIN_TYPE_UNKNOWN | COIN_TYPE_MAINNET | COIN_TYPE_TESTNET
datatype change_t = CHANGE_UNKNOWN | CHANGE_EXTERNAL | CHANGE_INTERNAL

record derivation_path_parts_t =
  dp_purpose :: purpose_t
  dp_coin_type :: coin_type_t
  dp_change :: change_t
  dp_path :: derivation_path_t

definition BIP84_MAINNET_EXTERNAL :: derivation_path_parts_t where
  "BIP84_MAINNET_EXTERNAL = \<lparr>dp_purpose = PURPOSE_BIP84, dp_coin_type = COIN_TYPE_MAINNET,
     dp_change = CHANGE_EXTERNAL, dp_path = [84 OR BIP32_HARDENED_BIT, 0 OR BIP32_HARDENED_BIT, 0 OR BIP32_HARDENED_BIT, 0]\<rparr>"

definition BIP84_MAINNET_INTERNAL :: derivation_path_parts_t where
  "BIP84_MAINNET_INTERNAL = \<lparr>dp_purpose = PURPOSE_BIP84, dp_coin_type = COIN_TYPE_MAINNET,
     dp_change = CHANGE_INTERNAL, dp_path = [84 OR BIP32_HARDENED_BIT, 0 OR BIP32_HARDENED_BIT, 0 OR BIP32_HARDENED_BIT, 1]\<rparr>"

definition BIP84_TESTNET_EXTERNAL :: derivation_path_parts_t where
  "BIP84_TESTNET_EXTERNAL = \<lparr>dp_purpose = PURPOSE_BIP84, dp_coin_type = COIN_TYPE_TESTNET,
     dp_change = CHANGE_EXTERNAL, dp_path = [84 OR BIP32_HARDENED_BIT, 1 OR BIP32_HARDENED_BIT, 0 OR BIP32_HARDENED_BIT, 0]\<rparr>"

definition BIP84_TESTNET_INTERNAL :: derivation_path_parts_t where
  "BIP84_TESTNET_INTERNAL = \<lparr>dp_purpose = PURPOSE_BIP84, dp_coin_type = COIN_TYPE_TESTNET,
     dp_change = CHANGE_INTERNAL, dp_path = [84 OR BIP32_HARDENED_BIT, 1 OR BIP32_HARDENED_BIT, 0 OR BIP32_HARDENED_BIT, 1]\<rparr>"

definition W1_AUTH :: derivation_path_parts_t where
  "W1_AUTH = \<lparr>dp_purpose = PURPOSE_W1_AUTH, dp_coin_type = COIN_TYPE_UNKNOWN, dp_change = CHANGE_UNKNOWN,
     dp_path = [87497287 OR BIP32_HARDENED_BIT, 0 OR BIP32_HARDENED_BIT]\<rparr>"

definition DERIVATION_PATHS :: "derivation_path_parts_t list" where
  "DERIVATION_PATHS = [BIP84_MAINNET_EXTERNAL, BIP84_MAINNET_INTERNAL, W1_AUTH, BIP84_TESTNET_EXTERNAL,
     BIP84_TESTNET_INTERNAL]"

definition derivation_path_is_subset :: "derivation_path_t \<Rightarrow> derivation_path_t \<Rightarrow> bool" where
  "derivation_path_is_subset a b =
     (if length b < length a then False else list_all (\<lambda>i. a ! i = b ! i) [0..<length a])"

definition get_derivation_path :: "purpose_t \<Rightarrow> coin_type_t \<Rightarrow> change_t \<Rightarrow> derivation_path_t option" where
  "get_derivation_path purpose coin_type change =
     map_option dp_path (find (\<lambda>m. purpose = dp_purpose m \<and> coin_type = dp_coin_type m \<and> change = dp_change m)
       DERIVATION_PATHS)"

definition get_derivation_path_parts :: "derivation_path_t \<Rightarrow> derivation_path_parts_t option" where
  "get_derivation_path_parts path = find (\<lambda>parts. derivation_path_is_subset (dp_path parts) path) DERIVATION_PATHS"

definition wallet_get_w1_auth_path :: derivation_path_t where
  "wallet_get_w1_auth_path = dp_path W1_AUTH"

section \<open>The cache\<close>

abbreviation DERIVED_KEY_CACHE_PATH :: string where "DERIVED_KEY_CACHE_PATH \<equiv> ''derived-keys.bin''"
abbreviation DERIVED_KEY_CACHE_VERSION :: u8 where "DERIVED_KEY_CACHE_VERSION \<equiv> 0"

record derived_key_cache_t =
  kc_version :: u8
  bip84_external_key :: extended_key_t
  bip84_internal_key :: extended_key_t
  w1_auth_key :: extended_key_t

text \<open>The packed structures in memory.\<close>

definition key_image :: "extended_key_t \<Rightarrow> bytes" where
  "key_image k = ek_prefix k # ek_key k @ ek_chaincode k"

definition image_key :: "bytes \<Rightarrow> extended_key_t" where
  "image_key bs = \<lparr>ek_prefix = bs ! 0, ek_key = mem_read 1 32 bs, ek_chaincode = mem_read 33 32 bs\<rparr>"

definition cache_image :: "derived_key_cache_t \<Rightarrow> bytes" where
  "cache_image c = kc_version c # key_image (bip84_external_key c) @ key_image (bip84_internal_key c) @
     key_image (w1_auth_key c)"

definition image_cache :: "bytes \<Rightarrow> derived_key_cache_t" where
  "image_cache bs = \<lparr>kc_version = bs ! 0, bip84_external_key = image_key (mem_read 1 65 bs),
     bip84_internal_key = image_key (mem_read 66 65 bs), w1_auth_key = image_key (mem_read 131 65 bs)\<rparr>"

record ('m, 'c) key_state =
  ks_wallet :: "('m, 'c) wallet_state"
  derived_key_cache :: derived_key_cache_t
  derived_key_cache_initialized :: bool

text \<open>The status, the key and the state.\<close>

definition derive_key_priv_from_seed ::
  "'m lfs_ops \<Rightarrow> 'c crypto_ops \<Rightarrow> ecc_env \<Rightarrow> extended_key_t \<Rightarrow> derivation_path_t \<Rightarrow> ('m, 'c) wallet_state \<Rightarrow>
   (bool \<times> extended_key_t \<times> ('m, 'c) wallet_state) option" where
  "derive_key_priv_from_seed L C E key_priv path s =
     do { (result, master_key, s) \<leftarrow> seed_as_extended_key L C E zero_key s;
          if result \<noteq> SEED_RES_OK then Some (False, key_priv, s)
          else do { (ok, key_priv, _) \<leftarrow> bip32_derive_path_priv E master_key None path;
                    Some (ok, key_priv, s) } }"

definition create_derived_key_cache ::
  "'m lfs_ops \<Rightarrow> 'c crypto_ops \<Rightarrow> ecc_env \<Rightarrow> coin_type_t \<Rightarrow> ('m, 'c) key_state \<Rightarrow>
   (bool \<times> ('m, 'c) key_state) option" where
  "create_derived_key_cache L C E coin_type s =
     do { path \<leftarrow> get_derivation_path PURPOSE_BIP84 coin_type CHANGE_EXTERNAL;
          let cache = derived_key_cache s;
          (ok, k, w) \<leftarrow> derive_key_priv_from_seed L C E (bip84_external_key cache) path (ks_wallet s);
          let cache = cache\<lparr>bip84_external_key := k\<rparr>;
          if \<not> ok then Some (False, s\<lparr>ks_wallet := w, derived_key_cache := cache\<rparr>)
          else do {
            path \<leftarrow> get_derivation_path PURPOSE_BIP84 coin_type CHANGE_INTERNAL;
            (ok, k, w) \<leftarrow> derive_key_priv_from_seed L C E (bip84_internal_key cache) path w;
            let cache = cache\<lparr>bip84_internal_key := k\<rparr>;
            if \<not> ok then Some (False, s\<lparr>ks_wallet := w, derived_key_cache := cache\<rparr>)
            else do {
              path \<leftarrow> get_derivation_path PURPOSE_W1_AUTH COIN_TYPE_UNKNOWN CHANGE_UNKNOWN;
              (ok, k, w) \<leftarrow> derive_key_priv_from_seed L C E (w1_auth_key cache) path w;
              let cache = cache\<lparr>w1_auth_key := k\<rparr>;
              if \<not> ok then Some (False, s\<lparr>ks_wallet := w, derived_key_cache := cache\<rparr>)
              else do { (ok, w) \<leftarrow> wkek_encrypt_and_store L C DERIVED_KEY_CACHE_PATH (cache_image cache) w;
                        Some (ok, s\<lparr>ks_wallet := w, derived_key_cache := cache\<rparr>) } } } }"

definition derived_key_cache_lazy_init ::
  "'m lfs_ops \<Rightarrow> 'c crypto_ops \<Rightarrow> ecc_env \<Rightarrow> coin_type_t \<Rightarrow> ('m, 'c) key_state \<Rightarrow> ('m, 'c) key_state option" where
  "derived_key_cache_lazy_init L C E coin_type s =
     (if derived_key_cache_initialized s then Some s
      else case fs_file_exists L DERIVED_KEY_CACHE_PATH (w_fs (ks_wallet s)) of (ex, fs) \<Rightarrow>
        let s = s\<lparr>ks_wallet := (ks_wallet s)\<lparr>w_fs := fs\<rparr>\<rparr>
        in if \<not> ex
           then do { (ok, s) \<leftarrow> create_derived_key_cache L C E coin_type s;
                     Some (s\<lparr>derived_key_cache_initialized := ok\<rparr>) }
           else do {
             (ok, bs, w) \<leftarrow> wkek_read_and_decrypt L C DERIVED_KEY_CACHE_PATH (cache_image (derived_key_cache s)) (ks_wallet s);
             let s = s\<lparr>ks_wallet := w, derived_key_cache := image_cache bs, derived_key_cache_initialized := ok\<rparr>;
             if kc_version (derived_key_cache s) \<noteq> DERIVED_KEY_CACHE_VERSION
             then (case wallet_fs_remove L DERIVED_KEY_CACHE_PATH (ks_wallet s) of (r, w) \<Rightarrow>
                     let s = s\<lparr>ks_wallet := w\<rparr>
                     in if 0 \<le> r
                        then do { (ok, s) \<leftarrow> create_derived_key_cache L C E coin_type
                                    (s\<lparr>derived_key_cache := (derived_key_cache s)\<lparr>kc_version := DERIVED_KEY_CACHE_VERSION\<rparr>\<rparr>);
                                  Some (s\<lparr>derived_key_cache_initialized := ok\<rparr>) }
                        else Some s)
             else Some s })"

definition wallet_clear_derived_key_cache :: "('m, 'c) key_state \<Rightarrow> ('m, 'c) key_state" where
  "wallet_clear_derived_key_cache s =
     (let c = derived_key_cache s;
          c = c\<lparr>bip84_external_key := bip32_zero_key (bip84_external_key c)\<rparr>;
          c = c\<lparr>bip84_internal_key := bip32_zero_key (bip84_internal_key c)\<rparr>;
          c = c\<lparr>w1_auth_key := bip32_zero_key (w1_auth_key c)\<rparr>
      in s\<lparr>derived_key_cache := c, derived_key_cache_initialized := False\<rparr>)"

definition maybe_derive_from_cached_key ::
  "ecc_env \<Rightarrow> derivation_path_t \<Rightarrow> extended_key_t \<Rightarrow> nat \<Rightarrow> (bool \<times> extended_key_t) option" where
  "maybe_derive_from_cached_key E path cached_key common_levels =
     (if length path < common_levels then None
      else if length path = common_levels then Some (True, cached_key)
      else do { (ok, k, _) \<leftarrow> bip32_derive_path_priv E cached_key None (drop common_levels path); Some (ok, k) })"

text \<open>An auth key with no cache file, like a path that is not known, is derived from the seed.\<close>

definition wallet_derive_key_priv_using_cache ::
  "'m lfs_ops \<Rightarrow> 'c crypto_ops \<Rightarrow> ecc_env \<Rightarrow> extended_key_t \<Rightarrow> derivation_path_t \<Rightarrow> ('m, 'c) key_state \<Rightarrow>
   (bool \<times> extended_key_t \<times> ('m, 'c) key_state) option" where
  "wallet_derive_key_priv_using_cache L C E key_priv path s =
     (let full_derive = (\<lambda>s. do { (ok, k, w) \<leftarrow> derive_key_priv_from_seed L C E key_priv path (ks_wallet s);
                                  Some (ok, k, s\<lparr>ks_wallet := w\<rparr>) });
          cached = (\<lambda>s k n. do { (ok, k) \<leftarrow> maybe_derive_from_cached_key E path k n; Some (ok, k, s) })
      in case get_derivation_path_parts path of
           None \<Rightarrow> full_derive s
         | Some parts \<Rightarrow>
             (case (if dp_purpose parts = PURPOSE_W1_AUTH
                    then (case fs_file_exists L DERIVED_KEY_CACHE_PATH (w_fs (ks_wallet s)) of (ex, fs) \<Rightarrow>
                            (\<not> ex, s\<lparr>ks_wallet := (ks_wallet s)\<lparr>w_fs := fs\<rparr>\<rparr>))
                    else (False, s)) of (full, s) \<Rightarrow>
                if full then full_derive s
                else do {
                  s \<leftarrow> derived_key_cache_lazy_init L C E (dp_coin_type parts) s;
                  if \<not> derived_key_cache_initialized s then full_derive s
                  else if dp_purpose parts = PURPOSE_BIP84 \<and> dp_change parts = CHANGE_EXTERNAL
                  then (if dp_coin_type parts = COIN_TYPE_MAINNET \<or> dp_coin_type parts = COIN_TYPE_TESTNET
                        then cached s (bip84_external_key (derived_key_cache s)) (length (dp_path parts)) else None)
                  else if dp_purpose parts = PURPOSE_BIP84 \<and> dp_change parts = CHANGE_INTERNAL
                  then (if dp_coin_type parts = COIN_TYPE_MAINNET \<or> dp_coin_type parts = COIN_TYPE_TESTNET
                        then cached s (bip84_internal_key (derived_key_cache s)) (length (dp_path parts)) else None)
                  else if dp_purpose parts = PURPOSE_W1_AUTH
                  then (if dp_coin_type parts = COIN_TYPE_UNKNOWN \<and> dp_change parts = CHANGE_UNKNOWN
                        then cached s (w1_auth_key (derived_key_cache s)) (length (dp_path parts)) else None)
                  else full_derive s }))"

definition wallet_get_w1_auth_key ::
  "'m lfs_ops \<Rightarrow> 'c crypto_ops \<Rightarrow> ecc_env \<Rightarrow> extended_key_t \<Rightarrow> ('m, 'c) key_state \<Rightarrow>
   (bool \<times> extended_key_t \<times> ('m, 'c) key_state) option" where
  "wallet_get_w1_auth_key L C E key_priv s = wallet_derive_key_priv_using_cache L C E key_priv (dp_path W1_AUTH) s"

section \<open>A medium and an engine that work\<close>

lemma held_obtain:
  assumes "fs_held opened s f"
  obtains m where "fs_lfs s = Some m" "fs_usable s" "opened m g_file = Some f"
  using assms by (auto simp: fs_held_def fs_usable_def fs_handle_def)

text \<open>On which opening, reading and closing an existing file and decrypting a genuine ciphertext
  succeed.  Creating and writing files, random numbers and encryption may still fail.\<close>

locale wkek_reliable = wkek_env +
  assumes open_found: "lfs_file_opencfg L m h p FS_O_RDWR = (r, m') \<Longrightarrow> opened m h = None \<Longrightarrow>
      content m p \<noteq> None \<Longrightarrow> r = 0"
    and read_ok: "lfs_file_read L m h n = (r, bs, m') \<Longrightarrow> opened m h = Some f \<Longrightarrow> 0 \<le> r"
    and close_ok: "lfs_file_close L m h = (r, m') \<Longrightarrow> opened m h = Some f \<Longrightarrow>
      content m (of_path f) = Some (of_data f) \<Longrightarrow> r = 0"
    and decrypt_ok: "aes_gcm_encrypt C k iv pt c = (True, (ct, tag), c') \<Longrightarrow>
      fst (aes_gcm_decrypt C k iv tag ct d)"
begin

lemma open_global_found:
  assumes i: "fs_idle opened s" and c: "fs_files content s p = Some c"
  shows "fst (fs_open_global L p FS_O_RDWR s) = 0"
proof -
  obtain m where m: "fs_lfs s = Some m" using i fs_usable_obtain by (auto simp: fs_idle_def)
  obtain r m' where o: "lfs_file_opencfg L m g_file p FS_O_RDWR = (r, m')" by fastforce
  have u: "fs_usable (s\<lparr>g_file_access_lock := False\<rparr>)" "g_file_access_lock s" "opened m g_file = None"
    using i m by (simp_all add: fs_idle_def fs_usable_def fs_handle_def)
  have "r = 0" using open_found [OF o u(3)] c m by (simp add: fs_files_def)
  then show ?thesis
    using u(2) fs_call_isr_usable [OF u(1), of m "\<lambda>m. lfs_file_opencfg L m g_file p FS_O_RDWR", OF _ o] m
    by (simp add: fs_open_global_def fs_open_def)
qed

lemma held_read_ok:
  assumes h: "fs_held opened s f"
  shows "0 \<le> fst (fs_file_read L g_file n s)"
proof -
  obtain m where m: "fs_lfs s = Some m" "fs_usable s" "opened m g_file = Some f" using h by (rule held_obtain)
  obtain r bs m' where rd: "lfs_file_read L m g_file n = (r, bs, m')" by (metis surj_pair)
  show ?thesis
    using read_ok [OF rd m(3)] fs_call_usable [OF m(2,1), of "\<lambda>m. lfs_file_read L m g_file n", OF rd]
    by (simp add: fs_file_read_def)
qed

lemma held_close_ok:
  assumes h: "fs_held opened s f" and c: "fs_files content s (of_path f) = Some (of_data f)"
  shows "fst (fs_close_global L s) = 0"
proof -
  obtain m where m: "fs_lfs s = Some m" "fs_usable s" "opened m g_file = Some f" using h by (rule held_obtain)
  obtain r m' where cl: "lfs_file_close L m g_file = (r, m')" by fastforce
  have "r = 0" using close_ok [OF cl m(3)] c m(1) by (simp add: fs_files_def)
  then show ?thesis
    using fs_call_isr_usable [OF m(2,1), of "\<lambda>m. lfs_file_close L m g_file", OF cl]
    by (simp add: fs_close_global_def fs_close_def)
qed

lemma read_global_ok:
  assumes i: "fs_idle opened s" and rd: "fs_util_read_global L p n s = Some (ok, bs, s')"
    and c: "fs_files content s p = Some c" "n \<le> length c"
  shows ok
proof -
  obtain s1 where o: "fs_open_global L p FS_O_RDWR s = (0, s1)"
    using open_global_found [OF i c(1)] by (cases "fs_open_global L p FS_O_RDWR s") simp
  have h: "fs_files content s1 = fs_files content s"
    "fs_held opened s1 \<lparr>of_path = p, of_data = c, of_pos = 0, of_append = False, of_erred = False\<rparr>"
    (is "fs_held _ _ ?f")
    using open_global_read [OF i o] c(1) by auto
  obtain r2 b2 s2 where re: "fs_file_read L g_file n s1 = (r2, b2, s2)" by (metis surj_pair)
  have r2: "0 \<le> r2" using held_read_ok [OF h(2), of n] re by simp
  have h2: "fs_held opened s2 (?f\<lparr>of_pos := n\<rparr>)" "fs_files content s2 p = Some c" "r2 = int n"
    using file_read_cases [OF h(2) re] r2 h(1) c by (auto simp: min_absorb2)
  have "fst (fs_close_global L s2) = 0" using held_close_ok [OF h2(1)] h2(2) by simp
  then show ok
    using rd o re h2(3) by (auto simp: fs_util_read_global_def split: if_splits prod.splits)
qed

lemma lazy_init_ok:
  assumes r: "wkek_ready content opened s" and z: "wkek_lazy_init L C s = Some (ok, s')"
  shows ok
proof -
  obtain b fs1 where e: "fs_file_exists L WKEK_PATH (w_fs s) = (b, fs1)" by fastforce
  obtain c where c: "fs_files content (w_fs s) WKEK_PATH = Some c" "WKEK_SIZE \<le> length c"
    and i: "fs_idle opened (w_fs s)" using r by (auto simp: wkek_ready_def key_file_def)
  note ec = exists_iff [OF i e]
  show ok
    using z e ec c read_global_ok [of fs1 WKEK_PATH WKEK_SIZE]
    by (auto simp: wkek_lazy_init_def wkek_exists_def wkek_load_def bind_eq_Some_conv split: if_splits)
qed

lemma decrypt_genuine:
  assumes r: "wkek_ready content opened s" and k: "key_file content s k"
    and en: "aes_gcm_encrypt C k iv d c = (True, (ct, tag), c')"
    and de: "wkek_decrypt L C ct out iv tag s = Some (ok, res, s')"
  shows ok
proof -
  obtain ok1 s1 where z: "wkek_lazy_init L C s = Some (ok1, s1)"
    using de by (auto simp: wkek_decrypt_def bind_eq_Some_conv)
  have ok1: ok1 by (rule lazy_init_ok [OF r z])
  then have "wkek_key s1 = k" using lazy_init_ready [OF r z] key_file_unique k by blast
  then show ok
    using de z ok1 decrypt_ok [OF en, of "w_crypto s1"] by (auto simp: wkek_decrypt_def split: prod.splits)
qed

lemma blob_length: "is_blob C k d b \<Longrightarrow> length b = length d + AES_GCM_OVERHEAD"
  using encrypt_size by (fastforce simp: is_blob_def)

lemma read_sealed_ok:
  assumes r: "wkek_ready content opened s" and se: "sealed C content s f d"
    and n: "length out = length d"
    and rd: "wkek_read_and_decrypt L C f out s = Some (ok, res, s')"
  shows ok
proof -
  obtain k c where k: "key_file content s k" and c: "fs_files content (w_fs s) f = Some c"
    and b: "is_blob C k d (take (length d + AES_GCM_OVERHEAD) c)"
    using se by (auto simp: sealed_def)
  obtain ex fs1 where e: "fs_file_exists L f (w_fs s) = (ex, fs1)" by fastforce
  have i: "fs_idle opened (w_fs s)" and po: "pool_ok (wallet_pool s)"
    using r by (simp_all add: wkek_ready_def)
  note ec = exists_iff [OF i e]
  have ex: ex using ec c by simp
  obtain blob pool ok1 bs fs2 s2 where
    al: "mempool_alloc (wallet_pool s) (length d + AES_GCM_OVERHEAD) = Some (blob, pool)"
    and re: "fs_util_read_global L f (length d + AES_GCM_OVERHEAD) fs1 = Some (ok1, bs, fs2)"
    and de: "(if \<not> ok1 then Some (False, out, s\<lparr>wallet_pool := pool, w_fs := fs2\<rparr>)
      else wkek_decrypt L C (mem_read AES_GCM_IV_LENGTH (length d) bs) out
             (mem_read 0 AES_GCM_IV_LENGTH bs)
             (mem_read (AES_GCM_IV_LENGTH + length d) AES_GCM_TAG_LENGTH bs)
             (s\<lparr>wallet_pool := pool, w_fs := fs2\<rparr>)) = Some (ok, res, s2)"
    using rd ex e n by (auto simp: wkek_read_and_decrypt_def bind_eq_Some_conv Let_def)
  let ?s1 = "s\<lparr>wallet_pool := pool, w_fs := fs2\<rparr>"
  note rc = read_global [OF conjunct1 [OF ec] re]
  have ok1: ok1 using read_global_ok [OF conjunct1 [OF ec] re] ec c blob_length [OF b] by (auto simp: min_def split: if_splits)
  have fl: "fs_files content fs2 = fs_files content (w_fs s)" using rc ec c by simp
  have "pool_ok pool" by (rule alloc_result [OF po al])
  then have r1: "wkek_ready content opened ?s1" using rc fl by (intro ready_cong [OF r]) simp_all
  have "bs = take (length d + AES_GCM_OVERHEAD) c" using rc ok1 ec c by auto
  then obtain iv ct tag c1 c2 where en: "aes_gcm_encrypt C k iv d c1 = (True, (ct, tag), c2)"
    and pt: "mem_read 0 AES_GCM_IV_LENGTH bs = iv" "mem_read AES_GCM_IV_LENGTH (length d) bs = ct"
      "mem_read (AES_GCM_IV_LENGTH + length d) AES_GCM_TAG_LENGTH bs = tag"
    using b by (auto elim: blob_parts)
  have kf: "key_file content ?s1 k" using k fl by (simp add: key_file_def)
  have "wkek_decrypt L C ct out iv tag ?s1 = Some (ok, res, s2)" using de ok1 pt by simp
  then show ok by (rule decrypt_genuine [OF r1 kf en])
qed

text \<open>A file too short to hold sealed data is not read, and nothing changes.\<close>

lemma read_short:
  assumes r: "wkek_ready content opened s" and c: "fs_files content (w_fs s) f = Some c"
    and n: "length c < length out + AES_GCM_OVERHEAD"
    and rd: "wkek_read_and_decrypt L C f out s = Some (ok, res, s')"
  shows "\<not> ok \<and> res = out \<and> wkek_ready content opened s' \<and>
    fs_files content (w_fs s') = fs_files content (w_fs s)"
proof -
  obtain ex fs1 where e: "fs_file_exists L f (w_fs s) = (ex, fs1)" by fastforce
  have i: "fs_idle opened (w_fs s)" and po: "pool_ok (wallet_pool s)"
    using r by (simp_all add: wkek_ready_def)
  note ec = exists_iff [OF i e]
  have ex: ex using ec c by simp
  obtain ok1 bs fs2 where re: "fs_util_read_global L f (length out + AES_GCM_OVERHEAD) fs1 = Some (ok1, bs, fs2)"
    by (rule fs_util_read_global_Some [of "length out + AES_GCM_OVERHEAD" L f fs1]) simp_all
  note rc = read_global [OF conjunct1 [OF ec] re]
  have ok1: "\<not> ok1" using rc ec c n by auto
  obtain blob pool pool2 where
    al: "mempool_alloc (wallet_pool s) (length out + AES_GCM_OVERHEAD) = Some (blob, pool)"
    and fr: "mempool_free pool blob = Some pool2"
    and s': "\<not> ok" "res = out" "s' = s\<lparr>w_fs := fs2, wallet_pool := pool2\<rparr>"
    using rd ex e re ok1 by (auto simp: wkek_read_and_decrypt_def bind_eq_Some_conv Let_def)
  have "pool_ok pool2" by (rule alloc_free [OF po al]) (use fr in simp)
  moreover have fl: "fs_files content fs2 = fs_files content (w_fs s)" using rc ec c by simp
  ultimately have "wkek_ready content opened s'"
    using rc unfolding s'(3) by (intro ready_cong [OF r]) simp_all
  with s' fl show ?thesis by simp
qed

end

section \<open>The cache is transparent\<close>

text \<open>The wallet holds a sealed seed with master key \<open>mk\<close>.\<close>

definition seed_installed ::
  "'c crypto_ops \<Rightarrow> ('m \<Rightarrow> string \<Rightarrow> bytes option) \<Rightarrow> ('m \<Rightarrow> file_addr \<Rightarrow> open_file option) \<Rightarrow> ecc_env \<Rightarrow>
   extended_key_t \<Rightarrow> ('m, 'c) wallet_state \<Rightarrow> bool" where
  "seed_installed C content opened E mk w =
     (wkek_ready content opened w \<and>
      (\<exists>seed. length seed = SEED_SIZE \<and> sealed C content w SEED_PATH seed \<and>
         bip32_derive_master_key E seed zero_key = Some (True, mk)))"

definition wf_key :: "extended_key_t \<Rightarrow> bool" where
  "wf_key k = (length (ek_key k) = 32 \<and> length (ek_chaincode k) = 32)"

definition wf_cache :: "derived_key_cache_t \<Rightarrow> bool" where
  "wf_cache c = (wf_key (bip84_external_key c) \<and> wf_key (bip84_internal_key c) \<and> wf_key (w1_auth_key c))"

text \<open>The cache \<open>c\<close> that belongs to a master key and a network.\<close>

definition cache_for :: "ecc_env \<Rightarrow> coin_type_t \<Rightarrow> extended_key_t \<Rightarrow> derived_key_cache_t \<Rightarrow> bool" where
  "cache_for E coin mk c =
     (kc_version c = DERIVED_KEY_CACHE_VERSION \<and> wf_cache c \<and>
      (\<exists>p. get_derivation_path PURPOSE_BIP84 coin CHANGE_EXTERNAL = Some p \<and>
        bip32_derive_path_priv E mk None p = Some (True, bip84_external_key c, None)) \<and>
      (\<exists>p. get_derivation_path PURPOSE_BIP84 coin CHANGE_INTERNAL = Some p \<and>
        bip32_derive_path_priv E mk None p = Some (True, bip84_internal_key c, None)) \<and>
      bip32_derive_path_priv E mk None (dp_path W1_AUTH) = Some (True, w1_auth_key c, None))"

text \<open>The cache on file, if it is not one that was created and never filled.\<close>

definition cache_file ::
  "'c crypto_ops \<Rightarrow> ('m \<Rightarrow> string \<Rightarrow> bytes option) \<Rightarrow> derived_key_cache_t \<Rightarrow> ('m, 'c) wallet_state \<Rightarrow> bool" where
  "cache_file C content c w =
     (\<forall>x. fs_files content (w_fs w) DERIVED_KEY_CACHE_PATH = Some x \<longrightarrow>
        length x < 196 + AES_GCM_OVERHEAD \<or> sealed C content w DERIVED_KEY_CACHE_PATH (cache_image c))"

definition key_inv ::
  "'c crypto_ops \<Rightarrow> ('m \<Rightarrow> string \<Rightarrow> bytes option) \<Rightarrow> ('m \<Rightarrow> file_addr \<Rightarrow> open_file option) \<Rightarrow> ecc_env \<Rightarrow>
   extended_key_t \<Rightarrow> derived_key_cache_t \<Rightarrow> ('m, 'c) key_state \<Rightarrow> bool" where
  "key_inv C content opened E mk c s =
     (seed_installed C content opened E mk (ks_wallet s) \<and>
      wf_cache (derived_key_cache s) \<and> kc_version (derived_key_cache s) = DERIVED_KEY_CACHE_VERSION \<and>
      (derived_key_cache_initialized s \<longrightarrow> derived_key_cache s = c) \<and> cache_file C content c (ks_wallet s))"

lemma image_key_image: "wf_key k \<Longrightarrow> image_key (key_image k) = k"
  by (simp add: wf_key_def image_key_def key_image_def mem_read_def)

lemma key_image_length: "wf_key k \<Longrightarrow> length (key_image k) = 65"
  by (simp add: wf_key_def key_image_def)

lemma cache_image_length: "wf_cache c \<Longrightarrow> length (cache_image c) = 196"
  by (simp add: wf_cache_def cache_image_def key_image_length)

lemma image_cache_image: "wf_cache c \<Longrightarrow> image_cache (cache_image c) = c"
  by (simp add: wf_cache_def image_cache_def cache_image_def key_image_length image_key_image mem_read_def)

lemma cache_path_other: "DERIVED_KEY_CACHE_PATH \<noteq> WKEK_PATH" "DERIVED_KEY_CACHE_PATH \<noteq> SEED_PATH"
  by (simp_all add: WKEK_PATH_def SEED_PATH_def)

lemma seed_installed_cong:
  assumes "seed_installed C content opened E mk w" "wkek_ready content opened w'"
    and "\<And>q. q \<noteq> DERIVED_KEY_CACHE_PATH \<Longrightarrow> fs_files content (w_fs w') q = fs_files content (w_fs w) q"
  shows "seed_installed C content opened E mk w'"
  using assms cache_path_other by (auto simp: seed_installed_def sealed_def key_file_def)

lemma sealed_cong:
  "fs_files content (w_fs w') = fs_files content (w_fs w) \<Longrightarrow> sealed C content w' f d = sealed C content w f d"
  by (simp add: sealed_def key_file_def)

lemma cache_file_cong:
  "fs_files content (w_fs w') = fs_files content (w_fs w) \<Longrightarrow> cache_file C content c w' = cache_file C content c w"
  using sealed_cong [of content w' w C] by (simp add: cache_file_def)

lemma derive_priv_no_fp: "derive_priv_loop E path k None = Some (ok, k', fp) \<Longrightarrow> fp = None"
  by (induction path arbitrary: k) (auto simp: bind_eq_Some_conv split: if_splits)

lemma derive_path_no_fp: "bip32_derive_path_priv E k None path = Some (ok, k', fp) \<Longrightarrow> fp = None"
  by (auto simp: bip32_derive_path_priv_def derive_priv_no_fp split: if_splits)

lemma derivation_path_is_subset_take: "derivation_path_is_subset a b \<Longrightarrow> take (length a) b = a"
  by (rule nth_equalityI) (simp_all add: derivation_path_is_subset_def list_all_iff split: if_splits)

text \<open>What remains of a path after a key it extends.\<close>

lemma derive_from_cached:
  assumes "bip32_derive_path_priv E mk None p = Some (True, k, None)" "take (length p) path = p"
    and "length path \<le> BIP32_MAX_DERIVATION_DEPTH"
    and "maybe_derive_from_cached_key E path k (length p) = Some (ok, k')"
  shows "bip32_derive_path_priv E mk None path = Some (ok, k', None)"
proof -
  have path: "path = p @ drop (length p) path" using assms(2) by (metis append_take_drop_id)
  have p: "derive_priv_loop E p mk None = Some (True, k, None)"
    using assms(1) by (simp add: bip32_derive_path_priv_def split: if_splits)
  have "derive_priv_loop E (drop (length p) path) k None = Some (ok, k', None)"
    using assms(3,4) derive_path_no_fp
    by (auto simp: maybe_derive_from_cached_key_def bind_eq_Some_conv bip32_derive_path_priv_def
        derive_priv_no_fp split: if_splits)
  then show ?thesis
    using assms(3) derive_priv_loop_append [of E p "drop (length p) path" mk None] p
    unfolding path [symmetric] by (simp add: bip32_derive_path_priv_def)
qed

definition cached_key :: "derivation_path_parts_t \<Rightarrow> derived_key_cache_t \<Rightarrow> extended_key_t" where
  "cached_key parts c =
     (if dp_purpose parts = PURPOSE_BIP84 then if dp_change parts = CHANGE_EXTERNAL then bip84_external_key c
      else bip84_internal_key c else w1_auth_key c)"

lemma part_fields [simp]:
  "dp_purpose BIP84_MAINNET_EXTERNAL = PURPOSE_BIP84" "dp_coin_type BIP84_MAINNET_EXTERNAL = COIN_TYPE_MAINNET" "dp_change BIP84_MAINNET_EXTERNAL = CHANGE_EXTERNAL"
  "dp_purpose BIP84_MAINNET_INTERNAL = PURPOSE_BIP84" "dp_coin_type BIP84_MAINNET_INTERNAL = COIN_TYPE_MAINNET" "dp_change BIP84_MAINNET_INTERNAL = CHANGE_INTERNAL"
  "dp_purpose BIP84_TESTNET_EXTERNAL = PURPOSE_BIP84" "dp_coin_type BIP84_TESTNET_EXTERNAL = COIN_TYPE_TESTNET" "dp_change BIP84_TESTNET_EXTERNAL = CHANGE_EXTERNAL"
  "dp_purpose BIP84_TESTNET_INTERNAL = PURPOSE_BIP84" "dp_coin_type BIP84_TESTNET_INTERNAL = COIN_TYPE_TESTNET" "dp_change BIP84_TESTNET_INTERNAL = CHANGE_INTERNAL"
  "dp_purpose W1_AUTH = PURPOSE_W1_AUTH" "dp_coin_type W1_AUTH = COIN_TYPE_UNKNOWN" "dp_change W1_AUTH = CHANGE_UNKNOWN"
  by (simp_all add: BIP84_MAINNET_EXTERNAL_def BIP84_MAINNET_INTERNAL_def W1_AUTH_def
      BIP84_TESTNET_EXTERNAL_def BIP84_TESTNET_INTERNAL_def)

lemma known_cases:
  assumes "parts \<in> set DERIVATION_PATHS"
  obtains "parts = BIP84_MAINNET_EXTERNAL" | "parts = BIP84_MAINNET_INTERNAL" | "parts = W1_AUTH"
    | "parts = BIP84_TESTNET_EXTERNAL" | "parts = BIP84_TESTNET_INTERNAL"
  using assms unfolding DERIVATION_PATHS_def list.set insert_iff empty_iff by blast

lemma get_derivation_path_known:
  "parts \<in> set DERIVATION_PATHS \<Longrightarrow>
   get_derivation_path (dp_purpose parts) (dp_coin_type parts) (dp_change parts) = Some (dp_path parts)"
  by (erule known_cases) (simp_all add: get_derivation_path_def DERIVATION_PATHS_def)

lemma known_parts:
  "parts \<in> set DERIVATION_PATHS \<Longrightarrow>
   dp_purpose parts = PURPOSE_BIP84 \<and> dp_change parts \<in> {CHANGE_EXTERNAL, CHANGE_INTERNAL} \<and>
     dp_coin_type parts \<in> {COIN_TYPE_MAINNET, COIN_TYPE_TESTNET} \<or>
   dp_purpose parts = PURPOSE_W1_AUTH \<and> dp_coin_type parts = COIN_TYPE_UNKNOWN \<and> dp_change parts = CHANGE_UNKNOWN \<and>
     dp_path parts = dp_path W1_AUTH"
  by (erule known_cases) simp_all

lemma cached_key_derived:
  assumes f: "cache_for E coin mk c" and m: "parts \<in> set DERIVATION_PATHS"
    and co: "dp_coin_type parts \<in> {coin, COIN_TYPE_UNKNOWN}"
  shows "bip32_derive_path_priv E mk None (dp_path parts) = Some (True, cached_key parts c, None)"
  using known_parts [OF m] f co get_derivation_path_known [OF m] by (auto simp: cache_for_def cached_key_def)

context wkek_reliable
begin

lemma seed_key:
  assumes i: "seed_installed C content opened E mk w"
    and k: "seed_as_extended_key L C E zero_key w = Some (r, k, w')"
  shows "r = SEED_RES_OK \<and> k = mk \<and> seed_installed C content opened E mk w' \<and>
    fs_files content (w_fs w') = fs_files content (w_fs w)"
proof -
  obtain seed where r: "wkek_ready content opened w" and seed: "length seed = SEED_SIZE"
    "sealed C content w SEED_PATH seed" "bip32_derive_master_key E seed zero_key = Some (True, mk)"
    using i by (auto simp: seed_installed_def)
  obtain ok1 w1 where z: "wkek_lazy_init L C w = Some (ok1, w1)"
    using k by (auto simp: seed_as_extended_key_def bind_eq_Some_conv)
  have ok1: ok1 by (rule lazy_init_ok [OF r z])
  note zc = lazy_init_ready [OF r z]
  have se: "sealed C content w1 SEED_PATH seed" using seed(2) zc sealed_cong by blast
  obtain ok2 bs w2 where rd: "wkek_read_and_decrypt L C SEED_PATH (replicate SEED_SIZE 0) w1 = Some (ok2, bs, w2)"
    using k z ok1 by (auto simp: seed_as_extended_key_def master_key_lazy_init_def bind_eq_Some_conv)
  have r1: "wkek_ready content opened w1" using zc by simp
  have len: "length (replicate SEED_SIZE (0 :: u8)) = length seed" using seed(1) by simp
  have ok2: ok2 by (rule read_sealed_ok [OF r1 se len rd])
  note rc = read_sealed [OF r1 se len rd]
  have fl: "fs_files content (w_fs w2) = fs_files content (w_fs w)" using rc zc by simp
  have "seed_installed C content opened E mk w2"
    using rc fl by (intro seed_installed_cong [OF i]) simp_all
  then show ?thesis
    using k z ok1 rd ok2 rc seed(3) fl by (auto simp: seed_as_extended_key_def master_key_lazy_init_def)
qed

lemma derive_seed:
  assumes i: "seed_installed C content opened E mk w"
    and d: "derive_key_priv_from_seed L C E k path w = Some (ok, k', w')"
  shows "bip32_derive_path_priv E mk None path = Some (ok, k', None) \<and> seed_installed C content opened E mk w' \<and>
    fs_files content (w_fs w') = fs_files content (w_fs w)"
proof -
  obtain r mk' w1 where s: "seed_as_extended_key L C E zero_key w = Some (r, mk', w1)"
    using d by (auto simp: derive_key_priv_from_seed_def bind_eq_Some_conv)
  note sc = seed_key [OF i s]
  show ?thesis
    using d s sc derive_path_no_fp by (fastforce simp: derive_key_priv_from_seed_def bind_eq_Some_conv)
qed

lemma store_cache:
  assumes i: "seed_installed C content opened E mk w" and cf: "cache_file C content c w"
    and st: "wkek_encrypt_and_store L C DERIVED_KEY_CACHE_PATH (cache_image c) w = Some (ok, w')"
  shows "seed_installed C content opened E mk w' \<and> cache_file C content c w'"
proof
  have r: "wkek_ready content opened w" using i by (simp add: seed_installed_def)
  note sc = store_sealed [OF r cache_path_other(1) st]
  show "seed_installed C content opened E mk w'"
    by (rule seed_installed_cong [OF i]) (use sc in simp_all)
  show "cache_file C content c w'"
  proof (cases "\<not> ok \<and> fs_files content (w_fs w') DERIVED_KEY_CACHE_PATH = fs_files content (w_fs w) DERIVED_KEY_CACHE_PATH")
    case True
    have "fs_files content (w_fs w') q = fs_files content (w_fs w) q" for q
      using sc True by (cases "q = DERIVED_KEY_CACHE_PATH") simp_all
    then have "fs_files content (w_fs w') = fs_files content (w_fs w)" by (simp add: ext)
    then show ?thesis using cf cache_file_cong by blast
  next
    case False
    then show ?thesis using sc by (cases ok) (simp_all add: cache_file_def)
  qed
qed

lemma create_cache:
  assumes v: "key_inv C content opened E mk c s" and f: "cache_for E coin mk c"
    and cr: "create_derived_key_cache L C E coin s = Some (ok, s')"
  shows "key_inv C content opened E mk c (s'\<lparr>derived_key_cache_initialized := ok\<rparr>)"
proof -
  let ?c0 = "derived_key_cache s"
  obtain pe pi where pe: "get_derivation_path PURPOSE_BIP84 coin CHANGE_EXTERNAL = Some pe"
      "bip32_derive_path_priv E mk None pe = Some (True, bip84_external_key c, None)"
    and pi: "get_derivation_path PURPOSE_BIP84 coin CHANGE_INTERNAL = Some pi"
      "bip32_derive_path_priv E mk None pi = Some (True, bip84_internal_key c, None)"
    and pw: "bip32_derive_path_priv E mk None (dp_path W1_AUTH) = Some (True, w1_auth_key c, None)"
    using f by (auto simp: cache_for_def)
  have wp: "get_derivation_path PURPOSE_W1_AUTH COIN_TYPE_UNKNOWN CHANGE_UNKNOWN = Some (dp_path W1_AUTH)"
    using get_derivation_path_known [of W1_AUTH] by (simp add: DERIVATION_PATHS_def)
  have i0: "seed_installed C content opened E mk (ks_wallet s)" using v by (simp add: key_inv_def)
  obtain o1 k1 w1 where d1: "derive_key_priv_from_seed L C E (bip84_external_key ?c0) pe (ks_wallet s) = Some (o1, k1, w1)"
    using cr pe(1) by (auto simp: create_derived_key_cache_def bind_eq_Some_conv Let_def)
  note s1 = derive_seed [OF i0 d1]
  have e1: "o1" "k1 = bip84_external_key c" using s1 pe(2) by simp_all
  obtain o2 k2 w2 where d2: "derive_key_priv_from_seed L C E (bip84_internal_key ?c0) pi w1 = Some (o2, k2, w2)"
    using cr pe(1) pi(1) d1 e1(1) by (auto simp: create_derived_key_cache_def bind_eq_Some_conv Let_def)
  note s2 = derive_seed [OF _ d2, of mk]
  have e2: "o2" "k2 = bip84_internal_key c" using s1 s2 pi(2) by simp_all
  obtain o3 k3 w3 where d3: "derive_key_priv_from_seed L C E (w1_auth_key ?c0) (dp_path W1_AUTH) w2 = Some (o3, k3, w3)"
    using cr pe(1) pi(1) wp d1 e1(1) d2 e2(1) by (auto simp: create_derived_key_cache_def bind_eq_Some_conv Let_def)
  note s3 = derive_seed [OF _ d3, of mk]
  have e3: "o3" "k3 = w1_auth_key c" using s1 s2 s3 pw by simp_all
  have ce: "?c0\<lparr>bip84_external_key := k1, bip84_internal_key := k2, w1_auth_key := k3\<rparr> = c"
    using v f e1 e2 e3 by (simp add: key_inv_def cache_for_def)
  obtain w4 where st: "wkek_encrypt_and_store L C DERIVED_KEY_CACHE_PATH (cache_image c) w3 = Some (ok, w4)"
    and s': "s' = s\<lparr>ks_wallet := w4, derived_key_cache := c\<rparr>"
    using cr pe(1) pi(1) wp d1 e1(1) d2 e2(1) d3 e3(1) ce
    by (auto simp: create_derived_key_cache_def bind_eq_Some_conv Let_def)
  have i3: "seed_installed C content opened E mk w3" "fs_files content (w_fs w3) = fs_files content (w_fs (ks_wallet s))"
    using s1 s2 s3 by simp_all
  have "cache_file C content c w3" using v cache_file_cong [OF i3(2)] by (simp add: key_inv_def)
  with store_cache [OF i3(1) _ st] show ?thesis
    using f unfolding s' by (simp add: key_inv_def cache_for_def)
qed

lemma exists_key_inv:
  assumes v: "key_inv C content opened E mk c s"
    and e: "fs_file_exists L p (w_fs (ks_wallet s)) = (ex, fs)"
  shows "key_inv C content opened E mk c (s\<lparr>ks_wallet := (ks_wallet s)\<lparr>w_fs := fs\<rparr>\<rparr>)"
proof -
  let ?w = "(ks_wallet s)\<lparr>w_fs := fs\<rparr>"
  have i: "seed_installed C content opened E mk (ks_wallet s)" "cache_file C content c (ks_wallet s)"
    using v by (simp_all add: key_inv_def)
  then have r: "wkek_ready content opened (ks_wallet s)" by (simp add: seed_installed_def)
  then have id: "fs_idle opened (w_fs (ks_wallet s))" by (simp add: wkek_ready_def)
  note ec = exists_iff [OF id e]
  have "wkek_ready content opened ?w" using ec r by (intro ready_cong [OF r]) (simp_all add: wkek_ready_def)
  then have "seed_installed C content opened E mk ?w" using ec by (intro seed_installed_cong [OF i(1)]) simp_all
  moreover have "cache_file C content c ?w" using ec i(2) cache_file_cong [of content ?w "ks_wallet s"] by simp
  ultimately show ?thesis using v by (simp add: key_inv_def)
qed

lemma load_cache:
  assumes v: "key_inv C content opened E mk c s" and f: "cache_for E coin mk c"
    and ex: "fs_files content (w_fs (ks_wallet s)) DERIVED_KEY_CACHE_PATH = Some x"
    and rd: "wkek_read_and_decrypt L C DERIVED_KEY_CACHE_PATH (cache_image (derived_key_cache s)) (ks_wallet s) =
      Some (ok, bs, w)"
  shows "key_inv C content opened E mk c
    (s\<lparr>ks_wallet := w, derived_key_cache := image_cache bs, derived_key_cache_initialized := ok\<rparr>)"
proof -
  have i: "seed_installed C content opened E mk (ks_wallet s)" and wf: "wf_cache (derived_key_cache s)" "wf_cache c"
    and cf: "cache_file C content c (ks_wallet s)"
    using v f by (simp_all add: key_inv_def cache_for_def)
  then have r: "wkek_ready content opened (ks_wallet s)" by (simp add: seed_installed_def)
  have "wkek_ready content opened w \<and> fs_files content (w_fs w) = fs_files content (w_fs (ks_wallet s)) \<and>
    (if ok then bs = cache_image c else bs = cache_image (derived_key_cache s))"
  proof (cases "length x < 196 + AES_GCM_OVERHEAD")
    case True
    then show ?thesis using read_short [OF r ex _ rd] cache_image_length [OF wf(1)] by auto
  next
    case False
    then have se: "sealed C content (ks_wallet s) DERIVED_KEY_CACHE_PATH (cache_image c)"
      using cf ex by (simp add: cache_file_def)
    have len: "length (cache_image (derived_key_cache s)) = length (cache_image c)"
      using wf by (simp add: cache_image_length)
    show ?thesis using read_sealed [OF r se len rd] read_sealed_ok [OF r se len rd] by simp
  qed
  moreover from this have "seed_installed C content opened E mk w" "cache_file C content c w"
    using seed_installed_cong [OF i, of w] cache_file_cong [of content w "ks_wallet s"] cf by simp_all
  ultimately show ?thesis
    using v f wf by (cases ok) (simp_all add: key_inv_def cache_for_def image_cache_image)
qed

lemma lazy_init_cache:
  assumes v: "key_inv C content opened E mk c s" and f: "cache_for E coin mk c"
    and co: "coin' = coin \<or> fs_files content (w_fs (ks_wallet s)) DERIVED_KEY_CACHE_PATH \<noteq> None"
    and l: "derived_key_cache_lazy_init L C E coin' s = Some s'"
  shows "key_inv C content opened E mk c s'"
proof (cases "derived_key_cache_initialized s")
  case True
  then show ?thesis using l v by (simp add: derived_key_cache_lazy_init_def)
next
  case False
  have i: "seed_installed C content opened E mk (ks_wallet s)" "cache_file C content c (ks_wallet s)"
    using v by (simp_all add: key_inv_def)
  then have id: "fs_idle opened (w_fs (ks_wallet s))" and r: "wkek_ready content opened (ks_wallet s)"
    by (simp_all add: seed_installed_def wkek_ready_def)
  obtain ex fs where e: "fs_file_exists L DERIVED_KEY_CACHE_PATH (w_fs (ks_wallet s)) = (ex, fs)" by fastforce
  let ?s = "s\<lparr>ks_wallet := (ks_wallet s)\<lparr>w_fs := fs\<rparr>\<rparr>"
  have v1: "key_inv C content opened E mk c ?s" by (rule exists_key_inv [OF v e])
  note ec = exists_iff [OF id e]
  show ?thesis
  proof (cases ex)
    case True
    then obtain x where x: "fs_files content fs DERIVED_KEY_CACHE_PATH = Some x" using ec by auto
    obtain ok bs w where rd: "wkek_read_and_decrypt L C DERIVED_KEY_CACHE_PATH (cache_image (derived_key_cache s))
        ((ks_wallet s)\<lparr>w_fs := fs\<rparr>) = Some (ok, bs, w)"
      using l False e True by (auto simp: derived_key_cache_lazy_init_def bind_eq_Some_conv)
    note lc = load_cache [OF v1 f, of x ok bs w]
    have "kc_version (image_cache bs) = DERIVED_KEY_CACHE_VERSION" using lc x rd by (simp add: key_inv_def)
    then show ?thesis
      using lc x rd l False e True by (simp add: derived_key_cache_lazy_init_def)
  next
    case n: False
    then have "coin' = coin" using co ec by simp
    then show ?thesis
      using create_cache [OF v1 f] l False e n by (auto simp: derived_key_cache_lazy_init_def bind_eq_Some_conv)
  qed
qed

lemma full_derive:
  assumes v: "key_inv C content opened E mk c s"
    and d: "derive_key_priv_from_seed L C E k path (ks_wallet s) = Some (ok, k', w)"
  shows "bip32_derive_path_priv E mk None path = Some (ok, k', None) \<and> key_inv C content opened E mk c (s\<lparr>ks_wallet := w\<rparr>)"
  using derive_seed [OF _ d, of mk] v cache_file_cong [of content w "ks_wallet s"] by (simp add: key_inv_def)

lemma using_cache:
  assumes v: "key_inv C content opened E mk c s" and f: "cache_for E coin mk c"
    and co: "\<forall>parts. get_derivation_path_parts path = Some parts \<longrightarrow> dp_coin_type parts \<in> {coin, COIN_TYPE_UNKNOWN}"
    and len: "length path \<le> BIP32_MAX_DERIVATION_DEPTH"
    and d: "wallet_derive_key_priv_using_cache L C E k path s = Some (ok, k', s')"
  shows "bip32_derive_path_priv E mk None path = Some (ok, k', None) \<and> key_inv C content opened E mk c s'"
proof (cases "get_derivation_path_parts path")
  case None
  then show ?thesis
    using d full_derive [OF v] by (auto simp: wallet_derive_key_priv_using_cache_def bind_eq_Some_conv)
next
  case (Some parts)
  then have m: "parts \<in> set DERIVATION_PATHS" and t: "take (length (dp_path parts)) path = dp_path parts"
    using derivation_path_is_subset_take by (auto simp: get_derivation_path_parts_def find_Some_iff)
  have cp: "dp_coin_type parts \<in> {coin, COIN_TYPE_UNKNOWN}" using co Some by blast
  note ck = cached_key_derived [OF f m cp]
  obtain ex fs where e: "fs_file_exists L DERIVED_KEY_CACHE_PATH (w_fs (ks_wallet s)) = (ex, fs)" by fastforce
  have id: "fs_idle opened (w_fs (ks_wallet s))"
    using v by (simp add: key_inv_def seed_installed_def wkek_ready_def)
  note ec = exists_iff [OF id e]
  let ?auth = "dp_purpose parts = PURPOSE_W1_AUTH"
  let ?s = "if ?auth then s\<lparr>ks_wallet := (ks_wallet s)\<lparr>w_fs := fs\<rparr>\<rparr> else s"
  have v1: "key_inv C content opened E mk c ?s" using exists_key_inv [OF v e] v by simp
  show ?thesis
  proof (cases "?auth \<and> \<not> ex")
    case True
    then show ?thesis
      using d Some e full_derive [OF v1] by (auto simp: wallet_derive_key_priv_using_cache_def bind_eq_Some_conv)
  next
    case False
    then obtain s1 where l: "derived_key_cache_lazy_init L C E (dp_coin_type parts) ?s = Some s1"
      using d Some e by (auto simp: wallet_derive_key_priv_using_cache_def bind_eq_Some_conv split: if_splits)
    have "dp_coin_type parts = coin \<or> fs_files content (w_fs (ks_wallet ?s)) DERIVED_KEY_CACHE_PATH \<noteq> None"
      using known_parts [OF m] cp False ec by auto
    then have v2: "key_inv C content opened E mk c s1" by (rule lazy_init_cache [OF v1 f _ l])
    show ?thesis
    proof (cases "derived_key_cache_initialized s1")
      case n: False
      then show ?thesis
        using d Some e l False full_derive [OF v2]
        by (auto simp: wallet_derive_key_priv_using_cache_def bind_eq_Some_conv split: if_splits)
    next
      case i: True
      then have "derived_key_cache s1 = c" using v2 by (simp add: key_inv_def)
      then have "maybe_derive_from_cached_key E path (cached_key parts c) (length (dp_path parts)) = Some (ok, k')" "s' = s1"
        using d Some e l False i known_parts [OF m]
        by (auto simp: wallet_derive_key_priv_using_cache_def bind_eq_Some_conv cached_key_def split: if_splits)
      then show ?thesis using derive_from_cached [OF ck t len] v2 by simp
    qed
  qed
qed

end

interpretation ramr: wkek_reliable ram_lfs ram_files ram_open ram_crypto
  by unfold_locales
    (auto simp: ram_crypto_def ram_opencfg_def ram_read_def ram_close_def Let_def split: option.splits)

section \<open>Properties\<close>

text \<open>C5: On a device whose seed is sealed, as long as reads and decryption work, deriving a key
  through the cache gives exactly what derivation from the master key gives: the same status and the
  same key, whatever part of the path was cached, whether the cache is in RAM, on file, absent or was
  never filled, and also when storing it fails.  The paths are those of the network the cache belongs
  to, the auth path, and every path that is not cached.\<close>

theorem key_cache_transparent:
  assumes "wkek_reliable L content opened C"
    and "key_inv C content opened E mk c s" "cache_for E coin mk c"
    and "\<forall>parts. get_derivation_path_parts path = Some parts \<longrightarrow> dp_coin_type parts \<in> {coin, COIN_TYPE_UNKNOWN}"
    and "length path \<le> BIP32_MAX_DERIVATION_DEPTH"
    and "wallet_derive_key_priv_using_cache L C E k path s = Some (ok, k', s')"
  shows "bip32_derive_path_priv E mk None path = Some (ok, k', None) \<and> key_inv C content opened E mk c s'"
  by (rule wkek_reliable.using_cache [OF assms])

text \<open>The toy keys: secret \<open>a\<close> repeated.\<close>

definition toy_key :: "nat \<Rightarrow> extended_key_t" where
  "toy_key a = \<lparr>ek_prefix = 0, ek_key = replicate 32 (word_of_nat a), ek_chaincode = replicate 32 1\<rparr>"

lemma be_val_replicate: "be_val (replicate n b) = unat b * be_val (replicate n 1)"
  by (induction n) (simp_all add: algebra_simps)

lemma unat_of_small: "n < 256 \<Longrightarrow> unat (word_of_nat n :: u8) = n"
  by (simp add: unat_of_nat take_bit_nat_eq_self)

lemma toy_key_ok: "0 < a \<Longrightarrow> a < 200 \<Longrightarrow> seckey_ok (replicate 32 (word_of_nat a))"
  by (rule seckey_ok_hd) (simp_all add: word_less_nat_alt unat_of_nat take_bit_nat_eq_self)

lemma toy_tweak_replicate:
  assumes "0 < a" "a < 199"
  shows "toy_tweak (replicate 32 (word_of_nat a)) (replicate 32 1) = Some (replicate 32 (word_of_nat (Suc a)))"
proof -
  let ?d = "replicate 32 (word_of_nat (Suc a)) :: bytes"
  have u: "unat (word_of_nat a :: u8) = a" "unat (word_of_nat (Suc a) :: u8) = Suc a"
    by (rule unat_of_small; use assms in simp)+
  have s: "be_val (replicate 32 (word_of_nat a)) + be_val (replicate 32 1) = be_val ?d"
    unfolding be_val_replicate [of 32 "word_of_nat a"] be_val_replicate [of 32 "word_of_nat (Suc a)"] u by simp
  have o: "0 < be_val ?d" "be_val ?d < secp256k1_order" using toy_key_ok [of "Suc a"] assms by simp_all
  have t: "be_val (replicate 32 (1 :: u8)) < secp256k1_order" using toy_key_ok [of 1] by simp
  show ?thesis
    unfolding toy_tweak_def s mod_less [OF o(2)] Let_def using o(1) t be_enc_val [of ?d 32] by simp
qed

lemma toy_ckd:
  assumes "0 < a" "a < 199"
  shows "(if hardened i then ckd_priv_hardened toy_env (toy_key a) i else ckd_priv_unhardened toy_env (toy_key a) i) =
    Some (True, toy_key (Suc a))"
proof -
  note t = toy_tweak_replicate [OF assms]
  have o: "seckey_ok (replicate 32 (word_of_nat a))" using toy_key_ok assms by simp
  have h: "crypto_hmac toy_ecc m key SHA512_DIGEST_SIZE ALG_SHA512 = Some (True, replicate 64 1)" for m key
    by (simp add: crypto_hmac_def toy_ecc_def convert_hash_type_def)
  have w: "crypto_ecc_secp256k1_priv_tweak_add toy_env (replicate 32 (word_of_nat a)) (replicate 32 1) =
      (True, replicate 32 (word_of_nat (Suc a)))"
    using t by (simp add: crypto_ecc_secp256k1_priv_tweak_add_def toy_ecc_def)
  have p: "crypto_ecc_secp256k1_priv_to_sec_encoded_pub toy_env (replicate 32 (word_of_nat a)) =
      Some (True, replicate 32 (word_of_nat a), 2 # replicate 32 (word_of_nat a))"
    using o by (simp add: crypto_ecc_secp256k1_priv_to_sec_encoded_pub_def crypto_ecc_secp256k1_priv_to_xonly_pub_def toy_ecc_def)
  show ?thesis
    using h w p by (simp add: ckd_priv_hardened_def ckd_priv_unhardened_def toy_key_def mem_read_def)
qed

lemma toy_derive:
  "0 < a \<Longrightarrow> a + length p < 200 \<Longrightarrow> derive_priv_loop toy_env p (toy_key a) None = Some (True, toy_key (a + length p), None)"
proof (induction p arbitrary: a)
  case (Cons i p)
  have e: "derive_priv_loop toy_env (i # p) (toy_key a) None =
      do { (ok, k) \<leftarrow> (if hardened i then ckd_priv_hardened toy_env (toy_key a) i else ckd_priv_unhardened toy_env (toy_key a) i);
           if \<not> ok then Some (False, k, None) else derive_priv_loop toy_env p k None }" by simp
  show ?case
    unfolding e using toy_ckd [of a i] Cons.IH [of "Suc a"] Cons.prems by simp
qed simp

definition toy_cache :: derived_key_cache_t where
  "toy_cache = \<lparr>kc_version = 0, bip84_external_key = toy_key 5, bip84_internal_key = toy_key 5, w1_auth_key = toy_key 3\<rparr>"

lemma toy_cache_for: "cache_for toy_env COIN_TYPE_MAINNET (toy_key 1) toy_cache"
proof -
  have d: "bip32_derive_path_priv toy_env (toy_key 1) None p = Some (True, toy_key (Suc (length p)), None)"
    if "length p < 100" for p
    using toy_derive [of 1 p] that by (simp add: bip32_derive_path_priv_def)
  have l: "length (dp_path BIP84_MAINNET_EXTERNAL) = 4" "length (dp_path BIP84_MAINNET_INTERNAL) = 4"
    "length (dp_path W1_AUTH) = 2"
    by (simp_all add: BIP84_MAINNET_EXTERNAL_def BIP84_MAINNET_INTERNAL_def W1_AUTH_def)
  have p: "get_derivation_path PURPOSE_BIP84 COIN_TYPE_MAINNET CHANGE_EXTERNAL = Some (dp_path BIP84_MAINNET_EXTERNAL)"
    "get_derivation_path PURPOSE_BIP84 COIN_TYPE_MAINNET CHANGE_INTERNAL = Some (dp_path BIP84_MAINNET_INTERNAL)"
    by (simp_all add: get_derivation_path_def DERIVATION_PATHS_def)
  have s: "Suc 4 = 5" "Suc 2 = 3" by simp_all
  show ?thesis
    using d [of "dp_path BIP84_MAINNET_EXTERNAL"] d [of "dp_path BIP84_MAINNET_INTERNAL"] d [of "dp_path W1_AUTH"]
    unfolding l s by (simp add: cache_for_def wf_cache_def wf_key_def toy_cache_def toy_key_def p)
qed

text \<open>A device with a sealed seed and its cache in RAM.\<close>

definition key_example :: "(ram_t, nat) key_state" where
  "key_example = \<lparr>ks_wallet = wallet_example [WKEK_PATH \<mapsto> replicate WKEK_SIZE 5,
       SEED_PATH \<mapsto> replicate 12 0 @ replicate 32 (9 XOR 5) @ replicate 16 5] False,
     derived_key_cache = toy_cache, derived_key_cache_initialized = True\<rparr>"

lemma key_example_inv: "key_inv ram_crypto ram_files ram_open toy_env (toy_key 1) toy_cache key_example"
proof -
  let ?w = "ks_wallet key_example"
  have "is_blob ram_crypto (replicate WKEK_SIZE 5) (replicate 32 9) (replicate 12 0 @ replicate 32 (9 XOR 5) @ replicate 16 5)"
    by (rule is_blobI [of _ _ _ _ 0]) (simp_all add: ram_crypto_def)
  then have "sealed ram_crypto ram_files ?w SEED_PATH (replicate 32 9)"
    by (simp add: sealed_def key_file_def key_example_def wallet_example_def ram_fs_def fs_files_def WKEK_PATH_def SEED_PATH_def)
  moreover have "bip32_derive_master_key toy_env (replicate 32 9) zero_key = Some (True, toy_key 1)"
    using toy_key_ok [of 1]
    by (simp add: bip32_derive_master_key_def crypto_hmac_def toy_ecc_def convert_hash_type_def
        crypto_ecc_secp256k1_priv_verify_def toy_key_def zero_key_def)
  moreover have "wkek_ready ram_files ram_open ?w"
    by (simp add: wkek_ready_def key_example_def wallet_example_def ram_fs_idle key_file_def pool_ok_def region_ok_def
        WKEK_PATH_def SEED_PATH_def)
  ultimately have "seed_installed ram_crypto ram_files ram_open toy_env (toy_key 1) ?w"
    unfolding seed_installed_def by (intro conjI exI [of _ "replicate 32 9"]) simp_all
  then show ?thesis
    using toy_cache_for by (simp add: key_inv_def cache_for_def cache_file_def key_example_def wallet_example_def
        WKEK_PATH_def SEED_PATH_def ram_fs_def fs_files_def)
qed

theorem key_cache_transparent_witness:
  "\<exists>k'. wallet_derive_key_priv_using_cache ram_lfs ram_crypto toy_env zero_key (dp_path BIP84_MAINNET_EXTERNAL @ [7]) key_example =
     Some (True, k', key_example) \<and>
   bip32_derive_path_priv toy_env (toy_key 1) None (dp_path BIP84_MAINNET_EXTERNAL @ [7]) = Some (True, k', None)"
proof -
  let ?p = "dp_path BIP84_MAINNET_EXTERNAL @ [7]"
  have l: "length (dp_path BIP84_MAINNET_EXTERNAL) = 4" by (simp add: BIP84_MAINNET_EXTERNAL_def)
  have parts: "get_derivation_path_parts ?p = Some BIP84_MAINNET_EXTERNAL"
    by (simp add: get_derivation_path_parts_def DERIVATION_PATHS_def derivation_path_is_subset_def list_all_iff nth_append)
  have "maybe_derive_from_cached_key toy_env ?p (toy_key 5) 4 = Some (True, toy_key 6)"
    using toy_derive [of 5 "[7]"] l by (simp add: maybe_derive_from_cached_key_def bip32_derive_path_priv_def)
  then have d: "wallet_derive_key_priv_using_cache ram_lfs ram_crypto toy_env zero_key ?p key_example =
      Some (True, toy_key 6, key_example)"
    by (simp add: wallet_derive_key_priv_using_cache_def parts derived_key_cache_lazy_init_def key_example_def toy_cache_def l)
  have "bip32_derive_path_priv toy_env (toy_key 1) None ?p = Some (True, toy_key 6, None)"
    using key_cache_transparent [OF ramr.wkek_reliable_axioms key_example_inv toy_cache_for _ _ d] parts l by simp
  with d show ?thesis by blast
qed

text \<open>C35: The cache does not record its network: once it is initialised, a path of the test network is
  served with the key cached for the main network, and conversely.\<close>

theorem key_cache_ignores_network:
  assumes "derived_key_cache_initialized s"
  shows "wallet_derive_key_priv_using_cache L C E k (dp_path BIP84_TESTNET_EXTERNAL @ rest) s =
    wallet_derive_key_priv_using_cache L C E k (dp_path BIP84_MAINNET_EXTERNAL @ rest) s"
proof -
  have p: "get_derivation_path_parts (dp_path BIP84_TESTNET_EXTERNAL @ rest) = Some BIP84_TESTNET_EXTERNAL"
    "get_derivation_path_parts (dp_path BIP84_MAINNET_EXTERNAL @ rest) = Some BIP84_MAINNET_EXTERNAL"
    by (simp_all add: get_derivation_path_parts_def DERIVATION_PATHS_def derivation_path_is_subset_def list_all_iff
        nth_append BIP84_TESTNET_EXTERNAL_def BIP84_MAINNET_EXTERNAL_def BIP84_MAINNET_INTERNAL_def W1_AUTH_def upt_rec)
  have l: "length (dp_path BIP84_MAINNET_EXTERNAL) = 4" "length (dp_path BIP84_TESTNET_EXTERNAL) = 4"
    by (simp_all add: BIP84_MAINNET_EXTERNAL_def BIP84_TESTNET_EXTERNAL_def)
  show ?thesis
    using assms by (simp add: wallet_derive_key_priv_using_cache_def p derived_key_cache_lazy_init_def
        maybe_derive_from_cached_key_def l)
qed

theorem key_cache_ignores_network_witness:
  "derived_key_cache_initialized key_example \<and>
   wallet_derive_key_priv_using_cache ram_lfs ram_crypto toy_env zero_key (dp_path BIP84_TESTNET_EXTERNAL @ [7]) key_example =
   wallet_derive_key_priv_using_cache ram_lfs ram_crypto toy_env zero_key (dp_path BIP84_MAINNET_EXTERNAL @ [7]) key_example"
proof
  show i: "derived_key_cache_initialized key_example" by (simp add: key_example_def)
  show "wallet_derive_key_priv_using_cache ram_lfs ram_crypto toy_env zero_key (dp_path BIP84_TESTNET_EXTERNAL @ [7]) key_example =
    wallet_derive_key_priv_using_cache ram_lfs ram_crypto toy_env zero_key (dp_path BIP84_MAINNET_EXTERNAL @ [7]) key_example"
    by (rule key_cache_ignores_network [OF i])
qed

end
