(* ===== verification/Policy.thy ===== *)
theory Policy
  imports Keycache
begin

text \<open>
  The signing policy, \<open>lib/policy/policy.c\<close>, and its use by \<open>key_manager_derive_and_sign\<close> of
  \<open>app/tasks/key_manager\<close>, which derives the key of a path and signs with it.  The callback that
  returns the allowed path is its result: the outer \<open>None\<close> is a NULL callback, the inner one a NULL
  result.  The fault scenario \<open>flip\<close> of the policy check is a set of evaluations whose outcome is
  inverted: 0-2, 3-5 and 6-8 are the three tests of the flags, 9-11 the test of the path, 12-14 the
  final test.  Faults in the signing itself are a set of their own.  \<open>None\<close> is a failed assertion;
  log output and log events are not modelled.
\<close>

section \<open>Model of the code\<close>

datatype policy_sign_result_t = POLICY_SIGN_SUCCESS | POLICY_SIGN_POLICY_VIOLATION | POLICY_SIGN_SIGNING_ERROR

record policy_ctx_t =
  fetch_path_cb :: "derivation_path_t option option"
  policy_enabled :: secure_bool_t
  policy_grant :: secure_bool_t

definition policy_ctx_start :: policy_ctx_t where
  "policy_ctx_start = \<lparr>fetch_path_cb = None, policy_enabled = SECURE_TRUE, policy_grant = SECURE_FALSE\<rparr>"

definition policy_init :: "derivation_path_t option option \<Rightarrow> secure_bool_t \<Rightarrow> policy_ctx_t \<Rightarrow> policy_ctx_t" where
  "policy_init cb enabled p = p\<lparr>fetch_path_cb := cb, policy_enabled := enabled\<rparr>"

definition policy_disable :: "policy_ctx_t \<Rightarrow> policy_ctx_t" where
  "policy_disable p = p\<lparr>policy_enabled := SECURE_FALSE\<rparr>"

definition policy_present_grant :: "policy_ctx_t \<Rightarrow> policy_ctx_t" where
  "policy_present_grant p = p\<lparr>policy_grant := SECURE_TRUE\<rparr>"

definition path_matches_allowed_path :: "policy_ctx_t \<Rightarrow> derivation_path_t \<Rightarrow> bool option" where
  "path_matches_allowed_path p path =
     do { cb \<leftarrow> fetch_path_cb p;
          allowed \<leftarrow> cb;
          Some (length path = length allowed \<and> list_all (\<lambda>i. path ! i = allowed ! i) [0..<length path]) }"

text \<open>The variable \<open>can_sign\<close> after the three guarded assignments.\<close>

definition policy_can_sign :: "nat set \<Rightarrow> policy_ctx_t \<Rightarrow> derivation_path_t \<Rightarrow> secure_bool_t option" where
  "policy_can_sign flip p path =
     (let can_sign = SECURE_FALSE;
          can_sign = (if SECURE_IF_FAILOUT (\<lambda>i. glitched flip i (policy_enabled p = SECURE_FALSE))
                      then SECURE_TRUE else can_sign);
          can_sign = (if SECURE_IF_FAILOUT (\<lambda>i. glitched flip (3 + i)
                           (policy_enabled p = SECURE_TRUE \<and> policy_grant p = SECURE_TRUE))
                      then SECURE_TRUE else can_sign)
      in if SECURE_IF_FAILOUT (\<lambda>i. glitched flip (6 + i)
              (policy_enabled p = SECURE_TRUE \<and> policy_grant p = SECURE_FALSE))
         then do { match \<leftarrow> path_matches_allowed_path p path;
                   Some (if SECURE_IF_FAILOUT (\<lambda>i. glitched flip (9 + i) match) then SECURE_TRUE else can_sign) }
         else Some can_sign)"

definition bip32_sign_with_policy ::
  "ecc_env \<Rightarrow> nat set \<Rightarrow> nat set \<Rightarrow> policy_ctx_t \<Rightarrow> extended_key_t \<Rightarrow> derivation_path_t \<Rightarrow> bytes \<Rightarrow> bytes \<Rightarrow>
   (policy_sign_result_t \<times> bytes) option" where
  "bip32_sign_with_policy E flip sflip p key_priv path digest signature_out =
     (if fetch_path_cb p = None then None
      else do { can_sign \<leftarrow> policy_can_sign flip p path;
                if SECURE_IF_FAILIN (\<lambda>i. glitched flip (12 + i) (can_sign \<noteq> SECURE_TRUE))
                then Some (POLICY_SIGN_POLICY_VIOLATION, signature_out)
                else do { (ok, signature_out) \<leftarrow> bip32_sign E sflip key_priv digest signature_out;
                          Some (if \<not> ok then POLICY_SIGN_SIGNING_ERROR else POLICY_SIGN_SUCCESS, signature_out) } })"

datatype key_manager_sign_result_t = KEY_MANAGER_SIGN_SUCCESS | KEY_MANAGER_SIGN_DERIVATION_FAILED
  | KEY_MANAGER_SIGN_SIGNING_FAILED | KEY_MANAGER_SIGN_POLICY_VIOLATION

definition key_manager_derive_and_sign ::
  "'m lfs_ops \<Rightarrow> 'c crypto_ops \<Rightarrow> ecc_env \<Rightarrow> nat set \<Rightarrow> nat set \<Rightarrow> policy_ctx_t \<Rightarrow> derivation_path_t \<Rightarrow> bytes \<Rightarrow> bytes \<Rightarrow>
   ('m, 'c) key_state \<Rightarrow> (key_manager_sign_result_t \<times> bytes \<times> ('m, 'c) key_state) option" where
  "key_manager_derive_and_sign L C E flip sflip p path hash sig_out s =
     do { (ok, key_priv, s) \<leftarrow> wallet_derive_key_priv_using_cache L C E zero_key path s;
          if \<not> ok then Some (KEY_MANAGER_SIGN_DERIVATION_FAILED, sig_out, s)
          else do { (r, sig_out) \<leftarrow> bip32_sign_with_policy E flip sflip p key_priv path hash sig_out;
                    Some (case r of POLICY_SIGN_SUCCESS \<Rightarrow> KEY_MANAGER_SIGN_SUCCESS
                          | POLICY_SIGN_SIGNING_ERROR \<Rightarrow> KEY_MANAGER_SIGN_SIGNING_FAILED
                          | POLICY_SIGN_POLICY_VIOLATION \<Rightarrow> KEY_MANAGER_SIGN_POLICY_VIOLATION, sig_out, s) } }"

section \<open>What the policy allows\<close>

text \<open>The intent: no policy, a grant, or the allowed path.  A flag that is neither true nor false
  allows nothing.\<close>

definition policy_allows :: "policy_ctx_t \<Rightarrow> derivation_path_t \<Rightarrow> bool" where
  "policy_allows p path =
     (policy_enabled p = SECURE_FALSE \<or>
      policy_enabled p = SECURE_TRUE \<and> policy_grant p = SECURE_TRUE \<or>
      policy_enabled p = SECURE_TRUE \<and> policy_grant p = SECURE_FALSE \<and> fetch_path_cb p = Some (Some path))"

lemma list_all_nth_eq: "length xs = length ys \<and> list_all (\<lambda>i. xs ! i = ys ! i) [0..<length xs] \<longleftrightarrow> xs = ys"
proof
  assume "length xs = length ys \<and> list_all (\<lambda>i. xs ! i = ys ! i) [0..<length xs]"
  then show "xs = ys" by (intro nth_equalityI) (simp_all add: list_all_iff)
qed (simp add: list_all_iff)

lemma path_matches: "path_matches_allowed_path p path = do { cb \<leftarrow> fetch_path_cb p; allowed \<leftarrow> cb; Some (path = allowed) }"
  unfolding path_matches_allowed_path_def list_all_nth_eq ..

lemma path_matches_iff: "path_matches_allowed_path p path = Some b \<Longrightarrow> b \<longleftrightarrow> fetch_path_cb p = Some (Some path)"
  unfolding path_matches by (cases "fetch_path_cb p"; cases "the (fetch_path_cb p)") auto

text \<open>One fault opens no guard that is closed, and closes no test that fails in.\<close>

lemma failout_single: "flip \<subseteq> {j} \<Longrightarrow> SECURE_IF_FAILOUT (\<lambda>i. glitched flip (n + i) b) \<Longrightarrow> b"
  by (cases b) (auto simp: SECURE_IF_FAILOUT_def glitched_def subset_singleton_iff)

lemma failin_single: "flip \<subseteq> {j} \<Longrightarrow> \<not> SECURE_IF_FAILIN (\<lambda>i. glitched flip (n + i) b) \<Longrightarrow> \<not> b"
  by (cases b) (auto simp: SECURE_IF_FAILIN_def glitched_def subset_singleton_iff)

lemma no_faults [simp]:
  "glitched {} i b = b" "SECURE_IF_FAILOUT (\<lambda>i. b) = b" "SECURE_IF_FAILIN (\<lambda>i. b) = b"
  by (simp_all add: glitched_def SECURE_IF_FAILOUT_def SECURE_IF_FAILIN_def)

lemma can_sign_allowed:
  assumes f: "flip \<subseteq> {j}" and c: "policy_can_sign flip p path = Some SECURE_TRUE"
  shows "policy_allows p path"
proof -
  note g = failout_single [OF f]
  show ?thesis
    using c g [of 0] g [of 3] g [of 6] g [of 9] path_matches_iff [of p path]
    by (auto simp: policy_can_sign_def policy_allows_def bind_eq_Some_conv Let_def split: if_splits)
qed

lemma can_sign_complete:
  assumes "policy_allows p path"
  shows "policy_can_sign {} p path = Some SECURE_TRUE"
proof (cases "policy_enabled p = SECURE_TRUE \<and> policy_grant p = SECURE_FALSE")
  case True
  then have "fetch_path_cb p = Some (Some path)" using assms by (simp add: policy_allows_def)
  then show ?thesis using True by (simp add: policy_can_sign_def path_matches)
next
  case False
  then show ?thesis using assms by (auto simp: policy_can_sign_def policy_allows_def)
qed

lemma sign_with_policy_cases:
  assumes f: "flip \<subseteq> {j}" and s: "bip32_sign_with_policy E flip sflip p k path d sig = Some (r, sig')"
  shows "(r = POLICY_SIGN_POLICY_VIOLATION \<longrightarrow> sig' = sig) \<and>
    (r = POLICY_SIGN_SIGNING_ERROR \<longrightarrow> sig' = replicate ECC_SIG_SIZE 0) \<and>
    (r \<noteq> POLICY_SIGN_POLICY_VIOLATION \<longrightarrow> policy_allows p path \<and>
       bip32_sign E sflip k d sig = Some (r = POLICY_SIGN_SUCCESS, sig'))"
proof -
  obtain c where c: "policy_can_sign flip p path = Some c"
    using s by (auto simp: bip32_sign_with_policy_def bind_eq_Some_conv split: if_splits)
  show ?thesis
  proof (cases "SECURE_IF_FAILIN (\<lambda>i. glitched flip (12 + i) (c \<noteq> SECURE_TRUE))")
    case True
    then show ?thesis using s c by (simp add: bip32_sign_with_policy_def split: if_splits)
  next
    case False
    then have "c = SECURE_TRUE" using failin_single [OF f] by blast
    then have "policy_allows p path" using can_sign_allowed [OF f] c by simp
    moreover obtain ok where "bip32_sign E sflip k d sig = Some (ok, sig')"
      "r = (if ok then POLICY_SIGN_SUCCESS else POLICY_SIGN_SIGNING_ERROR)"
      using s c False by (auto simp: bip32_sign_with_policy_def bind_eq_Some_conv split: if_splits)
    moreover from this have "\<not> ok \<longrightarrow> sig' = replicate ECC_SIG_SIZE 0"
      by (auto simp: bip32_sign_def bind_eq_Some_conv split: if_splits)
    ultimately show ?thesis by simp
  qed
qed

section \<open>Properties\<close>

text \<open>C1: A request to derive and sign succeeds only if the policy allows the path, even under one
  injected fault in the policy check.  A refused or failed derivation leaves the signature buffer as
  it was and a failed signing clears it.  Without faults an allowed path is never refused.  These hold
  for every path and in every state.  If moreover the state is consistent (\<open>key_inv\<close>), reading and
  decrypting existing files works (\<open>wkek_reliable\<close>) and the path, if it is one of the known paths, is
  of the network whose keys the cache holds or of no network, then the state remains consistent and
  the signature is made with the key that the path derives from the master key.\<close>

theorem derive_and_sign_authorised:
  assumes "flip \<subseteq> {j}"
    and "key_manager_derive_and_sign L C E flip sflip p path hash sig s = Some (res, sig', s')"
  shows "(res = KEY_MANAGER_SIGN_SUCCESS \<longrightarrow> policy_allows p path) \<and>
    (res \<in> {KEY_MANAGER_SIGN_DERIVATION_FAILED, KEY_MANAGER_SIGN_POLICY_VIOLATION} \<longrightarrow> sig' = sig) \<and>
    (res = KEY_MANAGER_SIGN_SIGNING_FAILED \<longrightarrow> sig' = replicate ECC_SIG_SIZE 0) \<and>
    (flip = {} \<and> policy_allows p path \<longrightarrow> res \<noteq> KEY_MANAGER_SIGN_POLICY_VIOLATION) \<and>
    (wkek_reliable L content opened C \<and> key_inv C content opened E mk c s \<and> cache_for E coin mk c \<and>
     (\<forall>parts. get_derivation_path_parts path = Some parts \<longrightarrow> dp_coin_type parts \<in> {coin, COIN_TYPE_UNKNOWN}) \<and>
     length path \<le> BIP32_MAX_DERIVATION_DEPTH \<longrightarrow>
       key_inv C content opened E mk c s' \<and>
       (res = KEY_MANAGER_SIGN_SUCCESS \<longrightarrow>
          (\<exists>k. bip32_derive_path_priv E mk None path = Some (True, k, None) \<and>
               bip32_sign E sflip k hash sig = Some (True, sig'))))" (is "_ \<and> _ \<and> _ \<and> _ \<and> (?R \<longrightarrow> _)")
proof -
  obtain ok k s1 where d: "wallet_derive_key_priv_using_cache L C E zero_key path s = Some (ok, k, s1)"
    using assms(2) by (auto simp: key_manager_derive_and_sign_def bind_eq_Some_conv)
  have dc: "bip32_derive_path_priv E mk None path = Some (ok, k, None) \<and> key_inv C content opened E mk c s1" if ?R
    using wkek_reliable.using_cache [OF _ _ _ _ _ d, of content opened mk c coin] that by blast
  show ?thesis
  proof (cases ok)
    case False
    then show ?thesis using assms(2) d dc by (auto simp: key_manager_derive_and_sign_def)
  next
    case True
    then obtain r where r: "bip32_sign_with_policy E flip sflip p k path hash sig = Some (r, sig')" "s' = s1"
      and res: "res = (case r of POLICY_SIGN_SUCCESS \<Rightarrow> KEY_MANAGER_SIGN_SUCCESS
          | POLICY_SIGN_SIGNING_ERROR \<Rightarrow> KEY_MANAGER_SIGN_SIGNING_FAILED
          | POLICY_SIGN_POLICY_VIOLATION \<Rightarrow> KEY_MANAGER_SIGN_POLICY_VIOLATION)"
      using assms(2) d by (auto simp: key_manager_derive_and_sign_def bind_eq_Some_conv)
    have "r \<noteq> POLICY_SIGN_POLICY_VIOLATION" if "flip = {}" "policy_allows p path"
      using r(1) that can_sign_complete [OF that(2)]
      by (auto simp: bip32_sign_with_policy_def bind_eq_Some_conv split: if_splits)
    then show ?thesis
      using sign_with_policy_cases [OF assms(1) r(1)] dc True r(2) res by (cases r) auto
  qed
qed

lemma toy_sign: "bip32_sign toy_env {} k hash sig = Some (True, replicate 64 1)"
proof -
  have p: "key_management_custom_domain_prepare ALG_ECC_SECP256K1
      (replicate (SECP256K1_CUSTOM_DOMAIN_OVERHEAD + ECC_PRIVKEY_SIZE) 0) \<noteq> None"
    by (simp add: key_management_custom_domain_prepare_def secp256k1_p_def secp256k1_N_def secp256k1_Gx_def
        secp256k1_Gy_def secp256k1_a_def secp256k1_b_def)
  have n: "crypto_ecc_secp256k1_normalize_signature toy_env (replicate 64 1) = Some (True, replicate 64 1)"
    by (simp add: crypto_ecc_secp256k1_normalize_signature_def toy_ecc_def)
  show ?thesis
    using p n by (auto simp: bip32_sign_def crypto_ecc_sign_hash_def toy_ecc_def)
qed

definition policy_example :: policy_ctx_t where
  "policy_example = policy_init (Some (Some wallet_get_w1_auth_path)) SECURE_TRUE policy_ctx_start"

lemma example_derive:
  "get_derivation_path_parts (dp_path BIP84_MAINNET_EXTERNAL) = Some BIP84_MAINNET_EXTERNAL"
  "length (dp_path BIP84_MAINNET_EXTERNAL) = 4"
  "wallet_derive_key_priv_using_cache ram_lfs ram_crypto toy_env zero_key (dp_path BIP84_MAINNET_EXTERNAL) key_example =
     Some (True, toy_key 5, key_example)"
proof -
  let ?p = "dp_path BIP84_MAINNET_EXTERNAL"
  show l: "length ?p = 4" by (simp add: BIP84_MAINNET_EXTERNAL_def)
  show parts: "get_derivation_path_parts ?p = Some BIP84_MAINNET_EXTERNAL"
    by (simp add: get_derivation_path_parts_def DERIVATION_PATHS_def derivation_path_is_subset_def list_all_iff)
  show "wallet_derive_key_priv_using_cache ram_lfs ram_crypto toy_env zero_key ?p key_example =
      Some (True, toy_key 5, key_example)"
    by (simp add: wallet_derive_key_priv_using_cache_def parts derived_key_cache_lazy_init_def key_example_def
        toy_cache_def l maybe_derive_from_cached_key_def)
qed

text \<open>With the policy on, a spending key signs once a grant was presented, although evaluation 6 is
  glitched, and does not sign without a grant, although evaluation 13 is.\<close>

theorem derive_and_sign_authorised_witness:
  "(\<exists>sig' k. key_manager_derive_and_sign ram_lfs ram_crypto toy_env {6} {} (policy_present_grant policy_example)
       (dp_path BIP84_MAINNET_EXTERNAL) (replicate 32 5) (replicate 64 9) key_example =
       Some (KEY_MANAGER_SIGN_SUCCESS, sig', key_example) \<and>
     bip32_derive_path_priv toy_env (toy_key 1) None (dp_path BIP84_MAINNET_EXTERNAL) = Some (True, k, None) \<and>
     bip32_sign toy_env {} k (replicate 32 5) (replicate 64 9) = Some (True, sig')) \<and>
   (\<exists>sig'. key_manager_derive_and_sign ram_lfs ram_crypto toy_env {13} {} policy_example
       (dp_path BIP84_MAINNET_EXTERNAL) (replicate 32 5) (replicate 64 9) key_example =
       Some (KEY_MANAGER_SIGN_POLICY_VIOLATION, sig', key_example) \<and> sig' = replicate 64 9)"
proof -
  let ?p = "dp_path BIP84_MAINNET_EXTERNAL" and ?g = "policy_present_grant policy_example"
  note fl = SECURE_IF_FAILOUT_def SECURE_IF_FAILIN_def glitched_def policy_example_def policy_init_def
    policy_ctx_start_def policy_present_grant_def
  have ne: "?p \<noteq> wallet_get_w1_auth_path"
    using example_derive(2) by (auto simp: wallet_get_w1_auth_path_def W1_AUTH_def)
  have g: "policy_can_sign {6} ?g ?p = Some SECURE_TRUE" by (simp add: policy_can_sign_def fl)
  have c: "policy_can_sign {13} policy_example ?p = Some SECURE_FALSE"
    using ne by (simp add: policy_can_sign_def path_matches fl)
  have e: "key_manager_derive_and_sign ram_lfs ram_crypto toy_env {6} {} ?g ?p (replicate 32 5)
      (replicate 64 9) key_example = Some (KEY_MANAGER_SIGN_SUCCESS, replicate 64 1, key_example)"
    using g by (simp add: key_manager_derive_and_sign_def example_derive(3) bip32_sign_with_policy_def fl toy_sign)
  have v: "key_manager_derive_and_sign ram_lfs ram_crypto toy_env {13} {} policy_example ?p (replicate 32 5)
      (replicate 64 9) key_example = Some (KEY_MANAGER_SIGN_POLICY_VIOLATION, replicate 64 9, key_example)"
    using c by (simp add: key_manager_derive_and_sign_def example_derive(3) bip32_sign_with_policy_def fl)
  note ok = ramr.wkek_reliable_axioms key_example_inv toy_cache_for
  note app = derive_and_sign_authorised [where content = ram_files and opened = ram_open and mk = "toy_key 1"
      and c = toy_cache and coin = COIN_TYPE_MAINNET]
  show ?thesis
    using app [OF _ e, of 6] app [OF _ v, of 13] ok e v example_derive(1,2) by auto
qed

end
