(* ===== verification/Spec2Isabelle.thy ===== *)
theory Spec2Isabelle
  imports Bitlog Langpack Kv Auth Mempool Indexfs Secure Wkek Unlock Ripemd160 Bip32 Keycache Policy
begin

text \<open>
  A verification of the firmware of the Bitkey hardware wallet, of the C libraries under
  \<open>src/firmware/lib\<close> that guard its secrets.

  \<^bold>\<open>The parts and how they interact.\<close>  The wallet keeps a random seed on a littlefs file system.  The
  seed, and a cache of keys derived from it, are sealed with a key-encryption key that only the secure
  engine can use.  Keys are derived along BIP 32 paths, and a signing request passes a policy before the
  derived key signs.  The device is unlocked with a fingerprint or with a secret; wrong secrets are
  counted in flash, followed by growing delays and finally by a wipe.  An unlocked device locks itself
  when a timer expires, and powers off when another one does.  The rest are stores and buffers that these
  parts use: the file layer, a key-value store, a tag-length-value store, a block allocator, a ring buffer
  with the event log on top of it, and the string table of the display.

  \<^bold>\<open>Conventions.\<close>  A structure is a record, an enumeration a datatype, an unsigned integer of the source
  a word of its width; a size that is only used as an index is a natural number.  A function that changes
  state returns the new state.  \<open>None\<close> is a failed assertion, which resets the device; every error code is
  a value.  Loops are recursive functions, structural or with a termination proof (the scans of \<open>Tlv\<close> and \<open>Kv\<close>,
  the blocks of \<open>Ripemd160\<close>); the two loops that may not end, the drain of the event log and the rejection loop of
  key generation, are \<open>partial_function\<close>s, and their theorems prove that they return.  No fuel is used.  Mutexes have no effect on the sequential behaviour and are left out,
  except where a lock that is not obtained is a branch of the code (the file layer).

  \<^bold>\<open>The theories.\<close>
  \<^item> \<open>Prelude\<close>: words, bytes, and reading and writing of buffers.
  \<^item> \<open>Fifo_Interface\<close>, \<open>Ringbuf\<close>, \<open>Bitlog\<close>: the contract of a byte queue, \<open>lib/ringbuf\<close> as its provider and
    \<open>lib/bitlog\<close> as its client.  Pushed bytes and recorded events come out in order; a full buffer is
    not refused but discarded.
  \<^item> \<open>Store_Interface\<close>, \<open>Tlv\<close>: the contract of a keyed store and \<open>lib/tlv\<close> as its provider.  Any sequence of
    operations behaves as on a finite map.
  \<^item> \<open>Langpack\<close>: \<open>lib/langpack\<close>, lookup of strings in a loaded pack.
  \<^item> \<open>Filesystem\<close>, \<open>Littlefs\<close>, \<open>Kv\<close>: \<open>lib/filesystem\<close> over the calls of littlefs, the laws of littlefs that the
    firmware relies on, and \<open>lib/kv\<close>.  Whole-file writes take effect or leave the file as it was, and
    values survive a restart.
  \<^item> \<open>Rtos\<close>, \<open>Sleep\<close>, \<open>Auth\<close>: the timers of \<open>lib/rtos\<close>, \<open>lib/sleep\<close> and \<open>lib/auth\<close>.  An unlocked device
    always has an armed deadline, whose expiry locks it, and a shutdown that has begun stays latched.  The
    wrapper ignores a stop that the kernel refuses, so a stopped timer may keep its old deadline.
  \<^item> \<open>Secure\<close>: \<open>memcmp_s\<close> of \<open>lib/wstd\<close> and the hardening of \<open>lib/secutils\<close>, with injected faults as a set of
    inverted evaluations.  One fault does not open a guarded action.
  \<^item> \<open>Mempool\<close>: \<open>lib/mempool\<close>.  Blocks in use are disjoint and freed blocks are cleared.
  \<^item> \<open>Indexfs\<close>: \<open>lib/indexfs\<close> and \<open>lib/fwup/src/fwup_addr.c\<close>.  The log in flash behaves as a counter with a flag
    while it fits its page, and leaves the page when it does not.
  \<^item> \<open>Wkek\<close>: \<open>wkek.c\<close>, \<open>wallet_storage.c\<close> and \<open>wallet.c\<close> of \<open>lib/wallet\<close>.  Sealed files are read back as
    written, also after a reboot, and in a wipe interrupted anywhere the cached keys go before the seed and
    the key-encryption key goes last; a removal that fails is ignored and leaves its file.
  \<^item> \<open>Unlock\<close>: \<open>lib/unlock\<close> over \<open>Wkek\<close>'s file layer, \<open>Indexfs\<close>, \<open>Auth\<close>, \<open>Sleep\<close> and \<open>Secure\<close>.  Every compared
    guess is counted first, delays are enforced and survive a reset, and guesses beyond the limit wipe the
    device if the configured response is to wipe.
  \<^item> \<open>Ripemd160\<close>: \<open>lib/crypto/src/ripemd160.c\<close> computes the RIPEMD-160 of the standard.
  \<^item> \<open>Ecc\<close>: hashes, key handles and elliptic curves of \<open>lib/crypto\<close>.  Signatures are verified before they
    are returned, and key generation returns as soon as a secret in range is drawn.
  \<^item> \<open>Bip32\<close>: \<open>lib/bip32\<close>.  Public derivation agrees with private derivation, keys stay well-formed, and
    serialised keys have the layout of BIP 32.
  \<^item> \<open>Keycache\<close>: \<open>seed.c\<close> and \<open>derived_key_cache.c\<close> of \<open>lib/wallet\<close>.  The cache is transparent for the network it
    was made for, and does not distinguish the other one.
  \<^item> \<open>Policy\<close>: \<open>lib/policy\<close> and \<open>key_manager_derive_and_sign\<close> of \<open>app/tasks/key_manager\<close>.  Only allowed paths are
    signed for, also under one fault, and with the key that belongs to the path if it is of the network of
    the cache.

  \<^bold>\<open>Code that is not in the repository.\<close>  littlefs, the kernel, the flash driver, the secure engine and
  libsecp256k1 are records of functions, and what is relied on of them is a locale: \<open>littlefs\<close>,
  \<open>littlefs_stat\<close>, \<open>freertos\<close>, \<open>nor_flash\<close>, \<open>aead\<close>, \<open>wkek_env\<close>, \<open>wkek_reliable\<close>, \<open>unlock_env\<close> and
  \<open>secp256k1_lib\<close>.  Their laws allow every call to fail unless they say otherwise: \<open>littlefs_stat\<close> (and
  \<open>wkek_env\<close>, which extends it) excludes a failing existence test, because a key file that is not found is
  replaced, and \<open>wkek_reliable\<close> excludes failing reads, because a failed read of the seed makes the code
  create a new one.  The engine and the curve library are functions of their arguments, so a failure that
  depends on the moment of the call is not represented for them.  Each locale is interpreted on an implementation in memory (\<open>ram_lfs\<close>, \<open>ram_rtos\<close>, \<open>ram_flash\<close>,
  \<open>ram_crypto\<close>, \<open>toy_ecc\<close>), which shows that the laws can hold; the contracts between components
  of the firmware, \<open>byte_fifo\<close> and \<open>keyed_store\<close>, are interpreted on the models of the code.

  \<^bold>\<open>Bounds.\<close>  Paths have at most 256 indices, as the code asserts.  The fault model is one
  inverted evaluation per guarded decision; faults that corrupt data or skip other instructions are not
  covered.

  \<^bold>\<open>Not modelled.\<close>  The display and animation code, logging, the shell and tracing have no state that the
  theorems depend on.  The hardware abstraction and the application tasks (but for
  \<open>key_manager_derive_and_sign\<close>) are register-level code and event loops.  Generated code (protobuf, IPC
  tables) is not in the sources.  Transactions (\<open>lib/psbt\<close>) and addresses (\<open>wallet_address.c\<close>) are mostly calls
  of the embedded-wallet library, a third-party one.  Secure boot, firmware update, the secure channel, the NFC protocols
  (\<open>lib/wca\<close>, \<open>lib/iso7816\<close>, \<open>lib/t4t\<close>, \<open>lib/uc\<close>), confirmations, grants, feature flags, onboarding,
  metadata, telemetry and fingerprint storage are firmware libraries that could be modelled in the same way and
  are not yet.  The mobile application with its bundled SQLite, the Rust core and the server are separate
  programs in other languages.
\<close>

end
